(* ===== verification/Ihtp_Prelude.thy ===== *)
theory Ihtp_Prelude
  imports Main "HOL-Library.Word" "HOL-Library.Monad_Syntax"
begin

text \<open>
  The shared vocabulary of the development: bytes and caller-owned memory, checked reads and
  writes, the C library calls the parser uses (memchr, memrchr, memcmp, memcpy, memmove),
  \<open>size_t\<close> subtraction with its wrap-around, and the list lemmas the components share.

  A C function that reads memory is a HOL function into \<open>'a ub\<close>: \<open>None\<close> is undefined
  behaviour (a read or write outside the buffer, a null dereference), \<open>Some r\<close> is a normal
  return with result \<open>r\<close>.  That a function never returns \<open>None\<close> is its memory safety.
  Pointers into the caller's buffer are offsets; a pointer that the code may leave null is a
  \<open>ptr\<close>, that is a \<open>nat option\<close>.

  Collections: \<open>ub_mono\<close> holds the rules that show a function reads memory only through
  checked reads (so a longer buffer gives the same answer), \<open>leaf_specs\<close> the equations
  that evaluate a C-level routine inside its bounds to its reference definition on bytes.
\<close>

unbundle bit_operations_syntax

named_theorems ub_mono "monotonicity of C-level functions in the readable memory"
named_theorems leaf_specs "C-level routines evaluated to their reference definitions"

section \<open>Bytes, memory, undefined behaviour\<close>

type_synonym byte = "8 word"
type_synonym mem = "byte list"
type_synonym ptr = "nat option"
type_synonym 'a ub = "'a option"

abbreviation "LF \<equiv> (0x0A :: byte)"
abbreviation "CR \<equiv> (0x0D :: byte)"
abbreviation "SP \<equiv> (0x20 :: byte)"
abbreviation "HTAB \<equiv> (0x09 :: byte)"
abbreviation "COLON \<equiv> (0x3A :: byte)"
abbreviation "COMMA \<equiv> (0x2C :: byte)"
abbreviation "SEMI \<equiv> (0x3B :: byte)"

text \<open>The result of one pass of a C loop body: go round again, or return from the function.\<close>

datatype ('s, 'r) ctl = Continue 's | Return 'r

definition ascii :: "string \<Rightarrow> byte list" where
  "ascii = map of_char"

definition rd :: "mem \<Rightarrow> nat \<Rightarrow> byte ub" where
  "rd mem i = (if i < length mem then Some (mem ! i) else None)"

definition span :: "mem \<Rightarrow> nat \<Rightarrow> nat \<Rightarrow> byte list" where
  "span mem p n = take n (drop p mem)"

definition rd_bytes :: "mem \<Rightarrow> nat \<Rightarrow> nat \<Rightarrow> byte list ub" where
  "rd_bytes mem p n = (if p + n \<le> length mem then Some (span mem p n) else None)"

text \<open>Subtraction of two \<open>size_t\<close> values (or of two pointers, read as \<open>size_t\<close>).\<close>

definition size_sub :: "nat \<Rightarrow> nat \<Rightarrow> nat" where
  "size_sub a b = (if b \<le> a then a - b else 2 ^ 64 + a - b)"

lemma size_sub_le [simp]: "b \<le> a \<Longrightarrow> size_sub a b = a - b"
  by (simp add: size_sub_def)

declare Option.bind_cong [fundef_cong]

section \<open>C library routines\<close>

fun c_memchr :: "mem \<Rightarrow> nat \<Rightarrow> byte \<Rightarrow> nat \<Rightarrow> ptr ub" where
  "c_memchr mem p c 0 = Some None"
| "c_memchr mem p c (Suc n) =
     do { b \<leftarrow> rd mem p; if b = c then Some (Some p) else c_memchr mem (Suc p) c n }"

fun c_memrchr :: "mem \<Rightarrow> nat \<Rightarrow> byte \<Rightarrow> nat \<Rightarrow> ptr ub" where
  "c_memrchr mem p c 0 = Some None"
| "c_memrchr mem p c (Suc n) =
     do { b \<leftarrow> rd mem (p + n); if b = c then Some (Some (p + n)) else c_memrchr mem p c n }"

text \<open>\<open>memcmp (p, lit, n) == 0\<close> for a literal of \<open>n\<close> bytes; all \<open>n\<close> bytes must be readable.\<close>

definition c_memeq :: "mem \<Rightarrow> nat \<Rightarrow> byte list \<Rightarrow> bool ub" where
  "c_memeq mem p lit = do { bs \<leftarrow> rd_bytes mem p (length lit); Some (bs = lit) }"

text \<open>\<open>memcpy (&chunk, p, 8)\<close> into a \<open>uint64_t\<close>, on a little-endian machine.\<close>

definition le_u64 :: "byte list \<Rightarrow> 64 word" where
  "le_u64 bs = word_of_int (horner_sum uint 256 bs)"

definition c_load_u64 :: "mem \<Rightarrow> nat \<Rightarrow> 64 word ub" where
  "c_load_u64 mem p = do { bs \<leftarrow> rd_bytes mem p 8; Some (le_u64 bs) }"

definition c_memmove :: "mem \<Rightarrow> nat \<Rightarrow> nat \<Rightarrow> nat \<Rightarrow> mem ub" where
  "c_memmove mem dst src n =
     (if dst + n \<le> length mem \<and> src + n \<le> length mem
      then Some (take dst mem @ span mem src n @ drop (dst + n) mem) else None)"

section \<open>Positions in a list\<close>

fun index_of :: "('a \<Rightarrow> bool) \<Rightarrow> 'a list \<Rightarrow> nat option" where
  "index_of P [] = None"
| "index_of P (x # xs) = (if P x then Some 0 else map_option Suc (index_of P xs))"

fun last_index :: "('a \<Rightarrow> bool) \<Rightarrow> 'a list \<Rightarrow> nat option" where
  "last_index P [] = None"
| "last_index P (x # xs) =
     (case last_index P xs of Some i \<Rightarrow> Some (Suc i) | None \<Rightarrow> if P x then Some 0 else None)"

lemma index_of_None_iff: "index_of P xs = None \<longleftrightarrow> (\<forall>x\<in>set xs. \<not> P x)"
  by (induction xs) auto

lemma index_of_Some_iff:
  "index_of P xs = Some i \<longleftrightarrow> i < length xs \<and> P (xs ! i) \<and> (\<forall>j<i. \<not> P (xs ! j))"
proof (induction xs arbitrary: i)
  case Nil
  show ?case by simp
next
  case (Cons x xs)
  show ?case
    by (cases i) (auto simp: Cons.IH less_Suc_eq_0_disj)
qed

lemma index_of_SomeD: "index_of P xs = Some i \<Longrightarrow> \<exists>x\<in>set xs. P x"
  by (auto simp: index_of_Some_iff intro!: bexI [of _ "xs ! i"])

lemma index_of_append:
  "index_of P (xs @ ys) =
     (case index_of P xs of Some i \<Rightarrow> Some i | None \<Rightarrow> map_option ((+) (length xs)) (index_of P ys))"
proof (induction xs)
  case Nil
  show ?case by (cases "index_of P ys") auto
next
  case (Cons x xs)
  then show ?case by (cases "index_of P ys") (auto split: option.splits)
qed

lemma index_of_split:
  "index_of P xs = Some i \<longleftrightarrow>
     (\<exists>us x vs. xs = us @ x # vs \<and> i = length us \<and> P x \<and> (\<forall>u\<in>set us. \<not> P u))"
proof
  assume "index_of P xs = Some i"
  then have "i < length xs" "P (xs ! i)" "\<forall>j<i. \<not> P (xs ! j)"
    by (auto simp: index_of_Some_iff)
  then show "\<exists>us x vs. xs = us @ x # vs \<and> i = length us \<and> P x \<and> (\<forall>u\<in>set us. \<not> P u)"
    by (intro exI [of _ "take i xs"] exI [of _ "xs ! i"] exI [of _ "drop (Suc i) xs"])
       (auto simp: id_take_nth_drop [symmetric] in_set_conv_nth)
next
  assume "\<exists>us x vs. xs = us @ x # vs \<and> i = length us \<and> P x \<and> (\<forall>u\<in>set us. \<not> P u)"
  then show "index_of P xs = Some i"
    by (auto simp: index_of_append index_of_None_iff [THEN iffD2])
qed

lemma last_index_snoc: "last_index P (xs @ [x]) = (if P x then Some (length xs) else last_index P xs)"
  by (induction xs) (auto split: option.splits)

lemma last_index_None_iff: "last_index P xs = None \<longleftrightarrow> (\<forall>x\<in>set xs. \<not> P x)"
  by (induction xs) (auto split: option.splits)

lemma last_index_append:
  "last_index P (xs @ ys) =
     (case last_index P ys of Some i \<Rightarrow> Some (length xs + i) | None \<Rightarrow> last_index P xs)"
  by (induction xs) (auto split: option.splits)

lemma last_index_SomeD:
  "last_index P xs = Some i \<Longrightarrow>
     \<exists>us x vs. xs = us @ x # vs \<and> i = length us \<and> P x \<and> (\<forall>v\<in>set vs. \<not> P v)"
proof (induction xs arbitrary: i)
  case Nil
  then show ?case by simp
next
  case (Cons y ys)
  show ?case
  proof (cases "last_index P ys")
    case None
    with Cons.prems have "P y" "i = 0" by (auto split: if_splits)
    with None show ?thesis
      by (intro exI [of _ "[]"] exI [of _ y] exI [of _ ys]) (simp add: last_index_None_iff)
  next
    case (Some j)
    with Cons.IH obtain us x vs
      where "ys = us @ x # vs" "j = length us" "P x" "\<forall>v\<in>set vs. \<not> P v" by blast
    with Some Cons.prems show ?thesis
      by (intro exI [of _ "y # us"] exI [of _ x] exI [of _ vs]) simp
  qed
qed

lemma last_index_split:
  "last_index P xs = Some i \<longleftrightarrow>
     (\<exists>us x vs. xs = us @ x # vs \<and> i = length us \<and> P x \<and> (\<forall>v\<in>set vs. \<not> P v))"
proof
  assume "\<exists>us x vs. xs = us @ x # vs \<and> i = length us \<and> P x \<and> (\<forall>v\<in>set vs. \<not> P v)"
  then obtain us x vs where "xs = us @ x # vs" "i = length us" "P x" "\<forall>v\<in>set vs. \<not> P v"
    by blast
  then show "last_index P xs = Some i"
    by (simp add: last_index_append last_index_None_iff [THEN iffD2])
qed (rule last_index_SomeD)

section \<open>Spans of memory\<close>

lemma length_span [simp]: "length (span mem p n) = min n (length mem - p)"
  by (simp add: span_def)

lemma span_0 [simp]: "span mem p 0 = []"
  by (simp add: span_def)

lemma span_Suc: "p < length mem \<Longrightarrow> span mem p (Suc n) = mem ! p # span mem (Suc p) n"
  by (simp add: span_def Cons_nth_drop_Suc [symmetric])

lemma span_snoc: "p + n < length mem \<Longrightarrow> span mem p (Suc n) = span mem p n @ [mem ! (p + n)]"
  by (simp add: span_def take_Suc_conv_app_nth)

lemma nth_span [simp]: "i < n \<Longrightarrow> p + i < length mem \<Longrightarrow> span mem p n ! i = mem ! (p + i)"
  by (simp add: span_def)

lemma nth_in_span: "i < n \<Longrightarrow> p + i < length mem \<Longrightarrow> mem ! (p + i) \<in> set (span mem p n)"
  using nth_mem [of i "span mem p n"] by simp

lemma take_span: "take i (span mem p n) = span mem p (min i n)"
  by (simp add: span_def)

lemma drop_span: "drop i (span mem p n) = span mem (p + i) (n - i)"
  by (simp add: span_def drop_take add.commute)

lemma span_append: "span mem p (m + n) = span mem p m @ span mem (p + m) n"
  by (simp add: span_def take_add add.commute)

lemma span_mem_append [simp]: "p + n \<le> length mem \<Longrightarrow> span (mem @ ys) p n = span mem p n"
  by (simp add: span_def)

lemma span_take_mem: "p + n \<le> k \<Longrightarrow> span (take k mem) p n = span mem p n"
  by (simp add: span_def drop_take)

lemma rd_in [leaf_specs]: "i < length mem \<Longrightarrow> rd mem i = Some (mem ! i)"
  by (simp add: rd_def)

lemma rd_bytes_in [leaf_specs]: "p + n \<le> length mem \<Longrightarrow> rd_bytes mem p n = Some (span mem p n)"
  by (simp add: rd_bytes_def)

lemma c_memeq_in [leaf_specs]:
  "p + length lit \<le> length mem \<Longrightarrow> c_memeq mem p lit = Some (span mem p (length lit) = lit)"
  by (simp add: c_memeq_def rd_bytes_in)

lemma c_load_u64_in [leaf_specs]:
  "p + 8 \<le> length mem \<Longrightarrow> c_load_u64 mem p = Some (le_u64 (span mem p 8))"
  by (simp add: c_load_u64_def rd_bytes_in)

lemma c_memchr_in [leaf_specs]:
  "p + n \<le> length mem \<Longrightarrow>
     c_memchr mem p c n = Some (map_option ((+) p) (index_of (\<lambda>b. b = c) (span mem p n)))"
proof (induction n arbitrary: p)
  case 0
  show ?case by simp
next
  case (Suc n)
  then show ?case
    by (auto simp: rd_in span_Suc option.map_comp comp_def)
qed

lemma c_memrchr_in [leaf_specs]:
  "p + n \<le> length mem \<Longrightarrow>
     c_memrchr mem p c n = Some (map_option ((+) p) (last_index (\<lambda>b. b = c) (span mem p n)))"
proof (induction n)
  case 0
  show ?case by simp
next
  case (Suc n)
  then show ?case
    by (auto simp: rd_in span_snoc last_index_snoc)
qed

lemma all_span_Suc:
  "p < length mem \<Longrightarrow> list_all P (span mem p (Suc n)) \<longleftrightarrow> P (mem ! p) \<and> list_all P (span mem (Suc p) n)"
  by (simp add: span_Suc)

section \<open>Reading through checked reads only\<close>

text \<open>
  \<open>ub_le x y\<close>: whenever \<open>x\<close> is defined, \<open>y\<close> is defined with the same result.  A function
  built from checked reads is monotone in the readable memory, which gives the frame property
  of every parser routine: what it returns on a buffer does not depend on the bytes behind it.
\<close>

definition ub_le :: "'a ub \<Rightarrow> 'a ub \<Rightarrow> bool" where
  "ub_le x y \<longleftrightarrow> (\<forall>r. x = Some r \<longrightarrow> y = Some r)"

lemma ub_leD: "ub_le x y \<Longrightarrow> x = Some r \<Longrightarrow> y = Some r"
  by (simp add: ub_le_def)

lemma ub_le_refl [ub_mono]: "ub_le x x"
  by (simp add: ub_le_def)

lemma ub_le_bind [ub_mono]:
  "ub_le x y \<Longrightarrow> (\<And>a. x = Some a \<Longrightarrow> ub_le (f a) (g a)) \<Longrightarrow> ub_le (x \<bind> f) (y \<bind> g)"
  by (auto simp: ub_le_def bind_eq_Some_conv)

lemma ub_le_if [ub_mono]:
  "(b \<Longrightarrow> ub_le x x') \<Longrightarrow> (\<not> b \<Longrightarrow> ub_le y y') \<Longrightarrow>
     ub_le (if b then x else y) (if b then x' else y')"
  by simp

lemma ub_le_let [ub_mono]: "(\<And>a. ub_le (f a) (g a)) \<Longrightarrow> ub_le (Let v f) (Let v g)"
  by simp

lemma ub_le_option [ub_mono]:
  "(v = None \<Longrightarrow> ub_le x x') \<Longrightarrow> (\<And>a. v = Some a \<Longrightarrow> ub_le (f a) (g a)) \<Longrightarrow>
     ub_le (case_option x f v) (case_option x' g v)"
  by (cases v) auto

lemma ub_le_sum [ub_mono]:
  "(\<And>a. ub_le (f a) (f' a)) \<Longrightarrow> (\<And>a. ub_le (g a) (g' a)) \<Longrightarrow> ub_le (case_sum f g v) (case_sum f' g' v)"
  by (cases v) auto

lemma ub_le_prod [ub_mono]:
  "(\<And>a b. v = (a, b) \<Longrightarrow> ub_le (f a b) (g a b)) \<Longrightarrow> ub_le (case_prod f v) (case_prod g v)"
  by (cases v) auto

lemma ub_le_ctl [ub_mono]:
  "(\<And>a. v = Continue a \<Longrightarrow> ub_le (f a) (f' a)) \<Longrightarrow> (\<And>a. v = Return a \<Longrightarrow> ub_le (g a) (g' a)) \<Longrightarrow>
     ub_le (case_ctl f g v) (case_ctl f' g' v)"
  by (cases v) auto

lemma ub_le_rd [ub_mono]: "ub_le (rd mem i) (rd (mem @ ys) i)"
  by (simp add: ub_le_def rd_def nth_append)

lemma ub_le_rd_bytes [ub_mono]: "ub_le (rd_bytes mem p n) (rd_bytes (mem @ ys) p n)"
  by (simp add: ub_le_def rd_bytes_def)

lemma ub_le_memchr [ub_mono]: "ub_le (c_memchr mem p c n) (c_memchr (mem @ ys) p c n)"
  by (induction n arbitrary: p) (auto intro!: ub_mono)

lemma ub_le_memrchr [ub_mono]: "ub_le (c_memrchr mem p c n) (c_memrchr (mem @ ys) p c n)"
  by (induction n) (auto intro!: ub_mono)

lemma ub_le_memeq [ub_mono]: "ub_le (c_memeq mem p lit) (c_memeq (mem @ ys) p lit)"
  by (simp add: c_memeq_def ub_mono)

lemma ub_le_load_u64 [ub_mono]: "ub_le (c_load_u64 mem p) (c_load_u64 (mem @ ys) p)"
  by (simp add: c_load_u64_def ub_mono)

end
