(* ===== verification/Ihtp_Types.thy ===== *)
theory Ihtp_Types
  imports Ihtp_Prelude
begin

text \<open>
  The public data model of include/iohttpparser/ihtp_types.h: status codes, methods, versions,
  the parser state, headers, requests, responses and policies, with the size limits at their
  default values.  Structs are records (field names carry a prefix because Isabelle record
  fields are global constants), enums are datatypes, pointers are offsets or null.
\<close>

section \<open>Limits\<close>

definition IHTP_MAX_HEADERS :: nat where "IHTP_MAX_HEADERS = 64"
definition IHTP_MAX_HEADER_LINE :: nat where "IHTP_MAX_HEADER_LINE = 8192"
definition IHTP_MAX_REQUEST_LINE :: nat where "IHTP_MAX_REQUEST_LINE = 8192"

section \<open>Enums\<close>

datatype ihtp_status_t =
    IHTP_OK
  | IHTP_INCOMPLETE
  | IHTP_ERROR
  | IHTP_ERROR_TOO_LONG
  | IHTP_ERROR_TOO_MANY_HEADERS

fun status_code :: "ihtp_status_t \<Rightarrow> int" where
  "status_code IHTP_OK = 0"
| "status_code IHTP_INCOMPLETE = -2"
| "status_code IHTP_ERROR = -1"
| "status_code IHTP_ERROR_TOO_LONG = -3"
| "status_code IHTP_ERROR_TOO_MANY_HEADERS = -4"

datatype ihtp_method_t =
    IHTP_METHOD_UNKNOWN
  | IHTP_METHOD_GET
  | IHTP_METHOD_POST
  | IHTP_METHOD_PUT
  | IHTP_METHOD_DELETE
  | IHTP_METHOD_HEAD
  | IHTP_METHOD_OPTIONS
  | IHTP_METHOD_PATCH
  | IHTP_METHOD_CONNECT
  | IHTP_METHOD_TRACE

datatype ihtp_http_version_t = IHTP_HTTP_10 | IHTP_HTTP_11

datatype ihtp_parser_mode_t =
    IHTP_PARSER_MODE_REQUEST
  | IHTP_PARSER_MODE_RESPONSE
  | IHTP_PARSER_MODE_HEADERS

datatype ihtp_parser_phase_t =
    IHTP_PARSER_PHASE_START_LINE
  | IHTP_PARSER_PHASE_HEADERS
  | IHTP_PARSER_PHASE_DONE
  | IHTP_PARSER_PHASE_ERROR

fun phase_code :: "ihtp_parser_phase_t \<Rightarrow> nat" where
  "phase_code IHTP_PARSER_PHASE_START_LINE = 0"
| "phase_code IHTP_PARSER_PHASE_HEADERS = 1"
| "phase_code IHTP_PARSER_PHASE_DONE = 2"
| "phase_code IHTP_PARSER_PHASE_ERROR = 3"

text \<open>Phases are ordered by their enumerator values: the order in which a parser goes through them.\<close>

lemma phase_code_inj: "phase_code a = phase_code b \<longleftrightarrow> a = b"
  by (cases a; cases b) simp_all

instantiation ihtp_parser_phase_t :: linorder
begin

definition less_eq_ihtp_parser_phase_t :: "ihtp_parser_phase_t \<Rightarrow> ihtp_parser_phase_t \<Rightarrow> bool" where
  "less_eq_ihtp_parser_phase_t a b \<longleftrightarrow> phase_code a \<le> phase_code b"

definition less_ihtp_parser_phase_t :: "ihtp_parser_phase_t \<Rightarrow> ihtp_parser_phase_t \<Rightarrow> bool" where
  "less_ihtp_parser_phase_t a b \<longleftrightarrow> phase_code a < phase_code b"

instance
  by standard
    (auto simp: less_eq_ihtp_parser_phase_t_def less_ihtp_parser_phase_t_def phase_code_inj)

end

datatype ihtp_body_mode_t =
    IHTP_BODY_NONE
  | IHTP_BODY_FIXED
  | IHTP_BODY_CHUNKED
  | IHTP_BODY_EOF

section \<open>Structs\<close>

record ihtp_parser_state_t =
  ps_mode :: ihtp_parser_mode_t
  ps_phase :: ihtp_parser_phase_t
  ps_cursor :: nat

record ihtp_header_t =
  hdr_name :: ptr
  hdr_name_len :: nat
  hdr_value :: ptr
  hdr_value_len :: nat

record ihtp_request_t =
  req_method :: ihtp_method_t
  req_method_str :: ptr
  req_method_len :: nat
  req_path :: ptr
  req_path_len :: nat
  req_version :: ihtp_http_version_t
  req_headers :: "ihtp_header_t list"
  req_num_headers :: nat
  req_body_mode :: ihtp_body_mode_t
  req_content_length :: "64 word"
  req_keep_alive :: bool
  req_protocol_upgrade :: bool
  req_expects_continue :: bool
  req_has_trailer_fields :: bool

record ihtp_response_t =
  resp_version :: ihtp_http_version_t
  resp_status_code :: int
  resp_reason :: ptr
  resp_reason_len :: nat
  resp_headers :: "ihtp_header_t list"
  resp_num_headers :: nat
  resp_body_mode :: ihtp_body_mode_t
  resp_content_length :: "64 word"
  resp_keep_alive :: bool
  resp_protocol_upgrade :: bool
  resp_has_trailer_fields :: bool

record ihtp_policy_t =
  reject_obs_fold :: bool
  reject_bare_lf :: bool
  reject_te_cl :: bool
  allow_spaces_in_uri :: bool

text \<open>The objects after \<open>memset (_, 0, sizeof _)\<close>: null pointers, zero lengths, enumerators 0.\<close>

definition zero_header :: ihtp_header_t where
  "zero_header = \<lparr> hdr_name = None, hdr_name_len = 0, hdr_value = None, hdr_value_len = 0 \<rparr>"

definition zero_request :: ihtp_request_t where
  "zero_request =
     \<lparr> req_method = IHTP_METHOD_UNKNOWN, req_method_str = None, req_method_len = 0,
       req_path = None, req_path_len = 0, req_version = IHTP_HTTP_10,
       req_headers = replicate IHTP_MAX_HEADERS zero_header, req_num_headers = 0,
       req_body_mode = IHTP_BODY_NONE, req_content_length = 0, req_keep_alive = False,
       req_protocol_upgrade = False, req_expects_continue = False,
       req_has_trailer_fields = False \<rparr>"

definition zero_response :: ihtp_response_t where
  "zero_response =
     \<lparr> resp_version = IHTP_HTTP_10, resp_status_code = 0, resp_reason = None,
       resp_reason_len = 0, resp_headers = replicate IHTP_MAX_HEADERS zero_header,
       resp_num_headers = 0, resp_body_mode = IHTP_BODY_NONE, resp_content_length = 0,
       resp_keep_alive = False, resp_protocol_upgrade = False,
       resp_has_trailer_fields = False \<rparr>"

section \<open>Policies\<close>

definition IHTP_POLICY_STRICT :: ihtp_policy_t where
  "IHTP_POLICY_STRICT = \<lparr> reject_obs_fold = True, reject_bare_lf = True, reject_te_cl = True,
     allow_spaces_in_uri = False \<rparr>"

definition IHTP_POLICY_LENIENT :: ihtp_policy_t where
  "IHTP_POLICY_LENIENT = \<lparr> reject_obs_fold = False, reject_bare_lf = False, reject_te_cl = False,
     allow_spaces_in_uri = True \<rparr>"

definition IHTP_POLICY_IOHTTP :: ihtp_policy_t where
  "IHTP_POLICY_IOHTTP = IHTP_POLICY_STRICT"

definition IHTP_POLICY_IOGUARD :: ihtp_policy_t where
  "IHTP_POLICY_IOGUARD = IHTP_POLICY_STRICT"

text \<open>\<open>policy != nullptr && policy->flag\<close>, the guard the internal routines use.\<close>

definition policy_flag :: "(ihtp_policy_t \<Rightarrow> bool) \<Rightarrow> ihtp_policy_t option \<Rightarrow> bool" where
  "policy_flag f policy = (case policy of None \<Rightarrow> False | Some p \<Rightarrow> f p)"

lemma policy_flag_simps [simp]: "policy_flag f None = False" "policy_flag f (Some p) = f p"
  by (simp_all add: policy_flag_def)

end
