(* ===== verification/Ihtp_Chars.thy ===== *)
theory Ihtp_Chars
  imports Ihtp_Prelude
begin

text \<open>
  Character classification: the token table of src/ihtp_scanner_scalar.c and the inline
  predicates of src/ihtp_internal.h, with the RFC 9110 definition of tchar the table is
  checked against.
\<close>

section \<open>The token table and the inline predicates\<close>

definition ihtp_token_table :: "byte list" where
  "ihtp_token_table =
    [0, 0, 0, 0, 0, 0, 0, 0,
     0, 0, 0, 0, 0, 0, 0, 0,
     0, 0, 0, 0, 0, 0, 0, 0,
     0, 0, 0, 0, 0, 0, 0, 0]
  @ [0] @ ascii ''!'' @ [0] @ ascii ''#'' @ ascii ''$'' @ ascii ''%'' @ ascii ''&'' @ [0x27]
  @ [0, 0] @ ascii ''*'' @ ascii ''+'' @ [0] @ ascii ''-'' @ ascii ''.'' @ [0]
  @ ascii ''01234567''
  @ ascii ''89'' @ [0, 0, 0, 0, 0, 0]
  @ [0] @ ascii ''ABCDEFG''
  @ ascii ''HIJKLMNO''
  @ ascii ''PQRSTUVW''
  @ ascii ''XYZ'' @ [0, 0, 0] @ ascii ''^'' @ ascii ''_''
  @ [0x60] @ ascii ''abcdefg''
  @ ascii ''hijklmno''
  @ ascii ''pqrstuvw''
  @ ascii ''xyz'' @ [0] @ ascii ''|'' @ [0] @ ascii ''~'' @ [0]
  @ replicate 128 0"

definition ihtp_is_token_char :: "byte \<Rightarrow> bool" where
  "ihtp_is_token_char c = (ihtp_token_table ! unat c \<noteq> 0)"

definition ihtp_is_digit :: "byte \<Rightarrow> bool" where
  "ihtp_is_digit c = (0x30 \<le> c \<and> c \<le> 0x39)"

definition ihtp_is_lws :: "byte \<Rightarrow> bool" where
  "ihtp_is_lws c = (c = SP \<or> c = HTAB)"

section \<open>tchar of RFC 9110, section 5.6.2\<close>

definition is_alpha :: "byte \<Rightarrow> bool" where
  "is_alpha c = ((0x41 \<le> c \<and> c \<le> 0x5A) \<or> (0x61 \<le> c \<and> c \<le> 0x7A))"

definition tchar :: "byte \<Rightarrow> bool" where
  "tchar c = (c \<in> set (ascii ''!#$%&*+-.^_|~'' @ [0x27, 0x60]) \<or> ihtp_is_digit c \<or> is_alpha c)"

lemma length_token_table: "length ihtp_token_table = 256"
  by (simp add: ihtp_token_table_def ascii_def)

lemma token_table_in_range: "unat (c :: byte) < length ihtp_token_table"
  using unsigned_less [of c, where ?'a = nat] by (simp add: length_token_table)

lemma token_table_tchar:
  "map (\<lambda>b. b \<noteq> 0) ihtp_token_table = map (\<lambda>n. tchar (word_of_nat n)) [0..<256]"
  by code_simp

lemma token_char_tchar [simp]: "ihtp_is_token_char c = tchar c"
proof -
  have c: "unat c < 256" using unsigned_less [of c, where ?'a = nat] by simp
  have "map (\<lambda>b. b \<noteq> 0) ihtp_token_table ! unat c = map (\<lambda>n. tchar (word_of_nat n)) [0..<256] ! unat c"
    by (simp only: token_table_tchar)
  with c show ?thesis
    by (simp add: ihtp_is_token_char_def length_token_table)
qed

lemma tchar_not_special:
  "tchar c \<Longrightarrow> c \<noteq> SP \<and> c \<noteq> HTAB \<and> c \<noteq> CR \<and> c \<noteq> LF \<and> c \<noteq> COLON \<and> c \<noteq> COMMA \<and> c \<noteq> SEMI"
  by (auto simp: tchar_def ascii_def ihtp_is_digit_def is_alpha_def)

end
