(* ===== verification/Ihtp_Text.thy ===== *)
theory Ihtp_Text
  imports Ihtp_Types Ihtp_Chars
begin

text \<open>
  The two text validators of src/ihtp_parser.c that test eight bytes at a time:
  \<open>request_target_is_valid\<close> and \<open>field_text_is_valid\<close>, with the 64-bit arithmetic of the
  code, and their equivalence with the byte-wise definition of a valid byte.
\<close>

section \<open>The eight-byte tests\<close>

definition swar_ones :: "64 word" where
  "swar_ones = 0x0101010101010101"

definition swar_highs :: "64 word" where
  "swar_highs = 0x8080808080808080"

text \<open>\<open>low_controls\<close>: nonzero if some byte of the chunk is below \<open>n\<close>.\<close>

definition swar_low_controls :: "64 word \<Rightarrow> 64 word \<Rightarrow> 64 word" where
  "swar_low_controls n chunk = (chunk - (swar_ones * n)) AND (NOT chunk) AND swar_highs"

text \<open>\<open>has_del\<close>: nonzero if some byte of the chunk is 0x7f.\<close>

definition swar_has_del :: "64 word \<Rightarrow> 64 word" where
  "swar_has_del chunk =
     (let del_bytes = chunk XOR (swar_ones * 0x7f)
      in (del_bytes - swar_ones) AND (NOT del_bytes) AND swar_highs)"

section \<open>request_target_is_valid\<close>

function request_target_fast :: "mem \<Rightarrow> nat \<Rightarrow> nat \<Rightarrow> nat ub" where
  "request_target_fast mem p e =
     (if 8 \<le> size_sub e p then
        do { chunk \<leftarrow> c_load_u64 mem p;
             if (swar_low_controls 0x21 chunk OR swar_has_del chunk) \<noteq> 0 then Some p
             else request_target_fast mem (p + 8) e }
      else Some p)"
  by pat_completeness auto
termination
  by (relation "measure (\<lambda>(mem, p, e). length mem - p)")
    (auto simp: c_load_u64_def rd_bytes_def bind_eq_Some_conv split: if_splits)

function request_target_slow :: "mem \<Rightarrow> nat \<Rightarrow> nat \<Rightarrow> bool \<Rightarrow> bool ub" where
  "request_target_slow mem p e allow_spaces =
     (if p < e then
        do { c \<leftarrow> rd mem p;
             if c = SP \<and> allow_spaces then request_target_slow mem (Suc p) e allow_spaces
             else if c \<le> 0x20 \<or> c = 0x7f then Some False
             else request_target_slow mem (Suc p) e allow_spaces }
      else Some True)"
  by pat_completeness auto
termination
  by (relation "measure (\<lambda>(mem, p, e, allow_spaces). e - p)") auto

declare request_target_fast.simps [simp del] request_target_slow.simps [simp del]

definition request_target_is_valid :: "mem \<Rightarrow> nat \<Rightarrow> nat \<Rightarrow> bool \<Rightarrow> bool ub" where
  "request_target_is_valid mem buf len allow_spaces =
     (let e = buf + len in
      do { p \<leftarrow> (if \<not> allow_spaces then request_target_fast mem buf e else Some buf);
           request_target_slow mem p e allow_spaces })"

section \<open>field_text_is_valid\<close>

function field_text_fast2 :: "mem \<Rightarrow> nat \<Rightarrow> nat \<Rightarrow> nat ub" where
  "field_text_fast2 mem p e =
     (if 32 \<le> size_sub e p then
        do { chunk_a \<leftarrow> c_load_u64 mem p;
             chunk_b \<leftarrow> c_load_u64 mem (p + 8);
             if (swar_low_controls 0x20 chunk_a OR swar_has_del chunk_a
                   OR swar_low_controls 0x20 chunk_b OR swar_has_del chunk_b) \<noteq> 0
             then Some p
             else field_text_fast2 mem (p + 16) e }
      else Some p)"
  by pat_completeness auto
termination
  by (relation "measure (\<lambda>(mem, p, e). length mem - p)")
    (auto simp: c_load_u64_def rd_bytes_def bind_eq_Some_conv split: if_splits)

function field_text_fast :: "mem \<Rightarrow> nat \<Rightarrow> nat \<Rightarrow> nat ub" where
  "field_text_fast mem p e =
     (if 8 \<le> size_sub e p then
        do { chunk \<leftarrow> c_load_u64 mem p;
             if (swar_low_controls 0x20 chunk OR swar_has_del chunk) \<noteq> 0 then Some p
             else field_text_fast mem (p + 8) e }
      else Some p)"
  by pat_completeness auto
termination
  by (relation "measure (\<lambda>(mem, p, e). length mem - p)")
    (auto simp: c_load_u64_def rd_bytes_def bind_eq_Some_conv split: if_splits)

function field_text_slow :: "mem \<Rightarrow> nat \<Rightarrow> nat \<Rightarrow> bool ub" where
  "field_text_slow mem p e =
     (if p < e then
        do { c \<leftarrow> rd mem p;
             if c = HTAB then field_text_slow mem (Suc p) e
             else if c < 0x20 \<or> c = 0x7f then Some False
             else field_text_slow mem (Suc p) e }
      else Some True)"
  by pat_completeness auto
termination
  by (relation "measure (\<lambda>(mem, p, e). e - p)") auto

declare field_text_fast2.simps [simp del] field_text_fast.simps [simp del]
  field_text_slow.simps [simp del]

definition field_text_is_valid :: "mem \<Rightarrow> nat \<Rightarrow> nat \<Rightarrow> bool ub" where
  "field_text_is_valid mem buf len =
     (let e = buf + len in
      do { p \<leftarrow> field_text_fast2 mem buf e;
           p \<leftarrow> field_text_fast mem p e;
           field_text_slow mem p e })"

section \<open>The reference definitions\<close>

definition target_byte :: "bool \<Rightarrow> byte \<Rightarrow> bool" where
  "target_byte allow_spaces c = ((c = SP \<and> allow_spaces) \<or> (0x20 < c \<and> c \<noteq> 0x7f))"

definition text_byte :: "byte \<Rightarrow> bool" where
  "text_byte c = (c = HTAB \<or> (0x20 \<le> c \<and> c \<noteq> 0x7f))"

section \<open>Soundness of the eight-byte tests\<close>

lemma bit_shift_256:
  assumes "0 \<le> c" and "c < 256"
  shows "bit (c + 256 * x :: int) (8 + m) = bit x m"
proof -
  have "(c + 256 * x) div 2 ^ (8 + m) = ((c + 256 * x) div 256) div 2 ^ m"
    by (simp add: power_add div_mult2_eq [symmetric] zdiv_zmult2_eq)
  also have "(c + 256 * x) div 256 = x"
    using assms by simp
  finally show ?thesis by (simp add: bit_iff_odd)
qed

lemma some_byte_below:
  fixes k :: int
  assumes "0 < k" and "k \<le> 128" and "\<exists>b\<in>set bs. uint b < k"
  shows "\<exists>i<length bs.
           bit (horner_sum uint 256 (bs :: byte list) - horner_sum (\<lambda>_. k) 256 bs) (8 * i + 7)
         \<and> \<not> bit (horner_sum uint 256 bs) (8 * i + 7)"
  using assms(3)
proof (induction bs)
  case Nil
  then show ?case by simp
next
  case (Cons b bs)
  let ?H = "horner_sum uint 256 bs" and ?K = "horner_sum (\<lambda>_. k) 256 bs"
  have b: "0 \<le> uint b" "uint b < 256" using unsigned_less [of b, where ?'a = int] by simp_all
  have diff: "horner_sum uint 256 (b # bs) - horner_sum (\<lambda>_. k) 256 (b # bs)
      = (uint b - k) + 256 * (?H - ?K)" by (simp add: algebra_simps)
  show ?case
  proof (cases "uint b < k")
    case True
    with assms b have "((uint b - k) + 256 * (?H - ?K)) div 128 = -1 + 2 * (?H - ?K)"
      and "(uint b + 256 * ?H) div 128 = 2 * ?H" by linarith+
    then show ?thesis unfolding diff by (intro exI [of _ 0]) (simp add: bit_iff_odd)
  next
    case False
    with Cons.prems have "\<exists>b\<in>set bs. uint b < k" by simp
    with Cons.IH obtain i where "i < length bs" "bit (?H - ?K) (8 * i + 7)" "\<not> bit ?H (8 * i + 7)"
      by blast
    moreover have "8 * Suc i + 7 = 8 + (8 * i + 7)" by simp
    ultimately show ?thesis
      unfolding diff using False b assms bit_shift_256 [of "uint b - k" "?H - ?K" "8 * i + 7"]
        bit_shift_256 [of "uint b" ?H "8 * i + 7"]
      by (intro exI [of _ "Suc i"]) (simp only: horner_sum_simps length_Cons, simp)
  qed
qed

lemma bit_highs: "i < 8 \<Longrightarrow> bit swar_highs (8 * i + 7)"
proof -
  assume "i < 8"
  then have "i \<in> {0, 1, 2, 3, 4, 5, 6, 7}" by auto
  then show ?thesis by (auto simp: swar_highs_def)
qed

lemma length_8_cases:
  "length bs = 8 \<Longrightarrow> \<exists>a b c d e f g h. bs = [a, b, c, d, e, f, g, h]"
  by (auto simp: numeral_eq_Suc length_Suc_conv)

lemma swar_low_sound:
  assumes "length bs = 8" and "swar_low_controls (word_of_int k) (le_u64 bs) = 0"
    and "0 < k" and "k \<le> 128" and "b \<in> set bs"
  shows "k \<le> uint b"
proof (rule ccontr)
  let ?H = "horner_sum uint 256 bs" and ?K = "horner_sum (\<lambda>_. k) 256 bs"
  assume "\<not> k \<le> uint b"
  with assms some_byte_below [of k bs] obtain i
    where i: "i < 8" and d: "bit (?H - ?K) (8 * i + 7)" and h: "\<not> bit ?H (8 * i + 7)" by fastforce
  have K: "?K = 0x0101010101010101 * k"
    using length_8_cases [OF assms(1)] by auto
  have "le_u64 bs - swar_ones * word_of_int k = word_of_int (?H - ?K)"
    by (simp add: le_u64_def swar_ones_def K)
  moreover from i d have "bit (word_of_int (?H - ?K) :: 64 word) (8 * i + 7)"
    by (simp add: bit_word_of_int_iff del: of_int_diff)
  ultimately have "bit (le_u64 bs - swar_ones * word_of_int k) (8 * i + 7)" by simp
  moreover from i h have "bit (NOT (le_u64 bs)) (8 * i + 7)"
    by (simp add: le_u64_def bit_not_iff bit_word_of_int_iff)
  ultimately have "bit (swar_low_controls (word_of_int k) (le_u64 bs)) (8 * i + 7)"
    using bit_highs [OF i] by (simp add: swar_low_controls_def bit_and_iff)
  with assms(2) show False by simp
qed

lemma bit_le_u64:
  "length bs = 8 \<Longrightarrow> n < 64 \<Longrightarrow> bit (le_u64 bs) n \<longleftrightarrow> bit (bs ! (n div 8)) (n mod 8)"
  using bit_horner_sum_uint_exp_iff [of bs n] less_mult_imp_div_less [of n 8 8]
  by (simp add: le_u64_def bit_word_of_int_iff)

lemma le_u64_xor:
  assumes "length bs = 8"
  shows "le_u64 bs XOR (swar_ones * 0x7f) = le_u64 (map (\<lambda>b. b XOR 0x7f) bs)"
proof (rule bit_eqI)
  fix n
  assume "possible_bit TYPE(64 word) n"
  then have n: "n < 64" by simp
  have "replicate 8 (0x7f :: byte) = [0x7f, 0x7f, 0x7f, 0x7f, 0x7f, 0x7f, 0x7f, 0x7f]"
    by (simp add: eval_nat_numeral)
  then have rep: "swar_ones * 0x7f = le_u64 (replicate 8 0x7f)"
    by (simp add: swar_ones_def le_u64_def)
  have "n div 8 < 8" using n less_mult_imp_div_less [of n 8 8] by simp
  with assms n show "bit (le_u64 bs XOR (swar_ones * 0x7f)) n
      = bit (le_u64 (map (\<lambda>b. b XOR 0x7f) bs)) n"
    by (simp add: rep bit_xor_iff bit_le_u64)
qed

lemma swar_del_sound:
  assumes "length bs = 8" and "swar_has_del (le_u64 bs) = 0" and "b \<in> set bs"
  shows "b \<noteq> 0x7f"
proof
  assume "b = 0x7f"
  with assms(3) have "0 \<in> set (map (\<lambda>b. b XOR 0x7f) bs)" by force
  moreover have "swar_low_controls (word_of_int 1) (le_u64 (map (\<lambda>b. b XOR 0x7f) bs)) = 0"
    using assms(1,2) by (simp add: swar_has_del_def swar_low_controls_def le_u64_xor Let_def)
  ultimately show False
    using swar_low_sound [of "map (\<lambda>b. b XOR 0x7f) bs" 1 0] assms(1) by simp
qed

text \<open>What an eight-byte chunk that passes the tests contains.\<close>

lemma chunk_target_ok:
  assumes "length bs = 8"
    and "(swar_low_controls 0x21 (le_u64 bs) OR swar_has_del (le_u64 bs)) = 0"
  shows "list_all (target_byte allow) bs"
  unfolding list_all_iff
proof
  fix b
  assume b: "b \<in> set bs"
  from assms(2) have "swar_low_controls (word_of_int 0x21) (le_u64 bs) = 0"
    and del: "swar_has_del (le_u64 bs) = 0" by (simp_all add: or_eq_0_iff)
  with assms b have "33 \<le> uint b" using swar_low_sound [of bs 33 b] by simp
  moreover have "b \<noteq> 0x7f" using swar_del_sound assms(1) del b by blast
  ultimately show "target_byte allow b" by (simp add: target_byte_def word_less_def)
qed

lemma chunk_text_ok:
  assumes "length bs = 8" and "swar_low_controls 0x20 (le_u64 bs) = 0"
    and "swar_has_del (le_u64 bs) = 0"
  shows "list_all text_byte bs"
  unfolding list_all_iff
proof
  fix b
  assume b: "b \<in> set bs"
  with assms have "32 \<le> uint b" using swar_low_sound [of bs 32 b] by simp
  moreover have "b \<noteq> 0x7f" using swar_del_sound assms b by blast
  ultimately show "text_byte b" by (simp add: text_byte_def word_le_def)
qed

section \<open>The loops\<close>

text \<open>
  A fast loop stops at some point of the range and has only passed valid bytes; the slow loop
  then decides the rest exactly.
\<close>

definition passed :: "(byte \<Rightarrow> bool) \<Rightarrow> mem \<Rightarrow> nat \<Rightarrow> nat \<Rightarrow> nat \<Rightarrow> bool" where
  "passed P mem p q e \<longleftrightarrow> p \<le> q \<and> q \<le> e \<and> list_all P (span mem p (q - p))"

lemma passed_refl: "p \<le> e \<Longrightarrow> passed P mem p p e"
  by (simp add: passed_def)

lemma passed_step:
  assumes "list_all P (span mem p k)" and "passed P mem (p + k) q e"
  shows "passed P mem p q e"
proof -
  from assms(2) have n: "q - p = k + (q - (p + k))" by (simp add: passed_def)
  have "span mem p (q - p) = span mem p k @ span mem (p + k) (q - (p + k))"
    by (subst n) (rule span_append)
  with assms show ?thesis by (auto simp: passed_def)
qed

lemma passed_rest:
  "passed P mem p q e \<Longrightarrow>
     list_all P (span mem p (e - p)) \<longleftrightarrow> list_all P (span mem q (e - q))"
proof -
  assume a: "passed P mem p q e"
  then have n: "e - p = (q - p) + (e - q)" and q: "p + (q - p) = q" by (auto simp: passed_def)
  have "span mem p (e - p) = span mem p (q - p) @ span mem (p + (q - p)) (e - q)"
    by (subst n) (rule span_append)
  then have "span mem p (e - p) = span mem p (q - p) @ span mem q (e - q)" by (simp only: q)
  with a show ?thesis by (simp add: passed_def)
qed

lemma request_target_fast_passed:
  "p \<le> e \<Longrightarrow> e \<le> length mem \<Longrightarrow>
     \<exists>q. request_target_fast mem p e = Some q \<and> passed (target_byte allow) mem p q e"
proof (induction "e - p" arbitrary: p rule: less_induct)
  case less
  show ?case
  proof (cases "8 \<le> e - p")
    case True
    then have d: "e - (p + 8) < e - p" "p + 8 \<le> e" by simp_all
    let ?bs = "span mem p 8"
    from True less.prems have ld: "c_load_u64 mem p = Some (le_u64 ?bs)" by (simp add: c_load_u64_in)
    show ?thesis
    proof (cases "(swar_low_controls 0x21 (le_u64 ?bs) OR swar_has_del (le_u64 ?bs)) = 0")
      case ok: True
      from True less.prems have "length ?bs = 8" by simp
      with ok have "list_all (target_byte allow) ?bs"
        by (rule chunk_target_ok [rotated])
      moreover obtain q where "request_target_fast mem (p + 8) e = Some q"
        and "passed (target_byte allow) mem (p + 8) q e"
        using less.hyps [OF d less.prems(2)] by blast
      ultimately show ?thesis
        using True ld ok less.prems
        by (intro exI [of _ q], subst request_target_fast.simps) (auto intro: passed_step)
    next
      case False
      with True ld less.prems show ?thesis
        by (intro exI [of _ p], subst request_target_fast.simps) (auto intro: passed_refl)
    qed
  next
    case False
    with less.prems show ?thesis
      by (intro exI [of _ p], subst request_target_fast.simps) (auto intro: passed_refl)
  qed
qed

lemma request_target_slow_spec:
  "p \<le> e \<Longrightarrow> e \<le> length mem \<Longrightarrow>
     request_target_slow mem p e allow = Some (list_all (target_byte allow) (span mem p (e - p)))"
proof (induction "e - p" arbitrary: p)
  case 0
  then show ?case by (subst request_target_slow.simps) simp
next
  case (Suc k)
  then have p: "p < e" "e - p = Suc (e - Suc p)" by auto
  with Suc.hyps(1) [of "Suc p"] Suc.hyps(2) Suc.prems show ?case
    by (subst request_target_slow.simps)
      (auto simp: rd_in all_span_Suc target_byte_def linorder_not_less)
qed

lemma request_target_is_valid_in [leaf_specs]:
  assumes "p + n \<le> length mem"
  shows "request_target_is_valid mem p n allow = Some (list_all (target_byte allow) (span mem p n))"
proof -
  obtain q where q: "(if \<not> allow then request_target_fast mem p (p + n) else Some p) = Some q"
    and ps: "passed (target_byte allow) mem p q (p + n)"
    using request_target_fast_passed [of p "p + n" mem allow] passed_refl [of p "p + n"] assms
    by (cases allow) auto
  from ps have "q \<le> p + n" by (simp add: passed_def)
  with q assms passed_rest [OF ps] show ?thesis
    by (simp add: request_target_is_valid_def request_target_slow_spec)
qed

lemma field_text_fast_passed:
  "p \<le> e \<Longrightarrow> e \<le> length mem \<Longrightarrow>
     \<exists>q. field_text_fast mem p e = Some q \<and> passed text_byte mem p q e"
proof (induction "e - p" arbitrary: p rule: less_induct)
  case less
  show ?case
  proof (cases "8 \<le> e - p")
    case True
    then have d: "e - (p + 8) < e - p" "p + 8 \<le> e" by simp_all
    let ?bs = "span mem p 8"
    from True less.prems have ld: "c_load_u64 mem p = Some (le_u64 ?bs)" by (simp add: c_load_u64_in)
    show ?thesis
    proof (cases "(swar_low_controls 0x20 (le_u64 ?bs) OR swar_has_del (le_u64 ?bs)) = 0")
      case ok: True
      from True less.prems have "length ?bs = 8" by simp
      with ok have "list_all text_byte ?bs"
        unfolding or_eq_0_iff by (blast intro: chunk_text_ok)
      moreover obtain q where "field_text_fast mem (p + 8) e = Some q"
        and "passed text_byte mem (p + 8) q e"
        using less.hyps [OF d less.prems(2)] by blast
      ultimately show ?thesis
        using True ld ok less.prems
        by (intro exI [of _ q], subst field_text_fast.simps) (auto intro: passed_step)
    next
      case False
      with True ld less.prems show ?thesis
        by (intro exI [of _ p], subst field_text_fast.simps) (auto intro: passed_refl)
    qed
  next
    case False
    with less.prems show ?thesis
      by (intro exI [of _ p], subst field_text_fast.simps) (auto intro: passed_refl)
  qed
qed

lemma field_text_fast2_passed:
  "p \<le> e \<Longrightarrow> e \<le> length mem \<Longrightarrow>
     \<exists>q. field_text_fast2 mem p e = Some q \<and> passed text_byte mem p q e"
proof (induction "e - p" arbitrary: p rule: less_induct)
  case less
  show ?case
  proof (cases "32 \<le> e - p")
    case True
    then have d: "e - (p + 16) < e - p" "p + 16 \<le> e" by simp_all
    let ?a = "span mem p 8" and ?b = "span mem (p + 8) 8"
    from True less.prems have ld: "c_load_u64 mem p = Some (le_u64 ?a)"
      "c_load_u64 mem (p + 8) = Some (le_u64 ?b)" by (simp_all add: c_load_u64_in)
    show ?thesis
    proof (cases "(swar_low_controls 0x20 (le_u64 ?a) OR swar_has_del (le_u64 ?a)
        OR swar_low_controls 0x20 (le_u64 ?b) OR swar_has_del (le_u64 ?b)) = 0")
      case ok: True
      from True less.prems have "length ?a = 8" "length ?b = 8" by simp_all
      with ok have "list_all text_byte ?a" "list_all text_byte ?b"
        unfolding or_eq_0_iff by (blast intro: chunk_text_ok)+
      moreover have "span mem p 16 = ?a @ ?b" using span_append [of mem p 8 8] by simp
      ultimately have "list_all text_byte (span mem p 16)" by simp
      moreover obtain q where "field_text_fast2 mem (p + 16) e = Some q"
        and "passed text_byte mem (p + 16) q e"
        using less.hyps [OF d less.prems(2)] by blast
      ultimately show ?thesis
        using True ld ok less.prems
        by (intro exI [of _ q], subst field_text_fast2.simps) (auto intro: passed_step)
    next
      case False
      with True ld less.prems show ?thesis
        by (intro exI [of _ p], subst field_text_fast2.simps) (auto intro: passed_refl)
    qed
  next
    case False
    with less.prems show ?thesis
      by (intro exI [of _ p], subst field_text_fast2.simps) (auto intro: passed_refl)
  qed
qed

lemma field_text_slow_spec:
  "p \<le> e \<Longrightarrow> e \<le> length mem \<Longrightarrow>
     field_text_slow mem p e = Some (list_all text_byte (span mem p (e - p)))"
proof (induction "e - p" arbitrary: p)
  case 0
  then show ?case by (subst field_text_slow.simps) simp
next
  case (Suc k)
  then have p: "p < e" "e - p = Suc (e - Suc p)" by auto
  with Suc.hyps(1) [of "Suc p"] Suc.hyps(2) Suc.prems show ?case
    by (subst field_text_slow.simps)
      (auto simp: rd_in all_span_Suc text_byte_def linorder_not_le)
qed

lemma field_text_is_valid_in [leaf_specs]:
  assumes "p + n \<le> length mem"
  shows "field_text_is_valid mem p n = Some (list_all text_byte (span mem p n))"
proof -
  let ?e = "p + n"
  obtain q where q: "field_text_fast2 mem p ?e = Some q" and ps: "passed text_byte mem p q ?e"
    using field_text_fast2_passed [of p ?e mem] assms by auto
  then have "q \<le> ?e" by (simp add: passed_def)
  then obtain r where r: "field_text_fast mem q ?e = Some r" and pr: "passed text_byte mem q r ?e"
    using field_text_fast_passed [of q ?e mem] assms by auto
  from pr have "r \<le> ?e" by (simp add: passed_def)
  with q r assms passed_rest [OF ps] passed_rest [OF pr] show ?thesis
    by (simp add: field_text_is_valid_def field_text_slow_spec)
qed

section \<open>Frame\<close>

lemma ub_le_request_target_fast [ub_mono]:
  "ub_le (request_target_fast mem p e) (request_target_fast (mem @ ys) p e)"
proof (induction mem p e rule: request_target_fast.induct)
  case (1 mem p e)
  show ?case
    unfolding request_target_fast.simps [of mem p e] request_target_fast.simps [of "mem @ ys" p e]
    by (intro ub_mono "1.IH"; assumption)
qed

lemma ub_le_request_target_slow [ub_mono]:
  "ub_le (request_target_slow mem p e allow) (request_target_slow (mem @ ys) p e allow)"
proof (induction mem p e allow rule: request_target_slow.induct)
  case (1 mem p e allow)
  show ?case
    unfolding request_target_slow.simps [of mem p e allow]
      request_target_slow.simps [of "mem @ ys" p e allow]
    by (intro ub_mono "1.IH"; assumption)
qed

lemma ub_le_request_target_is_valid [ub_mono]:
  "ub_le (request_target_is_valid mem p n allow) (request_target_is_valid (mem @ ys) p n allow)"
  unfolding request_target_is_valid_def by (intro ub_mono)

lemma ub_le_field_text_fast2 [ub_mono]:
  "ub_le (field_text_fast2 mem p e) (field_text_fast2 (mem @ ys) p e)"
proof (induction mem p e rule: field_text_fast2.induct)
  case (1 mem p e)
  show ?case
    unfolding field_text_fast2.simps [of mem p e] field_text_fast2.simps [of "mem @ ys" p e]
    by (intro ub_mono "1.IH"; assumption)
qed

lemma ub_le_field_text_fast [ub_mono]:
  "ub_le (field_text_fast mem p e) (field_text_fast (mem @ ys) p e)"
proof (induction mem p e rule: field_text_fast.induct)
  case (1 mem p e)
  show ?case
    unfolding field_text_fast.simps [of mem p e] field_text_fast.simps [of "mem @ ys" p e]
    by (intro ub_mono "1.IH"; assumption)
qed

lemma ub_le_field_text_slow [ub_mono]:
  "ub_le (field_text_slow mem p e) (field_text_slow (mem @ ys) p e)"
proof (induction mem p e rule: field_text_slow.induct)
  case (1 mem p e)
  show ?case
    unfolding field_text_slow.simps [of mem p e] field_text_slow.simps [of "mem @ ys" p e]
    by (intro ub_mono "1.IH"; assumption)
qed

lemma ub_le_field_text_is_valid [ub_mono]:
  "ub_le (field_text_is_valid mem p n) (field_text_is_valid (mem @ ys) p n)"
  unfolding field_text_is_valid_def by (intro ub_mono)

end
