(* ===== verification/Ihtp_Lines.thy ===== *)
theory Ihtp_Lines
  imports Ihtp_Text
begin

text \<open>
  The line-level helpers of src/ihtp_parser.c: the line ending, the token before a delimiter
  (header name before the colon, method before the space), the last space of a request line,
  the trimming and validation of a field value, and the method table.  Each is evaluated,
  inside its bounds, to a definition on the bytes it looks at (\<open>leaf_specs\<close>), and those
  definitions are characterised as grammar rules.
\<close>

section \<open>Definitions of the code\<close>

definition find_line_end ::
    "mem \<Rightarrow> nat \<Rightarrow> nat \<Rightarrow> ihtp_policy_t option \<Rightarrow> (ihtp_status_t + nat \<times> nat) ub" where
  "find_line_end mem buf len policy =
     do { lf \<leftarrow> c_memchr mem buf LF len;
          case lf of
            None \<Rightarrow> Some (Inl IHTP_INCOMPLETE)
          | Some lf \<Rightarrow>
              do { after_cr \<leftarrow> (if lf > buf then do { b \<leftarrow> rd mem (lf - 1); Some (b = CR) }
                               else Some False);
                   if after_cr then Some (Inr (lf - 1, 2))
                   else if policy_flag reject_bare_lf policy then Some (Inl IHTP_ERROR)
                   else Some (Inr (lf, 1)) } }"

function header_name_loop :: "mem \<Rightarrow> nat \<Rightarrow> nat \<Rightarrow> nat \<Rightarrow> bool ub" where
  "header_name_loop mem buf colon_offset i =
     (if i < colon_offset then
        do { c \<leftarrow> rd mem (buf + i);
             if \<not> ihtp_is_token_char c then Some False
             else header_name_loop mem buf colon_offset (Suc i) }
      else Some True)"
  by pat_completeness auto
termination
  by (relation "measure (\<lambda>(mem, buf, colon_offset, i). colon_offset - i)") auto

definition find_header_name_colon :: "mem \<Rightarrow> nat \<Rightarrow> nat \<Rightarrow> nat option ub" where
  "find_header_name_colon mem buf len =
     do { colon \<leftarrow> c_memchr mem buf COLON len;
          case colon of
            None \<Rightarrow> Some None
          | Some colon \<Rightarrow>
              (let colon_offset = size_sub colon buf in
               if colon_offset = 0 then Some None
               else do { ok \<leftarrow> header_name_loop mem buf colon_offset 0;
                         Some (if ok then Some colon_offset else None) }) }"

function method_space_loop :: "mem \<Rightarrow> nat \<Rightarrow> nat \<Rightarrow> nat \<Rightarrow> nat option ub" where
  "method_space_loop mem buf len i =
     (if i < len then
        do { c \<leftarrow> rd mem (buf + i);
             if c = SP then (if i = 0 then Some None else Some (Some i))
             else if \<not> ihtp_is_token_char c then Some None
             else method_space_loop mem buf len (Suc i) }
      else Some None)"
  by pat_completeness auto
termination
  by (relation "measure (\<lambda>(mem, buf, len, i). len - i)") auto

definition find_method_space :: "mem \<Rightarrow> nat \<Rightarrow> nat \<Rightarrow> nat option ub" where
  "find_method_space mem buf len = method_space_loop mem buf len 0"

definition find_last_char_offset :: "mem \<Rightarrow> nat \<Rightarrow> nat \<Rightarrow> byte \<Rightarrow> nat option ub" where
  "find_last_char_offset mem buf len ch =
     do { pos \<leftarrow> c_memrchr mem buf ch len;
          Some (case pos of None \<Rightarrow> None | Some pos \<Rightarrow> Some (size_sub pos buf)) }"

function trim_first :: "mem \<Rightarrow> nat \<Rightarrow> nat \<Rightarrow> nat \<Rightarrow> nat ub" where
  "trim_first mem buf len first =
     (if first < len then
        do { c \<leftarrow> rd mem (buf + first);
             if ihtp_is_lws c then trim_first mem buf len (Suc first) else Some first }
      else Some first)"
  by pat_completeness auto
termination
  by (relation "measure (\<lambda>(mem, buf, len, first). len - first)") auto

function trim_last :: "mem \<Rightarrow> nat \<Rightarrow> nat \<Rightarrow> nat \<Rightarrow> nat ub" where
  "trim_last mem buf first lst =
     (if first < lst then
        do { c \<leftarrow> rd mem (buf + (lst - 1));
             if ihtp_is_lws c then trim_last mem buf first (lst - 1) else Some lst }
      else Some lst)"
  by pat_completeness auto
termination
  by (relation "measure (\<lambda>(mem, buf, first, lst). lst)") auto

declare header_name_loop.simps [simp del] method_space_loop.simps [simp del]
  trim_first.simps [simp del] trim_last.simps [simp del]

text \<open>Returns the verdict, \<open>*trimmed_start\<close> and \<open>*trimmed_len\<close>.\<close>

definition trim_and_validate_field_value :: "mem \<Rightarrow> nat \<Rightarrow> nat \<Rightarrow> (bool \<times> nat \<times> nat) ub" where
  "trim_and_validate_field_value mem buf len =
     do { first \<leftarrow> trim_first mem buf len 0;
          lst \<leftarrow> trim_last mem buf first len;
          if first = len then Some (True, buf + len, 0)
          else do { ok \<leftarrow> field_text_is_valid mem (buf + first) (size_sub lst first);
                    Some (ok, buf + first, size_sub lst first) } }"

definition ihtp_method_from_str :: "mem \<Rightarrow> nat \<Rightarrow> nat \<Rightarrow> ihtp_method_t ub" where
  "ihtp_method_from_str mem method method_len =
     (if method_len = 3 then
        do { eq \<leftarrow> c_memeq mem method (ascii ''GET'');
             if eq then Some IHTP_METHOD_GET
             else do { eq \<leftarrow> c_memeq mem method (ascii ''PUT'');
                       if eq then Some IHTP_METHOD_PUT else Some IHTP_METHOD_UNKNOWN } }
      else if method_len = 4 then
        do { eq \<leftarrow> c_memeq mem method (ascii ''POST'');
             if eq then Some IHTP_METHOD_POST
             else do { eq \<leftarrow> c_memeq mem method (ascii ''HEAD'');
                       if eq then Some IHTP_METHOD_HEAD else Some IHTP_METHOD_UNKNOWN } }
      else if method_len = 5 then
        do { eq \<leftarrow> c_memeq mem method (ascii ''PATCH'');
             if eq then Some IHTP_METHOD_PATCH
             else do { eq \<leftarrow> c_memeq mem method (ascii ''TRACE'');
                       if eq then Some IHTP_METHOD_TRACE else Some IHTP_METHOD_UNKNOWN } }
      else if method_len = 6 then
        do { eq \<leftarrow> c_memeq mem method (ascii ''DELETE'');
             if eq then Some IHTP_METHOD_DELETE else Some IHTP_METHOD_UNKNOWN }
      else if method_len = 7 then
        do { eq \<leftarrow> c_memeq mem method (ascii ''OPTIONS'');
             if eq then Some IHTP_METHOD_OPTIONS
             else do { eq \<leftarrow> c_memeq mem method (ascii ''CONNECT'');
                       if eq then Some IHTP_METHOD_CONNECT else Some IHTP_METHOD_UNKNOWN } }
      else Some IHTP_METHOD_UNKNOWN)"

fun ihtp_method_to_str :: "ihtp_method_t \<Rightarrow> string" where
  "ihtp_method_to_str IHTP_METHOD_GET = ''GET''"
| "ihtp_method_to_str IHTP_METHOD_POST = ''POST''"
| "ihtp_method_to_str IHTP_METHOD_PUT = ''PUT''"
| "ihtp_method_to_str IHTP_METHOD_DELETE = ''DELETE''"
| "ihtp_method_to_str IHTP_METHOD_HEAD = ''HEAD''"
| "ihtp_method_to_str IHTP_METHOD_OPTIONS = ''OPTIONS''"
| "ihtp_method_to_str IHTP_METHOD_PATCH = ''PATCH''"
| "ihtp_method_to_str IHTP_METHOD_CONNECT = ''CONNECT''"
| "ihtp_method_to_str IHTP_METHOD_TRACE = ''TRACE''"
| "ihtp_method_to_str IHTP_METHOD_UNKNOWN = ''UNKNOWN''"

section \<open>Reference definitions on bytes\<close>

text \<open>Where a line ends: its length without the terminator, and the terminator's length.\<close>

definition line_end_ref :: "ihtp_policy_t option \<Rightarrow> byte list \<Rightarrow> ihtp_status_t + nat \<times> nat" where
  "line_end_ref policy s =
     (case index_of (\<lambda>b. b = LF) s of
        None \<Rightarrow> Inl IHTP_INCOMPLETE
      | Some i \<Rightarrow>
          if 0 < i \<and> s ! (i - 1) = CR then Inr (i - 1, 2)
          else if policy_flag reject_bare_lf policy then Inl IHTP_ERROR
          else Inr (i, 1))"

text \<open>The length of the nonempty token in front of the delimiter \<open>d\<close>.\<close>

definition token_before :: "byte \<Rightarrow> byte list \<Rightarrow> nat option" where
  "token_before d s =
     (case index_of (\<lambda>b. \<not> tchar b) s of
        Some i \<Rightarrow> if i \<noteq> 0 \<and> s ! i = d then Some i else None
      | None \<Rightarrow> None)"

definition ltrim :: "byte list \<Rightarrow> byte list" where
  "ltrim s = dropWhile ihtp_is_lws s"

definition rtrim :: "byte list \<Rightarrow> byte list" where
  "rtrim s = rev (dropWhile ihtp_is_lws (rev s))"

definition trim_ows :: "byte list \<Rightarrow> byte list" where
  "trim_ows s = rtrim (ltrim s)"

definition lws_prefix :: "byte list \<Rightarrow> nat" where
  "lws_prefix s = length (takeWhile ihtp_is_lws s)"

definition method_of_bytes :: "byte list \<Rightarrow> ihtp_method_t" where
  "method_of_bytes s =
     (case find (\<lambda>m. ascii (ihtp_method_to_str m) = s)
        [IHTP_METHOD_GET, IHTP_METHOD_POST, IHTP_METHOD_PUT, IHTP_METHOD_DELETE, IHTP_METHOD_HEAD,
         IHTP_METHOD_OPTIONS, IHTP_METHOD_PATCH, IHTP_METHOD_CONNECT, IHTP_METHOD_TRACE] of
        Some m \<Rightarrow> m | None \<Rightarrow> IHTP_METHOD_UNKNOWN)"

lemma rtrim_Nil [simp]: "rtrim [] = []"
  by (simp add: rtrim_def)

lemma rtrim_snoc: "rtrim (xs @ [x]) = (if ihtp_is_lws x then rtrim xs else xs @ [x])"
  by (simp add: rtrim_def)

lemma rtrim_prefix: "\<exists>ws. xs = rtrim xs @ ws \<and> list_all ihtp_is_lws ws"
proof (induction xs rule: rev_induct)
  case (snoc x xs)
  then obtain ws where "xs = rtrim xs @ ws" "list_all ihtp_is_lws ws" by blast
  then show ?case
    by (cases "ihtp_is_lws x") (auto simp: rtrim_snoc intro: exI [of _ "ws @ [x]"])
qed simp

lemma length_rtrim_le: "length (rtrim xs) \<le> length xs"
  using rtrim_prefix [of xs] by (metis le_add1 length_append)

lemma rtrim_take: "rtrim xs = take (length (rtrim xs)) xs"
  using rtrim_prefix [of xs] by (metis append_eq_conv_conj)

lemma ltrim_drop: "ltrim s = drop (lws_prefix s) s"
  by (simp add: ltrim_def lws_prefix_def dropWhile_eq_drop)

lemma lws_prefix_le: "lws_prefix s \<le> length s"
  by (simp add: lws_prefix_def length_takeWhile_le)

lemma trim_ows_decomp:
  "\<exists>u v. s = u @ trim_ows s @ v \<and> length u = lws_prefix s
     \<and> list_all ihtp_is_lws u \<and> list_all ihtp_is_lws v"
proof -
  obtain v where "ltrim s = trim_ows s @ v" "list_all ihtp_is_lws v"
    using rtrim_prefix [of "ltrim s"] unfolding trim_ows_def by auto
  moreover have "s = takeWhile ihtp_is_lws s @ ltrim s" by (simp add: ltrim_def)
  moreover have "list_all ihtp_is_lws (takeWhile ihtp_is_lws s)"
    by (auto simp: list_all_iff dest: set_takeWhileD)
  ultimately show ?thesis unfolding lws_prefix_def by metis
qed

lemma trim_ows_bounds: "lws_prefix s + length (trim_ows s) \<le> length s"
proof -
  obtain u v where "s = u @ trim_ows s @ v" "length u = lws_prefix s"
    using trim_ows_decomp by blast
  then have "length s = lws_prefix s + length (trim_ows s) + length v"
    by (metis add.assoc length_append)
  then show ?thesis by simp
qed

section \<open>Evaluation inside the bounds\<close>

lemma find_line_end_in [leaf_specs]:
  assumes "p + n \<le> length mem"
  shows "find_line_end mem p n policy =
           Some (map_sum id (map_prod ((+) p) id) (line_end_ref policy (span mem p n)))"
proof (cases "index_of (\<lambda>b. b = LF) (span mem p n)")
  case None
  with assms show ?thesis by (simp add: find_line_end_def line_end_ref_def c_memchr_in)
next
  case (Some i)
  then have i: "i < n" "p + i < length mem" by (auto simp: index_of_Some_iff)
  have r: "0 < i \<Longrightarrow> rd mem (p + i - 1) = Some (span mem p n ! (i - 1))"
    using i by (simp add: rd_in)
  show ?thesis
    using Some assms r by (auto simp: find_line_end_def line_end_ref_def c_memchr_in)
qed

lemma header_name_loop_spec:
  "i \<le> len \<Longrightarrow> buf + len \<le> length mem \<Longrightarrow>
     header_name_loop mem buf len i = Some (list_all tchar (span mem (buf + i) (len - i)))"
proof (induction "len - i" arbitrary: i)
  case 0
  then show ?case by (subst header_name_loop.simps) simp
next
  case (Suc k)
  then have i: "i < len" "len - i = Suc (len - Suc i)" by auto
  with Suc.hyps(1) [of "Suc i"] Suc.hyps(2) Suc.prems show ?case
    by (subst header_name_loop.simps) (simp add: rd_in all_span_Suc)
qed

lemma token_before_colon:
  "token_before COLON s =
     (case index_of (\<lambda>b. b = COLON) s of
        None \<Rightarrow> None
      | Some i \<Rightarrow> if i \<noteq> 0 \<and> list_all tchar (take i s) then Some i else None)"
proof (cases "token_before COLON s")
  case (Some i)
  then have i: "i < length s" "s ! i = COLON" "i \<noteq> 0" "\<forall>j<i. tchar (s ! j)"
    by (auto simp: token_before_def index_of_Some_iff split: option.splits if_splits)
  then have "index_of (\<lambda>b. b = COLON) s = Some i"
    using tchar_not_special by (auto simp: index_of_Some_iff)
  moreover have "list_all tchar (take i s)" using i by (auto simp: list_all_length)
  ultimately show ?thesis using Some i by simp
next
  case None
  show ?thesis
  proof (cases "index_of (\<lambda>b. b = COLON) s")
    case (Some i)
    then have i: "i < length s" "s ! i = COLON" by (auto simp: index_of_Some_iff)
    have "\<not> (i \<noteq> 0 \<and> list_all tchar (take i s))"
    proof
      assume a: "i \<noteq> 0 \<and> list_all tchar (take i s)"
      with i have "index_of (\<lambda>b. \<not> tchar b) s = Some i"
        using tchar_not_special by (auto simp: index_of_Some_iff list_all_length)
      with None a i show False by (simp add: token_before_def)
    qed
    with Some None show ?thesis by simp
  qed (simp add: None)
qed

lemma find_header_name_colon_in [leaf_specs]:
  assumes "p + n \<le> length mem"
  shows "find_header_name_colon mem p n = Some (token_before COLON (span mem p n))"
proof (cases "index_of (\<lambda>b. b = COLON) (span mem p n)")
  case None
  with assms show ?thesis by (simp add: find_header_name_colon_def token_before_colon c_memchr_in)
next
  case (Some i)
  then have i: "i < n" "p + i < length mem" by (auto simp: index_of_Some_iff)
  with Some assms show ?thesis
    by (simp add: find_header_name_colon_def token_before_colon c_memchr_in
        header_name_loop_spec take_span Let_def min_def)
qed

lemma method_space_loop_spec:
  "i \<le> len \<Longrightarrow> buf + len \<le> length mem \<Longrightarrow>
     method_space_loop mem buf len i =
       Some (case index_of (\<lambda>b. \<not> tchar b) (span mem (buf + i) (len - i)) of
               Some k \<Rightarrow> if i + k \<noteq> 0 \<and> mem ! (buf + i + k) = SP then Some (i + k) else None
             | None \<Rightarrow> None)"
proof (induction "len - i" arbitrary: i)
  case 0
  then show ?case by (subst method_space_loop.simps) simp
next
  case (Suc k)
  then have i: "i < len" "len - i = Suc (len - Suc i)" by auto
  have sp: "\<not> tchar SP" using tchar_not_special by blast
  from Suc.hyps(1) [of "Suc i"] Suc.hyps(2) Suc.prems i sp show ?case
    by (subst method_space_loop.simps) (auto simp: rd_in span_Suc split: option.splits)
qed

lemma find_method_space_in [leaf_specs]:
  "p + n \<le> length mem \<Longrightarrow> find_method_space mem p n = Some (token_before SP (span mem p n))"
proof (cases "index_of (\<lambda>b. \<not> tchar b) (span mem p n)")
  case (Some i)
  assume "p + n \<le> length mem"
  with Some have "i < n" "span mem p n ! i = mem ! (p + i)" by (auto simp: index_of_Some_iff)
  with Some \<open>p + n \<le> length mem\<close> show ?thesis
    by (simp add: find_method_space_def method_space_loop_spec token_before_def)
qed (simp add: find_method_space_def method_space_loop_spec token_before_def)

lemma find_last_char_offset_in [leaf_specs]:
  "p + n \<le> length mem \<Longrightarrow>
     find_last_char_offset mem p n c = Some (last_index (\<lambda>b. b = c) (span mem p n))"
  by (cases "last_index (\<lambda>b. b = c) (span mem p n)") (simp_all add: find_last_char_offset_def c_memrchr_in)

lemma trim_first_spec:
  "first \<le> len \<Longrightarrow> buf + len \<le> length mem \<Longrightarrow>
     trim_first mem buf len first = Some (first + lws_prefix (span mem (buf + first) (len - first)))"
proof (induction "len - first" arbitrary: first)
  case 0
  then show ?case by (subst trim_first.simps) (simp add: lws_prefix_def)
next
  case (Suc k)
  then have i: "first < len" "len - first = Suc (len - Suc first)" by auto
  with Suc.hyps(1) [of "Suc first"] Suc.hyps(2) Suc.prems show ?case
    by (subst trim_first.simps) (simp add: rd_in span_Suc lws_prefix_def)
qed

lemma trim_last_spec:
  "first \<le> lst \<Longrightarrow> buf + lst \<le> length mem \<Longrightarrow>
     trim_last mem buf first lst = Some (first + length (rtrim (span mem (buf + first) (lst - first))))"
proof (induction "lst - first" arbitrary: lst)
  case 0
  then show ?case by (subst trim_last.simps) simp
next
  case (Suc k)
  then have l: "first < lst" "lst - first = Suc (lst - 1 - first)"
    "buf + first + (lst - 1 - first) = buf + (lst - 1)" by auto
  have sp: "span mem (buf + first) (lst - first) =
      span mem (buf + first) (lst - 1 - first) @ [mem ! (buf + (lst - 1))]"
    unfolding l(2) using l Suc.prems by (subst span_snoc) simp_all
  have "k = lst - 1 - first" using Suc.hyps(2) l by simp
  with Suc.hyps(1) [of "lst - 1"] Suc.prems l sp show ?case
    by (subst trim_last.simps) (auto simp: rd_in rtrim_snoc)
qed

lemma trim_and_validate_in [leaf_specs]:
  assumes "p + n \<le> length mem"
  shows "trim_and_validate_field_value mem p n =
           Some (list_all text_byte (trim_ows (span mem p n)),
                 p + lws_prefix (span mem p n), length (trim_ows (span mem p n)))"
proof -
  let ?s = "span mem p n"
  let ?f = "lws_prefix ?s"
  have f: "?f \<le> n" using lws_prefix_le [of ?s] assms by simp
  have lt: "span mem (p + ?f) (n - ?f) = ltrim ?s" by (simp add: ltrim_drop drop_span)
  have l: "length (trim_ows ?s) \<le> n - ?f"
    using length_rtrim_le [of "ltrim ?s"] assms f by (simp add: trim_ows_def ltrim_drop)
  have rt: "span mem (p + ?f) (length (trim_ows ?s)) = trim_ows ?s"
    using l lt rtrim_take [of "ltrim ?s"] unfolding trim_ows_def
    by (metis min.absorb1 take_span)
  have tl: "trim_last mem p ?f n = Some (?f + length (trim_ows ?s))"
    using f assms lt by (simp add: trim_last_spec trim_ows_def)
  show ?thesis
  proof (cases "?f = n")
    case True
    with l have "trim_ows ?s = []" by simp
    with True tl assms show ?thesis
      by (simp add: trim_and_validate_field_value_def trim_first_spec)
  next
    case False
    with tl f l rt assms show ?thesis
      by (simp add: trim_and_validate_field_value_def trim_first_spec field_text_is_valid_in)
  qed
qed

section \<open>The method table\<close>

lemma length_ascii [simp]: "length (ascii s) = length s"
  by (simp add: ascii_def)

lemma method_of_bytes_chain:
  "method_of_bytes s =
     (if ascii ''GET'' = s then IHTP_METHOD_GET
      else if ascii ''POST'' = s then IHTP_METHOD_POST
      else if ascii ''PUT'' = s then IHTP_METHOD_PUT
      else if ascii ''DELETE'' = s then IHTP_METHOD_DELETE
      else if ascii ''HEAD'' = s then IHTP_METHOD_HEAD
      else if ascii ''OPTIONS'' = s then IHTP_METHOD_OPTIONS
      else if ascii ''PATCH'' = s then IHTP_METHOD_PATCH
      else if ascii ''CONNECT'' = s then IHTP_METHOD_CONNECT
      else if ascii ''TRACE'' = s then IHTP_METHOD_TRACE
      else IHTP_METHOD_UNKNOWN)"
  unfolding method_of_bytes_def
  by (simp only: find.simps if_distrib [of "\<lambda>m. case m of Some m \<Rightarrow> m | None \<Rightarrow> IHTP_METHOD_UNKNOWN"]
      option.case ihtp_method_to_str.simps)

lemma method_from_str_in [leaf_specs]:
  assumes "p + n \<le> length mem"
  shows "ihtp_method_from_str mem p n = Some (method_of_bytes (span mem p n))"
proof -
  define s where "s = span mem p n"
  have len: "length s = n" using assms by (simp add: s_def)
  have eq: "c_memeq mem p (ascii u) = Some (ascii u = s)" if "length u = n" for u
    using assms that len by (auto simp: c_memeq_in s_def)
  have ne: "ascii u = s \<longleftrightarrow> False" if "length u \<noteq> n" for u
    using len that by auto
  note lens = ne [of "''GET''"] ne [of "''PUT''"] ne [of "''POST''"] ne [of "''HEAD''"]
    ne [of "''PATCH''"] ne [of "''TRACE''"] ne [of "''DELETE''"] ne [of "''OPTIONS''"]
    ne [of "''CONNECT''"]
  note lens = lens [simplified]
  note eqs = eq [of "''GET''"] eq [of "''PUT''"] eq [of "''POST''"] eq [of "''HEAD''"]
    eq [of "''PATCH''"] eq [of "''TRACE''"] eq [of "''DELETE''"] eq [of "''OPTIONS''"]
    eq [of "''CONNECT''"]
  note eqs = eqs [simplified]
  consider "n = 3" | "n = 4" | "n = 5" | "n = 6" | "n = 7" | "n \<notin> {3, 4, 5, 6, 7}" by blast
  then have "ihtp_method_from_str mem p n = Some (method_of_bytes s)"
  proof cases
    case 1
    with lens eqs show ?thesis
      unfolding ihtp_method_from_str_def method_of_bytes_chain by simp
  next
    case 2
    with lens eqs show ?thesis
      unfolding ihtp_method_from_str_def method_of_bytes_chain by simp
  next
    case 3
    with lens eqs show ?thesis
      unfolding ihtp_method_from_str_def method_of_bytes_chain by simp
  next
    case 4
    with lens eqs show ?thesis
      unfolding ihtp_method_from_str_def method_of_bytes_chain by simp
  next
    case 5
    with lens eqs show ?thesis
      unfolding ihtp_method_from_str_def method_of_bytes_chain by simp
  next
    case 6
    with lens show ?thesis
      unfolding ihtp_method_from_str_def method_of_bytes_chain by simp
  qed
  then show ?thesis by (simp add: s_def)
qed

lemma method_of_to_str [simp]: "method_of_bytes (ascii (ihtp_method_to_str m)) = m"
  by (cases m) (simp_all add: method_of_bytes_def ascii_def)

lemma method_of_bytes_iff:
  "m \<noteq> IHTP_METHOD_UNKNOWN \<Longrightarrow> method_of_bytes s = m \<longleftrightarrow> s = ascii (ihtp_method_to_str m)"
proof
  assume m: "m \<noteq> IHTP_METHOD_UNKNOWN" and "method_of_bytes s = m"
  then have "find (\<lambda>m. ascii (ihtp_method_to_str m) = s)
        [IHTP_METHOD_GET, IHTP_METHOD_POST, IHTP_METHOD_PUT, IHTP_METHOD_DELETE, IHTP_METHOD_HEAD,
         IHTP_METHOD_OPTIONS, IHTP_METHOD_PATCH, IHTP_METHOD_CONNECT, IHTP_METHOD_TRACE] = Some m"
    unfolding method_of_bytes_def by (metis option.case_eq_if option.collapse)
  then show "s = ascii (ihtp_method_to_str m)" by (simp only: find_Some_iff) blast
qed simp

section \<open>Grammar\<close>

lemma token_before_iff:
  assumes "\<not> tchar d"
  shows "token_before d s = Some i \<longleftrightarrow>
           (\<exists>t rest. s = t @ d # rest \<and> length t = i \<and> t \<noteq> [] \<and> list_all tchar t)"
proof
  assume "token_before d s = Some i"
  then have i: "index_of (\<lambda>b. \<not> tchar b) s = Some i" "i \<noteq> 0" "s ! i = d"
    by (auto simp: token_before_def split: option.splits if_splits)
  then obtain t x rest where "s = t @ x # rest" "i = length t" "\<forall>u\<in>set t. \<not> \<not> tchar u"
    unfolding index_of_split by blast
  with i show "\<exists>t rest. s = t @ d # rest \<and> length t = i \<and> t \<noteq> [] \<and> list_all tchar t"
    by (intro exI [of _ t] exI [of _ rest]) (auto simp: list_all_iff)
next
  assume "\<exists>t rest. s = t @ d # rest \<and> length t = i \<and> t \<noteq> [] \<and> list_all tchar t"
  then obtain t rest where t: "s = t @ d # rest" "length t = i" "t \<noteq> []" "list_all tchar t" by blast
  then have "index_of (\<lambda>b. \<not> tchar b) s = Some i"
    using assms by (auto simp: index_of_split list_all_iff)
  moreover have "s ! i = d" "i \<noteq> 0" using t by (auto simp: nth_append)
  ultimately show "token_before d s = Some i" by (simp add: token_before_def)
qed

text \<open>The bytes a line ending may consist of, and the lines it may follow.\<close>

definition eol_ok :: "ihtp_policy_t option \<Rightarrow> byte list \<Rightarrow> byte list \<Rightarrow> bool" where
  "eol_ok policy line eol \<longleftrightarrow>
     LF \<notin> set line \<and>
     (eol = [CR, LF] \<or>
      (eol = [LF] \<and> \<not> policy_flag reject_bare_lf policy \<and> (line = [] \<or> List.last line \<noteq> CR)))"

lemma line_end_ref_iff:
  "line_end_ref policy s = Inr (n, k) \<longleftrightarrow>
     (\<exists>line eol rest. s = line @ eol @ rest \<and> length line = n \<and> length eol = k \<and> eol_ok policy line eol)"
proof
  assume "line_end_ref policy s = Inr (n, k)"
  then obtain i where i: "index_of (\<lambda>b. b = LF) s = Some i"
    and r: "(if 0 < i \<and> s ! (i - 1) = CR then Inr (i - 1, 2)
             else if policy_flag reject_bare_lf policy then Inl IHTP_ERROR else Inr (i, 1)) = Inr (n, k)"
    by (auto simp: line_end_ref_def split: option.splits)
  from i obtain us vs where s: "s = us @ LF # vs" "i = length us" "\<forall>u\<in>set us. u \<noteq> LF"
    by (auto simp: index_of_split)
  show "\<exists>line eol rest. s = line @ eol @ rest \<and> length line = n \<and> length eol = k \<and> eol_ok policy line eol"
  proof (cases us rule: rev_cases)
    case Nil
    with r s show ?thesis
      by (intro exI [of _ "[]"] exI [of _ "[LF]"] exI [of _ vs])
        (auto simp: eol_ok_def split: if_splits)
  next
    case (snoc ws w)
    then have w: "s ! (i - 1) = w" using s by (simp add: nth_append)
    show ?thesis
    proof (cases "w = CR")
      case True
      with r s snoc w show ?thesis
        by (intro exI [of _ ws] exI [of _ "[CR, LF]"] exI [of _ vs])
          (auto simp: eol_ok_def split: if_splits)
    next
      case False
      with r s snoc w show ?thesis
        by (intro exI [of _ us] exI [of _ "[LF]"] exI [of _ vs])
          (auto simp: eol_ok_def split: if_splits)
    qed
  qed
next
  assume "\<exists>line eol rest. s = line @ eol @ rest \<and> length line = n \<and> length eol = k \<and> eol_ok policy line eol"
  then obtain line eol rest where s: "s = line @ eol @ rest" "length line = n" "length eol = k"
    and e: "eol_ok policy line eol" by blast
  from e have "LF \<notin> set line" by (simp add: eol_ok_def)
  then have none: "index_of (\<lambda>b. b = LF) line = None" by (auto simp: index_of_None_iff)
  from e consider "eol = [CR, LF]"
    | "eol = [LF]" "\<not> policy_flag reject_bare_lf policy" "line = [] \<or> List.last line \<noteq> CR"
    by (auto simp: eol_ok_def)
  then show "line_end_ref policy s = Inr (n, k)"
  proof cases
    case 1
    with s none show ?thesis by (auto simp: line_end_ref_def index_of_append nth_append)
  next
    case 2
    have i: "index_of (\<lambda>b. b = LF) s = Some (length line)"
      using s none 2 by (simp add: index_of_append)
    from 2 s have "s ! (length line - 1) \<noteq> CR" if "0 < length line"
      using that by (cases line rule: rev_cases) auto
    with 2 s show ?thesis unfolding line_end_ref_def i by auto
  qed
qed

lemma line_end_ref_bounds:
  assumes "line_end_ref policy s = Inr (n, k)"
  shows "n + k \<le> length s" and "0 < k"
proof -
  from assms obtain line eol rest
    where "s = line @ eol @ rest" "length line = n" "length eol = k" "eol_ok policy line eol"
    by (auto simp: line_end_ref_iff)
  then show "n + k \<le> length s" and "0 < k" by (auto simp: eol_ok_def)
qed

lemma line_end_ref_append:
  "line_end_ref policy s \<noteq> Inl IHTP_INCOMPLETE \<Longrightarrow> line_end_ref policy (s @ t) = line_end_ref policy s"
proof (cases "index_of (\<lambda>b. b = LF) s")
  case (Some i)
  then have "i < length s" "i - 1 < length s" by (auto simp: index_of_Some_iff)
  with Some show ?thesis by (simp add: line_end_ref_def index_of_append nth_append)
qed (simp add: line_end_ref_def)

section \<open>Frame\<close>

lemma ub_le_find_line_end [ub_mono]:
  "ub_le (find_line_end mem buf len policy) (find_line_end (mem @ ys) buf len policy)"
  unfolding find_line_end_def by (intro ub_mono)

lemma ub_le_header_name_loop [ub_mono]:
  "ub_le (header_name_loop mem buf n i) (header_name_loop (mem @ ys) buf n i)"
proof (induction mem buf n i rule: header_name_loop.induct)
  case (1 mem buf n i)
  show ?case
    unfolding header_name_loop.simps [of mem buf n i] header_name_loop.simps [of "mem @ ys" buf n i]
    by (intro ub_mono "1.IH"; assumption)
qed

lemma ub_le_find_header_name_colon [ub_mono]:
  "ub_le (find_header_name_colon mem buf len) (find_header_name_colon (mem @ ys) buf len)"
  unfolding find_header_name_colon_def by (intro ub_mono)

lemma ub_le_method_space_loop [ub_mono]:
  "ub_le (method_space_loop mem buf len i) (method_space_loop (mem @ ys) buf len i)"
proof (induction mem buf len i rule: method_space_loop.induct)
  case (1 mem buf len i)
  show ?case
    unfolding method_space_loop.simps [of mem buf len i] method_space_loop.simps [of "mem @ ys" buf len i]
    by (intro ub_mono "1.IH"; assumption)
qed

lemma ub_le_find_method_space [ub_mono]:
  "ub_le (find_method_space mem buf len) (find_method_space (mem @ ys) buf len)"
  unfolding find_method_space_def by (intro ub_mono)

lemma ub_le_find_last_char_offset [ub_mono]:
  "ub_le (find_last_char_offset mem buf len c) (find_last_char_offset (mem @ ys) buf len c)"
  unfolding find_last_char_offset_def by (intro ub_mono)

lemma ub_le_trim_first [ub_mono]:
  "ub_le (trim_first mem buf len i) (trim_first (mem @ ys) buf len i)"
proof (induction mem buf len i rule: trim_first.induct)
  case (1 mem buf len i)
  show ?case
    unfolding trim_first.simps [of mem buf len i] trim_first.simps [of "mem @ ys" buf len i]
    by (intro ub_mono "1.IH"; assumption)
qed

lemma ub_le_trim_last [ub_mono]:
  "ub_le (trim_last mem buf i j) (trim_last (mem @ ys) buf i j)"
proof (induction mem buf i j rule: trim_last.induct)
  case (1 mem buf i j)
  show ?case
    unfolding trim_last.simps [of mem buf i j] trim_last.simps [of "mem @ ys" buf i j]
    by (intro ub_mono "1.IH"; assumption)
qed

lemma ub_le_trim_and_validate [ub_mono]:
  "ub_le (trim_and_validate_field_value mem buf len) (trim_and_validate_field_value (mem @ ys) buf len)"
  unfolding trim_and_validate_field_value_def by (intro ub_mono)

lemma ub_le_method_from_str [ub_mono]:
  "ub_le (ihtp_method_from_str mem p n) (ihtp_method_from_str (mem @ ys) p n)"
  unfolding ihtp_method_from_str_def by (intro ub_mono)

end
