(* ===== verification/Ihtp_Startline.thy ===== *)
theory Ihtp_Startline
  imports Ihtp_Lines
begin

text \<open>
  The start lines of src/ihtp_parser.c: \<open>parse_request_line\<close> and \<open>parse_status_line\<close>.  Both
  return the status, the (partly written) result object and \<open>*line_end\<close>, which the callers set
  to 0 and only a successful parse writes.  Each is related to a grammar of lines.
\<close>

section \<open>Definitions of the code\<close>

definition parse_request_line ::
    "mem \<Rightarrow> nat \<Rightarrow> nat \<Rightarrow> ihtp_request_t \<Rightarrow> ihtp_policy_t option \<Rightarrow>
       (ihtp_status_t \<times> ihtp_request_t \<times> nat) ub" where
  "parse_request_line mem buf len req policy =
     do { line \<leftarrow> find_line_end mem buf len policy;
          case line of
            Inl line_status \<Rightarrow>
              (if line_status = IHTP_INCOMPLETE then
                 (if len > IHTP_MAX_REQUEST_LINE then Some (IHTP_ERROR_TOO_LONG, req, 0)
                  else Some (IHTP_INCOMPLETE, req, 0))
               else Some (line_status, req, 0))
          | Inr (line_break, line_ending_len) \<Rightarrow>
              (let line_len = size_sub line_break buf in
               if line_len > IHTP_MAX_REQUEST_LINE then Some (IHTP_ERROR_TOO_LONG, req, 0)
               else do {
                 sp1 \<leftarrow> find_method_space mem buf line_len;
                 case sp1 of
                   None \<Rightarrow> Some (IHTP_ERROR, req, 0)
                 | Some sp1_offset \<Rightarrow>
                   do {
                     method \<leftarrow> ihtp_method_from_str mem buf sp1_offset;
                     let req = req\<lparr> req_method_str := Some buf, req_method_len := sp1_offset,
                                    req_method := method \<rparr>;
                     let path_start = buf + sp1_offset + 1;
                     let remaining = size_sub (size_sub line_len (req_method_len req)) 1;
                     sp2 \<leftarrow> find_last_char_offset mem path_start remaining SP;
                     case sp2 of
                       None \<Rightarrow> Some (IHTP_ERROR, req, 0)
                     | Some sp2_offset \<Rightarrow>
                       (let req = req\<lparr> req_path := Some path_start, req_path_len := sp2_offset \<rparr> in
                        if req_path_len req = 0 then Some (IHTP_ERROR, req, 0)
                        else do {
                          target_ok \<leftarrow> request_target_is_valid mem path_start (req_path_len req)
                                        (policy_flag allow_spaces_in_uri policy);
                          if \<not> target_ok then Some (IHTP_ERROR, req, 0)
                          else
                            let ver = path_start + sp2_offset + 1;
                                ver_len = size_sub line_break ver
                            in if ver_len \<noteq> 8 then Some (IHTP_ERROR, req, 0)
                               else do {
                                 http \<leftarrow> c_memeq mem ver (ascii ''HTTP/1.'');
                                 if \<not> http then Some (IHTP_ERROR, req, 0)
                                 else do {
                                   v \<leftarrow> rd mem (ver + 7);
                                   if v = 0x31 then
                                     Some (IHTP_OK, req\<lparr> req_version := IHTP_HTTP_11 \<rparr>,
                                           line_len + line_ending_len)
                                   else if v = 0x30 then
                                     Some (IHTP_OK, req\<lparr> req_version := IHTP_HTTP_10 \<rparr>,
                                           line_len + line_ending_len)
                                   else Some (IHTP_ERROR, req, 0) } } }) } }) }"

definition parse_status_line ::
    "mem \<Rightarrow> nat \<Rightarrow> nat \<Rightarrow> ihtp_response_t \<Rightarrow> ihtp_policy_t option \<Rightarrow>
       (ihtp_status_t \<times> ihtp_response_t \<times> nat) ub" where
  "parse_status_line mem buf len resp policy =
     do { line \<leftarrow> find_line_end mem buf len policy;
          case line of
            Inl line_status \<Rightarrow> Some (line_status, resp, 0)
          | Inr (line_break, line_ending_len) \<Rightarrow>
              (let line_len = size_sub line_break buf in
               if line_len < 13 then Some (IHTP_ERROR, resp, 0)
               else do {
                 http \<leftarrow> c_memeq mem buf (ascii ''HTTP/1.'');
                 if \<not> http then Some (IHTP_ERROR, resp, 0)
                 else do {
                   v \<leftarrow> rd mem (buf + 7);
                   let (known, resp) =
                     (if v = 0x31 then (True, resp\<lparr> resp_version := IHTP_HTTP_11 \<rparr>)
                      else if v = 0x30 then (True, resp\<lparr> resp_version := IHTP_HTTP_10 \<rparr>)
                      else (False, resp));
                   if \<not> known then Some (IHTP_ERROR, resp, 0)
                   else do {
                     sp \<leftarrow> rd mem (buf + 8);
                     if sp \<noteq> SP then Some (IHTP_ERROR, resp, 0)
                     else do {
                       d1 \<leftarrow> rd mem (buf + 9);
                       d2 \<leftarrow> rd mem (buf + 10);
                       d3 \<leftarrow> rd mem (buf + 11);
                       if \<not> ihtp_is_digit d1 \<or> \<not> ihtp_is_digit d2 \<or> \<not> ihtp_is_digit d3
                       then Some (IHTP_ERROR, resp, 0)
                       else
                         let resp = resp\<lparr> resp_status_code :=
                               (uint d1 - 0x30) * 100 + (uint d2 - 0x30) * 10 + (uint d3 - 0x30) \<rparr>
                         in if resp_status_code resp < 100 \<or> resp_status_code resp > 599
                            then Some (IHTP_ERROR, resp, 0)
                            else do {
                              sp \<leftarrow> rd mem (buf + 12);
                              if sp \<noteq> SP then Some (IHTP_ERROR, resp, 0)
                              else if line_len > 13 then
                                let resp = resp\<lparr> resp_reason := Some (buf + 13),
                                                 resp_reason_len := size_sub line_break (buf + 13) \<rparr>
                                in do {
                                  ok \<leftarrow> field_text_is_valid mem (buf + 13) (resp_reason_len resp);
                                  if \<not> ok then Some (IHTP_ERROR, resp, 0)
                                  else Some (IHTP_OK, resp, line_len + line_ending_len) }
                              else
                                Some (IHTP_OK,
                                      resp\<lparr> resp_reason := Some (buf + 13), resp_reason_len := 0 \<rparr>,
                                      line_len + line_ending_len) } } } } }) }"

section \<open>Frame and extension\<close>

lemma ub_le_parse_request_line [ub_mono]:
  "ub_le (parse_request_line mem buf len req policy) (parse_request_line (mem @ ys) buf len req policy)"
  unfolding parse_request_line_def by (intro ub_mono)

lemma ub_le_parse_status_line [ub_mono]:
  "ub_le (parse_status_line mem buf len resp policy) (parse_status_line (mem @ ys) buf len resp policy)"
  unfolding parse_status_line_def by (intro ub_mono)

text \<open>Once the line is complete, the bytes behind it do not matter.\<close>

lemma find_line_end_extend:
  assumes "p + n \<le> length mem" and "n' \<le> n"
    and "line_end_ref policy (span mem p n') \<noteq> Inl IHTP_INCOMPLETE"
  shows "find_line_end mem p n policy = find_line_end mem p n' policy"
proof -
  obtain t where t: "span mem p n = span mem p n' @ t"
    using span_append [of mem p n' "n - n'"] assms(2) by simp
  with assms(3) have "line_end_ref policy (span mem p n) = line_end_ref policy (span mem p n')"
    by (simp add: line_end_ref_append)
  with assms show ?thesis by (simp add: find_line_end_in)
qed


lemma find_line_end_cases:
  assumes "p + n \<le> length mem"
  obtains (unfinished) st where "find_line_end mem p n policy = Some (Inl st)"
      and "line_end_ref policy (span mem p n) = Inl st"
  | (line) l k where "find_line_end mem p n policy = Some (Inr (p + l, k))"
      and "line_end_ref policy (span mem p n) = Inr (l, k)" and "l + k \<le> n" and "0 < k"
proof (cases "line_end_ref policy (span mem p n)")
  case (Inl st)
  with assms that(1) show ?thesis by (simp add: find_line_end_in)
next
  case (Inr lk)
  then obtain l k where lk: "line_end_ref policy (span mem p n) = Inr (l, k)" by (cases lk) simp
  from line_end_ref_bounds [OF lk] assms have "l + k \<le> n" "0 < k" by simp_all
  with lk assms that(2) show ?thesis by (simp add: find_line_end_in)
qed

section \<open>The request line\<close>

definition version_of_byte :: "byte \<Rightarrow> ihtp_http_version_t option" where
  "version_of_byte v =
     (if v = 0x31 then Some IHTP_HTTP_11 else if v = 0x30 then Some IHTP_HTTP_10 else None)"

fun version_byte :: "ihtp_http_version_t \<Rightarrow> byte" where
  "version_byte IHTP_HTTP_11 = 0x31"
| "version_byte IHTP_HTTP_10 = 0x30"

lemma version_of_byte_iff: "version_of_byte b = Some v \<longleftrightarrow> b = version_byte v"
  by (cases v) (auto simp: version_of_byte_def)

text \<open>
  The line without its ending, read once: the length of the method, the length of the target
  and the version.
\<close>

definition request_line_ref ::
    "ihtp_policy_t option \<Rightarrow> byte list \<Rightarrow> (nat \<times> nat \<times> ihtp_http_version_t) option" where
  "request_line_ref policy line =
     do { m \<leftarrow> token_before SP line;
          let after_sp = drop (Suc m) line;
          k \<leftarrow> last_index (\<lambda>b. b = SP) after_sp;
          let ver = drop (Suc k) after_sp;
          if k \<noteq> 0 \<and> list_all (target_byte (policy_flag allow_spaces_in_uri policy)) (take k after_sp)
             \<and> length ver = 8 \<and> take 7 ver = ascii ''HTTP/1.''
          then do { v \<leftarrow> version_of_byte (ver ! 7); Some (m, k, v) } else None }"

text \<open>The grammar of the line: method SP request-target SP HTTP-version.\<close>

definition request_line_of ::
    "ihtp_policy_t option \<Rightarrow> byte list \<Rightarrow> byte list \<Rightarrow> byte list \<Rightarrow> ihtp_http_version_t \<Rightarrow> bool" where
  "request_line_of policy line m t v \<longleftrightarrow>
     line = m @ SP # t @ SP # ascii ''HTTP/1.'' @ [version_byte v] \<and>
     m \<noteq> [] \<and> list_all tchar m \<and>
     t \<noteq> [] \<and> list_all (target_byte (policy_flag allow_spaces_in_uri policy)) t"

lemma not_tchar_SP [simp]: "\<not> tchar SP"
  using tchar_not_special by blast

lemma http_bytes_no_space: "SP \<notin> set (ascii ''HTTP/1.'')"
  by (simp add: ascii_def)

lemma c_memeq_http:
  "p + 7 \<le> length mem \<Longrightarrow>
     c_memeq mem p (ascii ''HTTP/1.'') = Some (span mem p 7 = ascii ''HTTP/1.'')"
proof -
  have "length (ascii ''HTTP/1.'') = 7" by simp
  then show "p + 7 \<le> length mem \<Longrightarrow> ?thesis"
    using c_memeq_in [of p "ascii ''HTTP/1.''" mem] by (simp only:)
qed

lemma length_8_snoc: "length xs = 8 \<Longrightarrow> take 7 xs = ys \<Longrightarrow> xs = ys @ [xs ! 7]"
  using take_Suc_conv_app_nth [of 7 xs] by simp

lemma request_line_ref_iff:
  "request_line_ref policy line = Some (i, j, v) \<longleftrightarrow>
     (\<exists>m t. request_line_of policy line m t v \<and> length m = i \<and> length t = j)"
proof
  assume "request_line_ref policy line = Some (i, j, v)"
  then obtain k where m: "token_before SP line = Some i"
    and k: "last_index (\<lambda>b. b = SP) (drop (Suc i) line) = Some k" and "k \<noteq> 0"
    and t: "list_all (target_byte (policy_flag allow_spaces_in_uri policy)) (take k (drop (Suc i) line))"
    and ver: "length (drop (Suc k) (drop (Suc i) line)) = 8"
      "take 7 (drop (Suc k) (drop (Suc i) line)) = ascii ''HTTP/1.''"
    and v: "version_of_byte (drop (Suc k) (drop (Suc i) line) ! 7) = Some v" and "k = j"
    by (auto simp: request_line_ref_def bind_eq_Some_conv Let_def split: if_splits)
  from m obtain m rest where line: "line = m @ SP # rest" "length m = i" "m \<noteq> []" "list_all tchar m"
    by (auto simp: token_before_iff)
  then have rest: "drop (Suc i) line = rest" by simp
  from k obtain t vs where r: "rest = t @ SP # vs" "k = length t"
    unfolding rest last_index_split by blast
  then have "drop (Suc k) rest = vs" "take k rest = t" by simp_all
  with ver v t rest have "vs = ascii ''HTTP/1.'' @ [version_byte v]"
    "list_all (target_byte (policy_flag allow_spaces_in_uri policy)) t"
    using length_8_snoc [of vs] by (auto simp: version_of_byte_iff)
  with line r \<open>k \<noteq> 0\<close> \<open>k = j\<close>
  show "\<exists>m t. request_line_of policy line m t v \<and> length m = i \<and> length t = j"
    by (intro exI [of _ m] exI [of _ t]) (auto simp: request_line_of_def)
next
  assume "\<exists>m t. request_line_of policy line m t v \<and> length m = i \<and> length t = j"
  then obtain m t where line: "line = m @ SP # t @ SP # ascii ''HTTP/1.'' @ [version_byte v]"
    and m: "m \<noteq> []" "list_all tchar m" "length m = i"
    and t: "t \<noteq> []" "list_all (target_byte (policy_flag allow_spaces_in_uri policy)) t" "length t = j"
    by (auto simp: request_line_of_def)
  have 1: "token_before SP line = Some i"
    using line m by (auto simp: token_before_iff)
  have rest: "drop (Suc i) line = t @ SP # ascii ''HTTP/1.'' @ [version_byte v]"
    using line m by simp
  have 2: "last_index (\<lambda>b. b = SP) (drop (Suc i) line) = Some j"
    unfolding rest last_index_split using t http_bytes_no_space
    by (intro exI [of _ t] exI [of _ SP] exI [of _ "ascii ''HTTP/1.'' @ [version_byte v]"])
      (cases v; auto)
  have "version_of_byte (version_byte v) = Some v" by (simp add: version_of_byte_iff)
  moreover have "length line - Suc (Suc (i + j)) = 8" "0 < j" using line m t by (auto simp: ascii_def)
  ultimately show "request_line_ref policy line = Some (i, j, v)"
    unfolding request_line_ref_def using 1 2 t
    by (simp add: rest nth_append ascii_def del: drop_drop)
qed

text \<open>What a complete, valid request line writes.\<close>

definition set_request_line ::
    "mem \<Rightarrow> nat \<Rightarrow> nat \<times> nat \<times> ihtp_http_version_t \<Rightarrow> ihtp_request_t \<Rightarrow> ihtp_request_t" where
  "set_request_line mem p = (\<lambda>(m, k, v) req.
     req\<lparr> req_method_str := Some p, req_method_len := m, req_method := method_of_bytes (span mem p m),
          req_path := Some (p + m + 1), req_path_len := k, req_version := v \<rparr>)"

text \<open>The status of a request line, from its bytes alone.\<close>

definition request_line_status :: "ihtp_policy_t option \<Rightarrow> byte list \<Rightarrow> ihtp_status_t" where
  "request_line_status policy s =
     (case line_end_ref policy s of
        Inl IHTP_INCOMPLETE \<Rightarrow>
          if length s > IHTP_MAX_REQUEST_LINE then IHTP_ERROR_TOO_LONG else IHTP_INCOMPLETE
      | Inl st \<Rightarrow> st
      | Inr (n, k) \<Rightarrow>
          if n > IHTP_MAX_REQUEST_LINE then IHTP_ERROR_TOO_LONG
          else if request_line_ref policy (take n s) = None then IHTP_ERROR else IHTP_OK)"

text \<open>Only the start-line fields are written, whatever the outcome.\<close>

definition same_header_part :: "ihtp_request_t \<Rightarrow> ihtp_request_t \<Rightarrow> bool" where
  "same_header_part r r' \<longleftrightarrow> req_headers r' = req_headers r \<and> req_num_headers r' = req_num_headers r
     \<and> req_body_mode r' = req_body_mode r \<and> req_content_length r' = req_content_length r
     \<and> req_keep_alive r' = req_keep_alive r \<and> req_protocol_upgrade r' = req_protocol_upgrade r
     \<and> req_expects_continue r' = req_expects_continue r
     \<and> req_has_trailer_fields r' = req_has_trailer_fields r"

lemma line_end_ref_Inl: "line_end_ref policy s = Inl st \<Longrightarrow> st = IHTP_INCOMPLETE \<or> st = IHTP_ERROR"
  by (auto simp: line_end_ref_def split: option.splits if_splits)


lemma same_header_part_simps [simp]:
  "same_header_part r r"
  "same_header_part r (r'\<lparr> req_method_str := a \<rparr>) = same_header_part r r'"
  "same_header_part r (r'\<lparr> req_method_len := b \<rparr>) = same_header_part r r'"
  "same_header_part r (r'\<lparr> req_method := c \<rparr>) = same_header_part r r'"
  "same_header_part r (r'\<lparr> req_path := a \<rparr>) = same_header_part r r'"
  "same_header_part r (r'\<lparr> req_path_len := b \<rparr>) = same_header_part r r'"
  "same_header_part r (r'\<lparr> req_version := d \<rparr>) = same_header_part r r'"
  by (simp_all add: same_header_part_def)

lemma token_before_less: "token_before d s = Some i \<Longrightarrow> 0 < i \<and> i < length s"
  by (auto simp: token_before_def index_of_Some_iff split: option.splits if_splits)

lemma last_index_less: "last_index P xs = Some i \<Longrightarrow> i < length xs"
  by (auto simp: last_index_split)

lemma same_header_part_set [simp]: "same_header_part req (set_request_line mem p r req)"
  by (simp add: set_request_line_def split_beta)

text \<open>The evaluation of a line whose end has been found.\<close>

lemma parse_request_line_line:
  assumes mem: "p + n \<le> length mem"
    and le: "find_line_end mem p n policy = Some (Inr (p + l, k))"
    and l: "l + k \<le> n" "l \<le> IHTP_MAX_REQUEST_LINE"
  shows "\<exists>req'. same_header_part req req' \<and>
           parse_request_line mem p n req policy =
             Some (case request_line_ref policy (span mem p l) of
                     None \<Rightarrow> (IHTP_ERROR, req', 0)
                   | Some r \<Rightarrow> (IHTP_OK, set_request_line mem p r req, l + k))"
proof -
  let ?line = "span mem p l"
  have line: "length ?line = l" "p + l \<le> length mem" using mem l by simp_all
  have nl: "\<not> IHTP_MAX_REQUEST_LINE < l" using l by simp
  show ?thesis
  proof (cases "token_before SP ?line")
    case None
    with line le nl show ?thesis
      by (intro exI [of _ req]) (simp add: parse_request_line_def leaf_specs request_line_ref_def)
  next
    case (Some m)
    with token_before_less [OF Some] line have m: "m < l" by simp
    let ?after = "span mem (Suc (p + m)) (l - Suc m)"
    have after: "drop (Suc m) ?line = ?after" by (simp add: drop_span)
    have b1: "p + m \<le> length mem" "Suc (p + m) + (l - Suc m) \<le> length mem"
      "length ?after = l - Suc m" using line m by simp_all
    note ev1 = parse_request_line_def le nl Let_def find_method_space_in [OF line(2)] Some
      method_from_str_in [OF b1(1)]
    show ?thesis
    proof (cases "last_index (\<lambda>b. b = SP) ?after")
      case None
      have "find_last_char_offset mem (Suc (p + m)) (l - Suc m) SP = Some None"
        using find_last_char_offset_in [OF b1(2)] None by simp
      with Some None after m show ?thesis
        by (intro exI [of _ "req\<lparr> req_method_str := Some p, req_method_len := m,
              req_method := method_of_bytes (span mem p m) \<rparr>"]) (simp add: ev1 request_line_ref_def)
    next
      case (Some j)
      have j: "j < l - Suc m" using last_index_less [OF Some] b1(3) by simp
      have lc: "find_last_char_offset mem (Suc (p + m)) (l - Suc m) SP = Some (Some j)"
        using find_last_char_offset_in [OF b1(2)] Some by simp
      define ver where "ver = span mem (Suc (Suc (p + m + j))) (l - Suc (Suc (m + j)))"
      have ver: "drop (Suc j) ?after = ver" by (simp add: drop_span ver_def)
      have tk: "take j ?after = span mem (Suc (p + m)) j" using j by (simp add: take_span min_def)
      have b2: "Suc (p + m) + j \<le> length mem" using j line by simp
      have sz: "size_sub (p + l) (Suc (Suc (p + m + j))) = length ver"
        using j line by (simp add: ver_def)
      define tgt where "tgt = list_all (target_byte (policy_flag allow_spaces_in_uri policy)) (take j ?after)"
      have tg: "request_target_is_valid mem (Suc (p + m)) j (policy_flag allow_spaces_in_uri policy)
          = Some tgt"
        unfolding tgt_def tk by (rule request_target_is_valid_in [OF b2])
      let ?req = "req\<lparr> req_method_str := Some p, req_method_len := m,
              req_method := method_of_bytes (span mem p m), req_path := Some (Suc (p + m)),
              req_path_len := j \<rparr>"
      have ref: "request_line_ref policy ?line =
          (if j \<noteq> 0 \<and> tgt \<and> length ver = 8 \<and> take 7 ver = ascii ''HTTP/1.''
           then do { v \<leftarrow> version_of_byte (ver ! 7); Some (m, j, v) } else None)"
        using \<open>token_before SP ?line = Some m\<close> Some
        by (simp add: request_line_ref_def after ver tgt_def del: length_drop drop_drop)
      show ?thesis
      proof (cases "j \<noteq> 0 \<and> tgt \<and> length ver = 8")
        case True
        then have "l - Suc (Suc (m + j)) = 8" using j line by (simp add: ver_def)
        with True j line
        have meq: "c_memeq mem (Suc (Suc (p + m + j))) (ascii ''HTTP/1.'') =
            Some (take 7 ver = ascii ''HTTP/1.'')"
          and v7: "rd mem (9 + (p + (m + j))) = Some (ver ! 7)"
          by (simp_all add: ver_def c_memeq_http rd_in take_span min_def add_ac)
        show ?thesis
          using True m ref
          by (intro exI [of _ ?req])
            (simp add: ev1 lc tg sz meq v7 version_of_byte_def set_request_line_def)
      next
        case False
        with m ref show ?thesis
          by (intro exI [of _ ?req]) (auto simp: ev1 lc tg sz)
      qed
    qed
  qed
qed


lemma parse_request_line_in:
  assumes mem: "p + n \<le> length mem"
  shows "\<exists>req' e. same_header_part req req' \<and>
           parse_request_line mem p n req policy =
             Some (request_line_status policy (span mem p n), req', e) \<and>
           (case line_end_ref policy (span mem p n) of
              Inl st \<Rightarrow> req' = req \<and> e = 0
            | Inr (l, k) \<Rightarrow>
                if request_line_status policy (span mem p n) = IHTP_OK
                then req' = set_request_line mem p (the (request_line_ref policy (span mem p l))) req
                     \<and> e = l + k
                else e = 0)"
  using mem
proof (cases rule: find_line_end_cases [where policy = policy])
  case (unfinished st)
  then consider "st = IHTP_INCOMPLETE" | "st = IHTP_ERROR" using line_end_ref_Inl by blast
  then show ?thesis
  proof cases
    case 1
    with unfinished mem show ?thesis
      by (intro exI [of _ req] exI [of _ 0])
        (auto simp: parse_request_line_def request_line_status_def)
  next
    case 2
    with unfinished show ?thesis
      by (intro exI [of _ req] exI [of _ 0])
        (auto simp: parse_request_line_def request_line_status_def)
  qed
next
  case (line l k)
  then have tk: "take l (span mem p n) = span mem p l" by (simp add: take_span min_def)
  show ?thesis
  proof (cases "l \<le> IHTP_MAX_REQUEST_LINE")
    case True
    with parse_request_line_line [OF mem line(1,3), of req] line(2) tk show ?thesis
      by (cases "request_line_ref policy (span mem p l)")
        (auto simp: request_line_status_def)
  next
    case False
    with line show ?thesis
      by (intro exI [of _ req] exI [of _ 0])
        (auto simp: parse_request_line_def request_line_status_def)
  qed
qed


section \<open>The status line\<close>

text \<open>The grammar of the line: HTTP-version SP 3DIGIT SP reason.\<close>

definition digit_value :: "byte \<Rightarrow> int" where
  "digit_value b = uint b - 0x30"

definition decimal_value :: "byte list \<Rightarrow> int" where
  "decimal_value ds = foldl (\<lambda>v d. 10 * v + digit_value d) 0 ds"

definition status_line_of ::
    "byte list \<Rightarrow> ihtp_http_version_t \<Rightarrow> byte list \<Rightarrow> byte list \<Rightarrow> bool" where
  "status_line_of line v ds reason \<longleftrightarrow>
     line = ascii ''HTTP/1.'' @ [version_byte v, SP] @ ds @ SP # reason \<and>
     length ds = 3 \<and> list_all ihtp_is_digit ds \<and> 100 \<le> decimal_value ds \<and> decimal_value ds \<le> 599 \<and>
     list_all text_byte reason"

definition status_line_ref :: "byte list \<Rightarrow> (ihtp_http_version_t \<times> int \<times> nat) option" where
  "status_line_ref line =
     (if length line < 13 \<or> take 7 line \<noteq> ascii ''HTTP/1.'' then None
      else do {
        v \<leftarrow> version_of_byte (line ! 7);
        let ds = take 3 (drop 9 line);
        if line ! 8 = SP \<and> list_all ihtp_is_digit ds \<and> 100 \<le> decimal_value ds
           \<and> decimal_value ds \<le> 599 \<and> line ! 12 = SP \<and> list_all text_byte (drop 13 line)
        then Some (v, decimal_value ds, length line - 13) else None })"

definition set_status_line ::
    "nat \<Rightarrow> ihtp_http_version_t \<times> int \<times> nat \<Rightarrow> ihtp_response_t \<Rightarrow> ihtp_response_t" where
  "set_status_line p = (\<lambda>(v, code, r) resp.
     resp\<lparr> resp_version := v, resp_status_code := code, resp_reason := Some (p + 13),
           resp_reason_len := r \<rparr>)"

definition same_resp_header_part :: "ihtp_response_t \<Rightarrow> ihtp_response_t \<Rightarrow> bool" where
  "same_resp_header_part r r' \<longleftrightarrow> resp_headers r' = resp_headers r
     \<and> resp_num_headers r' = resp_num_headers r \<and> resp_body_mode r' = resp_body_mode r
     \<and> resp_content_length r' = resp_content_length r \<and> resp_keep_alive r' = resp_keep_alive r
     \<and> resp_protocol_upgrade r' = resp_protocol_upgrade r
     \<and> resp_has_trailer_fields r' = resp_has_trailer_fields r"

definition status_line_status :: "ihtp_policy_t option \<Rightarrow> byte list \<Rightarrow> ihtp_status_t" where
  "status_line_status policy s =
     (case line_end_ref policy s of
        Inl st \<Rightarrow> st
      | Inr (n, k) \<Rightarrow> if status_line_ref (take n s) = None then IHTP_ERROR else IHTP_OK)"

lemma length_3_conv: "length ds = 3 \<longleftrightarrow> (\<exists>a b c. ds = [a, b, c])"
  by (auto simp: numeral_eq_Suc length_Suc_conv)

lemma status_line_split:
  assumes "13 \<le> length line"
  shows "line = take 7 line @ [line ! 7, line ! 8] @ take 3 (drop 9 line) @ line ! 12 # drop 13 line"
proof -
  have 1: "drop 7 line = line ! 7 # line ! 8 # drop 9 line"
    using assms Cons_nth_drop_Suc [of 7 line] Cons_nth_drop_Suc [of 8 line] by simp
  have 2: "drop 9 line = take 3 (drop 9 line) @ drop 12 line"
    using append_take_drop_id [of 3 "drop 9 line"] by simp
  have 3: "drop 12 line = line ! 12 # drop 13 line"
    using assms Cons_nth_drop_Suc [of 12 line] by simp
  have "line = take 7 line @ drop 7 line" by simp
  also have "drop 7 line = [line ! 7, line ! 8] @ take 3 (drop 9 line) @ line ! 12 # drop 13 line"
    unfolding 1 by (subst 2, subst 3) simp
  finally show ?thesis .
qed

lemma status_line_ref_iff:
  "status_line_ref line = Some (v, code, r) \<longleftrightarrow>
     (\<exists>ds reason. status_line_of line v ds reason \<and> code = decimal_value ds \<and> r = length reason)"
proof
  assume a: "status_line_ref line = Some (v, code, r)"
  then have "13 \<le> length line" by (simp add: status_line_ref_def split: if_splits)
  from status_line_split [OF this] a
  show "\<exists>ds reason. status_line_of line v ds reason \<and> code = decimal_value ds \<and> r = length reason"
    by (intro exI [of _ "take 3 (drop 9 line)"] exI [of _ "drop 13 line"])
      (auto simp: status_line_ref_def status_line_of_def bind_eq_Some_conv Let_def version_of_byte_iff
         split: if_splits)
next
  assume "\<exists>ds reason. status_line_of line v ds reason \<and> code = decimal_value ds \<and> r = length reason"
  then obtain a b c reason
    where "line = ascii ''HTTP/1.'' @ [version_byte v, SP, a, b, c, SP] @ reason"
    and "list_all ihtp_is_digit [a, b, c]" "100 \<le> decimal_value [a, b, c]"
      "decimal_value [a, b, c] \<le> 599" "list_all text_byte reason"
      "code = decimal_value [a, b, c]" "r = length reason"
    by (auto simp: status_line_of_def length_3_conv)
  then show "status_line_ref line = Some (v, code, r)"
    by (simp add: status_line_ref_def ascii_def version_of_byte_iff [THEN iffD2])
qed


lemma same_resp_header_part_simps [simp]:
  "same_resp_header_part r r"
  "same_resp_header_part r (r'\<lparr> resp_version := v \<rparr>) = same_resp_header_part r r'"
  "same_resp_header_part r (r'\<lparr> resp_status_code := c \<rparr>) = same_resp_header_part r r'"
  "same_resp_header_part r (r'\<lparr> resp_reason := a \<rparr>) = same_resp_header_part r r'"
  "same_resp_header_part r (r'\<lparr> resp_reason_len := b \<rparr>) = same_resp_header_part r r'"
  by (simp_all add: same_resp_header_part_def)

lemma same_resp_header_part_set [simp]: "same_resp_header_part resp (set_status_line p r resp)"
  by (simp add: set_status_line_def split_beta)

lemma parse_status_line_line:
  assumes mem: "p + n \<le> length mem"
    and le: "find_line_end mem p n policy = Some (Inr (p + l, k))" and l: "l + k \<le> n"
  shows "\<exists>resp'. same_resp_header_part resp resp' \<and>
           parse_status_line mem p n resp policy =
             Some (case status_line_ref (span mem p l) of
                     None \<Rightarrow> (IHTP_ERROR, resp', 0)
                   | Some r \<Rightarrow> (IHTP_OK, set_status_line p r resp, l + k))"
proof (cases "13 \<le> l")
  case False
  then have "min l (length mem - p) < 13" by simp
  then have "status_line_ref (span mem p l) = None" by (simp add: status_line_ref_def)
  with le False show ?thesis
    by (intro exI [of _ resp]) (simp add: parse_status_line_def)
next
  case True
  define line where "line = span mem p l"
  have len: "length line = l" "p + l \<le> length mem" using mem l by (simp_all add: line_def)
  have nth: "rd mem (p + i) = Some (line ! i)" if "i < l" for i
    using that len by (simp add: rd_in line_def)
  have http: "c_memeq mem p (ascii ''HTTP/1.'') = Some (take 7 line = ascii ''HTTP/1.'')"
    using True len by (simp add: c_memeq_http line_def take_span min_def)
  have reason: "field_text_is_valid mem (p + 13) (l - 13) = Some (list_all text_byte (drop 13 line))"
    using True len by (simp add: field_text_is_valid_in line_def drop_span)
  have ds: "take 3 (drop 9 line) = [line ! 9, line ! 10, line ! 11]"
    using True len Cons_nth_drop_Suc [of 9 line, symmetric] Cons_nth_drop_Suc [of 10 line, symmetric]
      Cons_nth_drop_Suc [of 11 line, symmetric] by (simp add: numeral_3_eq_3)
  have code: "(uint a - 0x30) * 100 + (uint b - 0x30) * 10 + (uint c - 0x30) = decimal_value [a, b, c]"
    for a b c by (simp add: decimal_value_def digit_value_def)
  note code' = code [simplified]
  have empty: "l \<noteq> 13 \<or> drop 13 line = []" using len by auto
  note ev = parse_status_line_def le Let_def nth http reason status_line_ref_def ds
    line_def [symmetric] len(1) set_status_line_def code'
  consider (bad_http) "take 7 line \<noteq> ascii ''HTTP/1.''"
    | (bad_version) "take 7 line = ascii ''HTTP/1.''" "version_of_byte (line ! 7) = None"
    | (version) v where "take 7 line = ascii ''HTTP/1.''" "version_of_byte (line ! 7) = Some v" by auto
  then show ?thesis
  proof cases
    case bad_http
    with True show ?thesis by (intro exI [of _ resp]) (simp add: ev)
  next
    case bad_version
    then have "line ! 7 \<noteq> 0x31 \<and> line ! 7 \<noteq> 0x30" by (auto simp: version_of_byte_def split: if_splits)
    with bad_version True show ?thesis by (intro exI [of _ resp]) (simp add: ev)
  next
    case (version v)
    then have known: "(if line ! 7 = 0x31 then (True, resp\<lparr> resp_version := IHTP_HTTP_11 \<rparr>)
            else if line ! 7 = 0x30 then (True, resp\<lparr> resp_version := IHTP_HTTP_10 \<rparr>)
            else (False, resp)) = (True, resp\<lparr> resp_version := v \<rparr>)"
      by (auto simp: version_of_byte_def split: if_splits)
    note ev' = ev known version
    let ?r1 = "resp\<lparr> resp_version := v \<rparr>"
    let ?code = "decimal_value [line ! 9, line ! 10, line ! 11]"
    let ?r2 = "?r1\<lparr> resp_status_code := ?code \<rparr>"
    let ?r3 = "if l > 13 then ?r2\<lparr> resp_reason := Some (p + 13), resp_reason_len := l - 13 \<rparr> else ?r2"
    consider (bad_digits) "\<not> (line ! 8 = SP \<and> ihtp_is_digit (line ! 9) \<and> ihtp_is_digit (line ! 10)
        \<and> ihtp_is_digit (line ! 11))"
      | (bad_code) "line ! 8 = SP" "ihtp_is_digit (line ! 9)" "ihtp_is_digit (line ! 10)"
        "ihtp_is_digit (line ! 11)" "\<not> (100 \<le> ?code \<and> ?code \<le> 599 \<and> line ! 12 = SP)"
      | (ok) "line ! 8 = SP" "ihtp_is_digit (line ! 9)" "ihtp_is_digit (line ! 10)"
        "ihtp_is_digit (line ! 11)" "100 \<le> ?code" "?code \<le> 599" "line ! 12 = SP" "l = 13 \<or> 13 < l"
      using True by fastforce
    then show ?thesis
    proof cases
      case bad_digits
      with True show ?thesis by (intro exI [of _ ?r1]) (auto simp: ev')
    next
      case bad_code
      with True show ?thesis by (intro exI [of _ ?r2]) (auto simp: ev')
    next
      case ok
      with True empty show ?thesis
        unfolding line_def [symmetric]
        by (intro exI [of _ ?r3]) (elim disjE; simp add: ev')
    qed
  qed
qed

lemma parse_status_line_in:
  assumes mem: "p + n \<le> length mem"
  shows "\<exists>resp' e. same_resp_header_part resp resp' \<and>
           parse_status_line mem p n resp policy =
             Some (status_line_status policy (span mem p n), resp', e) \<and>
           (case line_end_ref policy (span mem p n) of
              Inl st \<Rightarrow> resp' = resp \<and> e = 0
            | Inr (l, k) \<Rightarrow>
                if status_line_status policy (span mem p n) = IHTP_OK
                then resp' = set_status_line p (the (status_line_ref (span mem p l))) resp
                     \<and> e = l + k
                else e = 0)"
  using mem
proof (cases rule: find_line_end_cases [where policy = policy])
  case (unfinished st)
  then show ?thesis
    by (intro exI [of _ resp] exI [of _ 0]) (simp add: parse_status_line_def status_line_status_def)
next
  case (line l k)
  then have tk: "take l (span mem p n) = span mem p l" by (simp add: take_span min_def)
  from parse_status_line_line [OF mem line(1,3), of resp] line(2) tk show ?thesis
    by (cases "status_line_ref (span mem p l)") (auto simp: status_line_status_def)
qed

section \<open>Extension\<close>

text \<open>
  A verdict on a start line that is complete, or that is already wrong, stands whatever bytes
  arrive behind it.
\<close>

lemma parse_request_line_extend:
  assumes "p + n \<le> length mem" and "n' \<le> n"
    and "line_end_ref policy (span mem p n') \<noteq> Inl IHTP_INCOMPLETE"
  shows "parse_request_line mem p n req policy = parse_request_line mem p n' req policy"
proof -
  note fle = find_line_end_extend [OF assms]
  from assms(1,2) have "p + n' \<le> length mem" by simp
  then show ?thesis
  proof (cases rule: find_line_end_cases [where policy = policy])
    case (unfinished st)
    with assms(3) fle show ?thesis by (simp add: parse_request_line_def)
  next
    case (line l k)
    with fle show ?thesis by (simp add: parse_request_line_def)
  qed
qed

lemma parse_status_line_extend:
  assumes "p + n \<le> length mem" and "n' \<le> n"
    and "line_end_ref policy (span mem p n') \<noteq> Inl IHTP_INCOMPLETE"
  shows "parse_status_line mem p n resp policy = parse_status_line mem p n' resp policy"
  by (simp add: parse_status_line_def find_line_end_extend [OF assms])

end
