(* ===== verification/Ihtp_Headers.thy ===== *)
theory Ihtp_Headers
  imports Ihtp_Startline
begin

text \<open>
  \<open>parse_header_block\<close> of src/ihtp_parser.c.  The caller's header array is a list; a read or
  write behind its end, or through a null value pointer, is undefined behaviour.  One pass of
  the loop is \<open>header_step\<close>; the theory proves that the loop ends, that it stays in bounds,
  what it accepts (a grammar of lines, with obsolete folding) and that it can be resumed.
\<close>

section \<open>What a loop body leaves for its next pass\<close>

definition continues :: "('s \<Rightarrow> bool) \<Rightarrow> ('s, 'r) ctl ub \<Rightarrow> bool" where
  "continues P x \<longleftrightarrow> (\<forall>s. x = Some (Continue s) \<longrightarrow> P s)"

lemma continues_return: "continues P (Some (Return r))"
  by (simp add: continues_def)

lemma continues_continue: "P s \<Longrightarrow> continues P (Some (Continue s))"
  by (simp add: continues_def)

lemma continues_bind: "(\<And>a. x = Some a \<Longrightarrow> continues P (f a)) \<Longrightarrow> continues P (x \<bind> f)"
  by (cases x) (simp_all add: continues_def)

lemma continues_if:
  "(b \<Longrightarrow> continues P u) \<Longrightarrow> (\<not> b \<Longrightarrow> continues P v) \<Longrightarrow> continues P (if b then u else v)"
  by simp

lemma continues_sum:
  "(\<And>a. w = Inl a \<Longrightarrow> continues P (g a)) \<Longrightarrow> (\<And>c. w = Inr c \<Longrightarrow> continues P (h c)) \<Longrightarrow>
     continues P (case_sum g h w)"
  by (cases w) simp_all

lemma continues_option:
  "(z = None \<Longrightarrow> continues P u) \<Longrightarrow> (\<And>a. z = Some a \<Longrightarrow> continues P (k a)) \<Longrightarrow>
     continues P (case_option u k z)"
  by (cases z) simp_all

lemma continues_prod: "(\<And>a c. y = (a, c) \<Longrightarrow> continues P (m a c)) \<Longrightarrow> continues P (case_prod m y)"
  by (cases y) simp

lemmas continues_intros = continues_return continues_continue continues_bind continues_if
  continues_sum continues_option continues_prod

section \<open>Definitions of the code\<close>

definition hdr_read :: "ihtp_header_t list \<Rightarrow> nat \<Rightarrow> ihtp_header_t ub" where
  "hdr_read headers i = (if i < length headers then Some (headers ! i) else None)"

definition hdr_write ::
    "ihtp_header_t list \<Rightarrow> nat \<Rightarrow> (ihtp_header_t \<Rightarrow> ihtp_header_t) \<Rightarrow> ihtp_header_t list ub" where
  "hdr_write headers i f =
     (if i < length headers then Some (headers[i := f (headers ! i)]) else None)"

text \<open>\<open>(headers, count, pos)\<close> of the loop; \<open>(status, headers, *num_headers, *block_end)\<close>.\<close>

type_synonym block_state = "ihtp_header_t list \<times> nat \<times> nat"
type_synonym block_result = "ihtp_status_t \<times> ihtp_header_t list \<times> nat \<times> nat"

definition header_step ::
    "mem \<Rightarrow> nat \<Rightarrow> nat \<Rightarrow> nat \<Rightarrow> nat \<Rightarrow> ihtp_policy_t option \<Rightarrow> block_state \<Rightarrow>
       (block_state, block_result) ctl ub" where
  "header_step mem buf len num_headers max_headers policy = (\<lambda>(headers, count, pos).
     do { c \<leftarrow> rd mem (buf + pos);
          let is_continuation = ihtp_is_lws c;
          if policy_flag reject_obs_fold policy \<and> is_continuation
          then Some (Return (IHTP_ERROR, headers, num_headers, 0))
          else do {
            let line_start = buf + pos;
            line \<leftarrow> find_line_end mem line_start (size_sub len pos) policy;
            case line of
              Inl line_status \<Rightarrow>
                (if line_status = IHTP_INCOMPLETE then
                   (if size_sub len pos > IHTP_MAX_HEADER_LINE
                    then Some (Return (IHTP_ERROR_TOO_LONG, headers, num_headers, 0))
                    else Some (Return (IHTP_INCOMPLETE, headers, count, pos)))
                 else Some (Return (line_status, headers, num_headers, 0)))
            | Inr (line_break, line_ending_len) \<Rightarrow>
                (let line_len = size_sub line_break line_start in
                 if line_len > IHTP_MAX_HEADER_LINE
                 then Some (Return (IHTP_ERROR_TOO_LONG, headers, num_headers, 0))
                 else if line_len = 0
                 then Some (Return (IHTP_OK, headers, count, pos + line_ending_len))
                 else if is_continuation then
                   (if count = 0 then Some (Return (IHTP_ERROR, headers, num_headers, 0))
                    else do {
                      ok \<leftarrow> field_text_is_valid mem (buf + pos) line_len;
                      if \<not> ok then Some (Return (IHTP_ERROR, headers, num_headers, 0))
                      else do {
                        h \<leftarrow> hdr_read headers (count - 1);
                        v \<leftarrow> hdr_value h;
                        headers \<leftarrow> hdr_write headers (count - 1)
                                    (\<lambda>h. h\<lparr> hdr_value_len := size_sub line_break v \<rparr>);
                        Some (Continue (headers, count, pos + (line_len + line_ending_len))) } })
                 else do {
                   colon \<leftarrow> find_header_name_colon mem line_start line_len;
                   case colon of
                     None \<Rightarrow> Some (Return (IHTP_ERROR, headers, num_headers, 0))
                   | Some colon_offset \<Rightarrow>
                       if count \<ge> max_headers
                       then Some (Return (IHTP_ERROR_TOO_MANY_HEADERS, headers, num_headers, 0))
                       else do {
                         headers \<leftarrow> hdr_write headers count
                                     (\<lambda>h. h\<lparr> hdr_name := Some line_start, hdr_name_len := colon_offset \<rparr>);
                         let val_start = line_start + colon_offset + 1;
                         let val_len = size_sub line_break val_start;
                         (ok, val_start, val_len) \<leftarrow> trim_and_validate_field_value mem val_start val_len;
                         if \<not> ok then Some (Return (IHTP_ERROR, headers, num_headers, 0))
                         else do {
                           headers \<leftarrow> hdr_write headers count
                                       (\<lambda>h. h\<lparr> hdr_value := Some val_start, hdr_value_len := val_len \<rparr>);
                           Some (Continue (headers, count + 1,
                                           pos + (line_len + line_ending_len))) } } }) } })"

lemma find_line_end_progress: "find_line_end mem p n policy = Some (Inr (lb, k)) \<Longrightarrow> 0 < k"
  unfolding find_line_end_def
  by (elim bind_eq_Some_conv [THEN iffD1, elim_format] exE conjE; simp split: option.split_asm;
      elim bind_eq_Some_conv [THEN iffD1, elim_format] exE conjE; simp split: if_split_asm)

lemma header_step_progress:
  assumes "header_step mem buf len num mx policy (hs, count, pos) = Some (Continue (hs', count', pos'))"
  shows "pos < pos'"
proof -
  have "continues (\<lambda>(hs', count', pos'). pos < pos') (header_step mem buf len num mx policy (hs, count, pos))"
    unfolding header_step_def prod.case Let_def
    by (intro continues_intros) simp_all
  with assms show ?thesis by (auto simp: continues_def)
qed

function header_loop ::
    "mem \<Rightarrow> nat \<Rightarrow> nat \<Rightarrow> nat \<Rightarrow> nat \<Rightarrow> ihtp_policy_t option \<Rightarrow> block_state \<Rightarrow> block_result ub" where
  "header_loop mem buf len num_headers max_headers policy (headers, count, pos) =
     (if pos < len then
        do { r \<leftarrow> header_step mem buf len num_headers max_headers policy (headers, count, pos);
             case r of
               Return result \<Rightarrow> Some result
             | Continue (headers', count', pos') \<Rightarrow>
                 header_loop mem buf len num_headers max_headers policy (headers', count', pos') }
      else Some (IHTP_INCOMPLETE, headers, count, pos))"
  by pat_completeness auto
termination
  by (relation "measure (\<lambda>(mem, buf, len, num, mx, policy, hs, count, pos). len - pos)")
    (auto dest: header_step_progress)

declare header_loop.simps [simp del]

definition parse_header_block ::
    "mem \<Rightarrow> nat \<Rightarrow> nat \<Rightarrow> ihtp_header_t list \<Rightarrow> nat \<Rightarrow> nat \<Rightarrow> nat \<Rightarrow> ihtp_policy_t option \<Rightarrow>
       block_result ub" where
  "parse_header_block mem buf len headers initial_count num_headers max_headers policy =
     header_loop mem buf len num_headers max_headers policy (headers, initial_count, 0)"


section \<open>One line\<close>

text \<open>
  What the first line of the remaining bytes is: malformed, not complete yet, the empty line
  that ends the block, a folded continuation, or a field (with the length of its name and
  whether its value is valid text).
\<close>

datatype header_line =
    Malformed ihtp_status_t
  | Unfinished
  | End nat
  | Fold nat nat
  | Field nat bool nat nat

definition classify :: "ihtp_policy_t option \<Rightarrow> byte list \<Rightarrow> header_line" where
  "classify policy s =
     (if policy_flag reject_obs_fold policy \<and> ihtp_is_lws (hd s) then Malformed IHTP_ERROR
      else case line_end_ref policy s of
        Inl st \<Rightarrow>
          if st = IHTP_INCOMPLETE then
            (if length s > IHTP_MAX_HEADER_LINE then Malformed IHTP_ERROR_TOO_LONG else Unfinished)
          else Malformed st
      | Inr (l, k) \<Rightarrow>
          if l > IHTP_MAX_HEADER_LINE then Malformed IHTP_ERROR_TOO_LONG
          else if l = 0 then End k
          else if ihtp_is_lws (hd s) then
            (if list_all text_byte (take l s) then Fold l k else Malformed IHTP_ERROR)
          else case token_before COLON (take l s) of
              None \<Rightarrow> Malformed IHTP_ERROR
            | Some c \<Rightarrow> Field c (list_all text_byte (trim_ows (drop (Suc c) (take l s)))) l k)"

text \<open>The header written for a field line at \<open>p\<close>, and the effect of a continuation.\<close>

definition field_header :: "nat \<Rightarrow> nat \<Rightarrow> byte list \<Rightarrow> ihtp_header_t" where
  "field_header p c raw =
     \<lparr> hdr_name = Some p, hdr_name_len = c,
       hdr_value = Some (p + c + 1 + lws_prefix raw), hdr_value_len = length (trim_ows raw) \<rparr>"

definition extend_header :: "nat \<Rightarrow> ihtp_header_t \<Rightarrow> ihtp_header_t" where
  "extend_header q h = h\<lparr> hdr_value_len := q - the (hdr_value h) \<rparr>"

text \<open>
  A header whose name and value lie in \<open>[lo, hi)\<close>, the name before the value; the header array
  of a parse in progress.
\<close>

definition hdr_within :: "nat \<Rightarrow> nat \<Rightarrow> ihtp_header_t \<Rightarrow> bool" where
  "hdr_within lo hi h \<longleftrightarrow>
     (\<exists>n v. hdr_name h = Some n \<and> hdr_value h = Some v \<and> lo \<le> n \<and> 0 < hdr_name_len h \<and>
        n + hdr_name_len h < v \<and> v + hdr_value_len h \<le> hi)"

definition headers_ok :: "nat \<Rightarrow> nat \<Rightarrow> nat \<Rightarrow> ihtp_header_t list \<Rightarrow> nat \<Rightarrow> bool" where
  "headers_ok lo hi mx hs c \<longleftrightarrow>
     c \<le> mx \<and> mx \<le> length hs \<and> (\<forall>i<c. hdr_within lo hi (hs ! i))"

lemma headers_ok_0 [simp]: "headers_ok lo hi mx hs 0 \<longleftrightarrow> mx \<le> length hs"
  by (simp add: headers_ok_def)

lemma hdr_within_mono: "hdr_within lo hi h \<Longrightarrow> hi \<le> hi' \<Longrightarrow> hdr_within lo hi' h"
  by (auto simp: hdr_within_def)

lemma headers_ok_mono: "headers_ok lo hi mx hs c \<Longrightarrow> hi \<le> hi' \<Longrightarrow> headers_ok lo hi' mx hs c"
  by (auto simp: headers_ok_def intro: hdr_within_mono)

lemma headers_ok_field:
  assumes "headers_ok lo p mx hs c" and "c < mx" and "0 < n" and "lo \<le> p" and "p + n + 1 + length raw \<le> hi"
  shows "headers_ok lo hi mx (hs[c := field_header p n raw]) (Suc c)"
proof -
  from assms(5) trim_ows_bounds [of raw] have "hdr_within lo hi (field_header p n raw)"
    using assms(3,4) by (simp add: hdr_within_def field_header_def)
  moreover have "hdr_within lo hi (hs ! i)" if "i < c" for i
    using assms that hdr_within_mono [of lo p "hs ! i" hi] by (simp add: headers_ok_def)
  ultimately show ?thesis
    using assms by (auto simp: headers_ok_def nth_list_update less_Suc_eq)
qed

lemma headers_ok_fold:
  assumes "headers_ok lo p mx hs c" and "c \<noteq> 0" and "p \<le> q" and "q \<le> hi"
  shows "headers_ok lo hi mx (hs[c - 1 := extend_header q (hs ! (c - 1))]) c"
proof -
  have "hdr_within lo p (hs ! (c - 1))" using assms by (simp add: headers_ok_def)
  then have "hdr_within lo hi (extend_header q (hs ! (c - 1)))"
    using assms by (auto simp: hdr_within_def extend_header_def)
  moreover have "hdr_within lo hi (hs ! i)" if "i < c" for i
    using assms that hdr_within_mono [of lo p "hs ! i" hi] by (simp add: headers_ok_def)
  ultimately show ?thesis
    using assms by (auto simp: headers_ok_def nth_list_update)
qed

lemma hdr_write_all:
  "h\<lparr> hdr_name := n, hdr_name_len := nl, hdr_value := v, hdr_value_len := vl \<rparr> =
     \<lparr> hdr_name = n, hdr_name_len = nl, hdr_value = v, hdr_value_len = vl \<rparr>"
  by (cases h) simp

lemma hd_span: "p < length mem \<Longrightarrow> 0 < n \<Longrightarrow> hd (span mem p n) = mem ! p"
  by (cases n) (simp_all add: span_Suc)

text \<open>One pass of the loop, by the class of the line in front of it.\<close>

definition step_result ::
    "nat \<Rightarrow> nat \<Rightarrow> nat \<Rightarrow> byte list \<Rightarrow> header_line \<Rightarrow> block_state \<Rightarrow> (block_state, block_result) ctl" where
  "step_result buf num mx s line = (\<lambda>(hs, c, pos).
     case line of
       Malformed st \<Rightarrow> Return (st, hs, num, 0)
     | Unfinished \<Rightarrow> Return (IHTP_INCOMPLETE, hs, c, pos)
     | End k \<Rightarrow> Return (IHTP_OK, hs, c, pos + k)
     | Fold l k \<Rightarrow>
         if c = 0 then Return (IHTP_ERROR, hs, num, 0)
         else Continue (hs[c - 1 := extend_header (buf + pos + l) (hs ! (c - 1))], c, pos + (l + k))
     | Field n ok l k \<Rightarrow>
         if c \<ge> mx then Return (IHTP_ERROR_TOO_MANY_HEADERS, hs, num, 0)
         else if ok then
           Continue (hs[c := field_header (buf + pos) n (drop (Suc n) (take l s))], c + 1, pos + (l + k))
         else Return (IHTP_ERROR,
                hs[c := (hs ! c)\<lparr> hdr_name := Some (buf + pos), hdr_name_len := n \<rparr>], num, 0))"

lemma header_step_in:
  assumes mem: "buf + len \<le> length mem" and pos: "pos < len"
    and ok: "headers_ok lo (buf + pos) mx hs c"
  shows "header_step mem buf len num mx policy (hs, c, pos) =
           Some (step_result buf num mx (span mem (buf + pos) (len - pos))
                   (classify policy (span mem (buf + pos) (len - pos))) (hs, c, pos))"
proof -
  define s where "s = span mem (buf + pos) (len - pos)"
  have r: "rd mem (buf + pos) = Some (hd s)"
    using mem pos by (simp add: rd_in s_def hd_span)
  have sz: "size_sub len pos = len - pos" "length s = len - pos" using mem pos by (simp_all add: s_def)
  have b: "buf + pos + (len - pos) \<le> length mem" using mem pos by simp
  note base = header_step_def Let_def r sz
  have "header_step mem buf len num mx policy (hs, c, pos) =
           Some (step_result buf num mx s (classify policy s) (hs, c, pos))"
  proof (cases "policy_flag reject_obs_fold policy \<and> ihtp_is_lws (hd s)")
    case True
    then show ?thesis by (simp add: base classify_def step_result_def)
  next
    case fold: False
    from b show ?thesis
    proof (cases rule: find_line_end_cases [where policy = policy])
      case (unfinished st)
      with fold show ?thesis
        by (auto simp: base classify_def step_result_def s_def [symmetric])
    next
      case (line l k)
      note fle = line(1) and ref = line(2) [folded s_def]
      have l: "take l s = span mem (buf + pos) l" "buf + pos + l \<le> length mem"
        using line b by (simp_all add: s_def take_span min_def)
      consider "l > IHTP_MAX_HEADER_LINE" | "l \<le> IHTP_MAX_HEADER_LINE" "l = 0"
        | (cont) "l \<le> IHTP_MAX_HEADER_LINE" "l \<noteq> 0" "ihtp_is_lws (hd s)"
        | (field) "l \<le> IHTP_MAX_HEADER_LINE" "l \<noteq> 0" "\<not> ihtp_is_lws (hd s)" by linarith
      then show ?thesis
      proof cases
        case cont
        show ?thesis
        proof (cases "c = 0")
          case True
          with cont fold fle ref show ?thesis
            by (simp add: base classify_def step_result_def)
        next
          case False
          then have "hdr_within lo (buf + pos) (hs ! (c - 1))" "c - 1 < length hs"
            using ok by (auto simp: headers_ok_def)
          then obtain v where v: "hdr_value (hs ! (c - 1)) = Some v" "v \<le> buf + pos + l"
            by (auto simp: hdr_within_def)
          with cont fold fle ref l False \<open>c - 1 < length hs\<close> show ?thesis
            by (simp add: base classify_def step_result_def field_text_is_valid_in hdr_read_def
                hdr_write_def extend_header_def)
        qed
      next
        case field
        show ?thesis
        proof (cases "token_before COLON (take l s)")
          case None
          with field fold fle ref l show ?thesis
            by (simp add: base classify_def step_result_def find_header_name_colon_in)
        next
          case (Some n)
          with token_before_less [OF Some] l have n: "n < l" by simp
          let ?raw = "span mem (buf + pos + n + 1) (l - n - 1)"
          have raw: "drop (Suc n) (take l s) = ?raw" by (simp add: l drop_span)
          have colon: "find_header_name_colon mem (buf + pos) l = Some (Some n)"
            using Some l by (simp add: find_header_name_colon_in)
          have tv: "trim_and_validate_field_value mem (buf + pos + n + 1) (l - n - 1) =
              Some (list_all text_byte (trim_ows ?raw), buf + pos + n + 1 + lws_prefix ?raw,
                    length (trim_ows ?raw))"
            using n l by (intro trim_and_validate_in) simp
          have vl: "size_sub (buf + pos + l) (buf + pos + n + 1) = l - n - 1" using n by simp
          show ?thesis
          proof (cases "c \<ge> mx")
            case True
            with field fold fle ref Some colon show ?thesis
              by (simp add: base classify_def step_result_def)
          next
            case False
            then have c: "c < length hs" using ok by (simp add: headers_ok_def)
            have "header_step mem buf len num mx policy (hs, c, pos) =
                Some (if list_all text_byte (trim_ows ?raw)
                      then Continue (hs[c := field_header (buf + pos) n ?raw], c + 1, pos + (l + k))
                      else Return (IHTP_ERROR,
                        hs[c := (hs ! c)\<lparr> hdr_name := Some (buf + pos), hdr_name_len := n \<rparr>], num, 0))"
              using field fold fle colon tv vl c False
              by (simp add: base hdr_write_def field_header_def hdr_write_all)
            moreover have "classify policy s = Field n (list_all text_byte (trim_ows ?raw)) l k"
              using field fold ref Some raw by (simp add: classify_def)
            ultimately show ?thesis
              using False raw by (simp add: step_result_def)
          qed
        qed
      qed (use fold fle ref in \<open>simp_all add: base classify_def step_result_def\<close>)
    qed
  qed
  then show ?thesis by (simp add: s_def)
qed


section \<open>The loop\<close>

lemma classify_bounds:
  "classify policy s = Fold l k \<Longrightarrow> 0 < l \<and> 0 < k \<and> l + k \<le> length s"
  "classify policy s = Field n ok l k \<Longrightarrow> 0 < n \<and> n < l \<and> 0 < k \<and> l + k \<le> length s"
  "classify policy s = End k \<Longrightarrow> 0 < k \<and> k \<le> length s"
proof -
  note bounds = line_end_ref_bounds [of policy s]
  show "classify policy s = Fold l k \<Longrightarrow> 0 < l \<and> 0 < k \<and> l + k \<le> length s"
    and "classify policy s = End k \<Longrightarrow> 0 < k \<and> k \<le> length s"
    by (auto simp: classify_def dest: bounds split: if_splits sum.splits option.splits)
  show "classify policy s = Field n ok l k \<Longrightarrow> 0 < n \<and> n < l \<and> 0 < k \<and> l + k \<le> length s"
    by (auto simp: classify_def dest: bounds dest!: token_before_less split: if_splits sum.splits option.splits)
qed

lemma header_loop_done [simp]: "len \<le> pos \<Longrightarrow>
    header_loop mem buf len num mx policy (hs, c, pos) = Some (IHTP_INCOMPLETE, hs, c, pos)"
  by (simp add: header_loop.simps)

lemma header_loop_step:
  assumes "buf + len \<le> length mem" and "pos < len" and "headers_ok lo (buf + pos) mx hs c"
  shows "header_loop mem buf len num mx policy (hs, c, pos) =
           (case step_result buf num mx (span mem (buf + pos) (len - pos))
                   (classify policy (span mem (buf + pos) (len - pos))) (hs, c, pos) of
              Return r \<Rightarrow> Some r
            | Continue st \<Rightarrow> header_loop mem buf len num mx policy st)"
  using header_step_in [OF assms, of num policy] assms(2)
  by (simp add: header_loop.simps split: ctl.split prod.split)

text \<open>
  The shape of every result: defined, the array keeps its length, and
  \<open>*num_headers\<close>, \<open>*block_end\<close> are written exactly when the status is OK or INCOMPLETE.
\<close>

definition block_result_ok ::
    "nat \<Rightarrow> nat \<Rightarrow> nat \<Rightarrow> nat \<Rightarrow> nat \<Rightarrow> block_state \<Rightarrow> block_result \<Rightarrow> bool" where
  "block_result_ok lo buf len num mx = (\<lambda>(hs, c, pos) (st, hs', c', e).
     length hs' = length hs \<and>
     (if st = IHTP_OK \<or> st = IHTP_INCOMPLETE
      then c \<le> c' \<and> pos \<le> e \<and> e \<le> len \<and> headers_ok lo (buf + e) mx hs' c' \<and> (st = IHTP_OK \<longrightarrow> pos < e)
      else c' = num \<and> e = 0 \<and> headers_ok lo (buf + len) mx hs' c))"

lemma headers_ok_update_free:
  "headers_ok lo hi mx hs c \<Longrightarrow> headers_ok lo hi mx (hs[c := h]) c"
  by (simp add: headers_ok_def)

lemma headers_ok_le: "headers_ok lo hi mx hs c \<Longrightarrow> c' \<le> c \<Longrightarrow> headers_ok lo hi mx hs c'"
  by (auto simp: headers_ok_def)

lemma classify_not_malformed_ok: "classify policy s \<noteq> Malformed IHTP_OK \<and> classify policy s \<noteq> Malformed IHTP_INCOMPLETE"
  using line_end_ref_Inl [of policy s] by (auto simp: classify_def split: sum.splits option.splits)

lemma block_result_ok_step:
  assumes "block_result_ok lo buf len num mx (hs', c', pos') r" and "length hs' = length hs"
    and "c \<le> c'" and "pos \<le> pos'"
  shows "block_result_ok lo buf len num mx (hs, c, pos) r"
  using assms by (cases r) (auto simp: block_result_ok_def intro: headers_ok_le split: if_splits)

lemma header_loop_ok:
  assumes "buf + len \<le> length mem" and "pos \<le> len" and "headers_ok lo (buf + pos) mx hs c"
    and "lo \<le> buf"
  shows "\<exists>r. header_loop mem buf len num mx policy (hs, c, pos) = Some r
           \<and> block_result_ok lo buf len num mx (hs, c, pos) r"
  using assms(2,3)
proof (induction "len - pos" arbitrary: hs c pos rule: less_induct)
  case less
  note ok = less.prems(2)
  show ?case
  proof (cases "pos < len")
    case False
    with less.prems show ?thesis by (simp add: block_result_ok_def)
  next
    case True
    let ?s = "span mem (buf + pos) (len - pos)"
    note step = header_loop_step [OF assms(1) True ok, of num policy]
    have len: "length ?s = len - pos" using assms(1) True by simp
    have ok': "headers_ok lo (buf + len) mx hs c" using ok True headers_ok_mono by fastforce
    show ?thesis
    proof (cases "classify policy ?s")
      case (Malformed st)
      then show ?thesis
        using step ok' classify_not_malformed_ok [of policy ?s]
        by (auto simp: step_result_def block_result_ok_def)
    next
      case Unfinished
      with step ok True show ?thesis by (simp add: step_result_def block_result_ok_def)
    next
      case (End k)
      with classify_bounds(3) [OF End] len True have "pos < pos + k" "pos + k \<le> len" by auto
      moreover have "headers_ok lo (buf + (pos + k)) mx hs c" by (rule headers_ok_mono [OF ok]) simp
      ultimately show ?thesis
        using step End by (simp add: step_result_def block_result_ok_def)
    next
      case (Fold l k)
      with classify_bounds(1) [OF Fold] len have l: "0 < l" "0 < k" "pos + (l + k) \<le> len" using True by auto
      show ?thesis
      proof (cases "c = 0")
        case True
        with step Fold ok' show ?thesis by (simp add: step_result_def block_result_ok_def)
      next
        case False
        let ?hs = "hs[c - 1 := extend_header (buf + pos + l) (hs ! (c - 1))]"
        have "headers_ok lo (buf + (pos + (l + k))) mx ?hs c"
          by (rule headers_ok_fold [OF ok False]) simp_all
        moreover have "len - (pos + (l + k)) < len - pos" using l by linarith
        ultimately
        obtain r where r: "header_loop mem buf len num mx policy (?hs, c, pos + (l + k)) = Some r"
          "block_result_ok lo buf len num mx (?hs, c, pos + (l + k)) r"
          using less.hyps [of "pos + (l + k)" ?hs c] l by blast
        have "block_result_ok lo buf len num mx (hs, c, pos) r"
          by (rule block_result_ok_step [OF r(2)]) simp_all
        with r(1) step Fold False show ?thesis by (simp add: step_result_def)
      qed
    next
      case (Field n okv l k)
      with classify_bounds(2) [OF Field] len
      have l: "0 < n" "n < l" "0 < k" "pos + (l + k) \<le> len" using True by auto
      show ?thesis
      proof (cases "c \<ge> mx \<or> \<not> okv")
        case True
        with step Field ok' show ?thesis
          by (auto simp: step_result_def block_result_ok_def intro: headers_ok_update_free)
      next
        case False
        let ?raw = "drop (Suc n) (take l ?s)"
        let ?hs = "hs[c := field_header (buf + pos) n ?raw]"
        have "headers_ok lo (buf + (pos + (l + k))) mx ?hs (Suc c)"
          using False l assms(1,4) \<open>pos < len\<close> by (intro headers_ok_field [OF ok]) auto
        moreover have "len - (pos + (l + k)) < len - pos" using l by linarith
        ultimately
        obtain r where r: "header_loop mem buf len num mx policy (?hs, Suc c, pos + (l + k)) = Some r"
          "block_result_ok lo buf len num mx (?hs, Suc c, pos + (l + k)) r"
          using less.hyps [of "pos + (l + k)" ?hs "Suc c"] l by blast
        have "block_result_ok lo buf len num mx (hs, c, pos) r"
          by (rule block_result_ok_step [OF r(2)]) simp_all
        with r(1) step Field False show ?thesis by (simp add: step_result_def)
      qed
    qed
  qed
qed


section \<open>Frame\<close>

lemma ub_le_header_step [ub_mono]:
  "ub_le (header_step mem buf len num mx policy st) (header_step (mem @ ys) buf len num mx policy st)"
  unfolding header_step_def by (intro ub_mono)

lemma ub_le_header_loop [ub_mono]:
  "ub_le (header_loop mem buf len num mx policy st) (header_loop (mem @ ys) buf len num mx policy st)"
proof (induction mem buf len num mx policy st rule: header_loop.induct)
  case (1 mem buf len num mx policy hs c pos)
  show ?case
    unfolding header_loop.simps [of mem buf len num mx policy hs c pos]
      header_loop.simps [of "mem @ ys" buf len num mx policy hs c pos]
    by (intro ub_mono "1.IH"; (assumption | (rule sym, assumption))?)
qed

lemma ub_le_parse_header_block [ub_mono]:
  "ub_le (parse_header_block mem buf len hs c num mx policy)
         (parse_header_block (mem @ ys) buf len hs c num mx policy)"
  unfolding parse_header_block_def by (intro ub_mono)

section \<open>The grammar of a header block\<close>

text \<open>
  \<open>header_lines policy mx p st ls st'\<close>: the complete lines \<open>ls\<close>, at position \<open>p\<close>, take the
  header array and count \<open>st\<close> to \<open>st'\<close>.  A line is a field line or, where the policy allows
  it, the continuation of the field before it.
\<close>

definition header_line_ok :: "ihtp_policy_t option \<Rightarrow> byte list \<Rightarrow> byte list \<Rightarrow> bool" where
  "header_line_ok policy line eol \<longleftrightarrow>
     eol_ok policy line eol \<and> line \<noteq> [] \<and> length line \<le> IHTP_MAX_HEADER_LINE"

definition field_line :: "byte list \<Rightarrow> byte list \<Rightarrow> byte list \<Rightarrow> bool" where
  "field_line line name raw \<longleftrightarrow>
     line = name @ COLON # raw \<and> name \<noteq> [] \<and> list_all tchar name \<and> list_all text_byte (trim_ows raw)"

definition fold_line :: "ihtp_policy_t option \<Rightarrow> byte list \<Rightarrow> bool" where
  "fold_line policy line \<longleftrightarrow>
     \<not> policy_flag reject_obs_fold policy \<and> line \<noteq> [] \<and> ihtp_is_lws (hd line) \<and> list_all text_byte line"

inductive header_lines ::
    "ihtp_policy_t option \<Rightarrow> nat \<Rightarrow> nat \<Rightarrow> ihtp_header_t list \<times> nat \<Rightarrow> byte list \<Rightarrow>
       ihtp_header_t list \<times> nat \<Rightarrow> bool"
  for policy mx where
  no_line: "header_lines policy mx p st [] st"
| a_field: "header_line_ok policy line eol \<Longrightarrow> field_line line name raw \<Longrightarrow> c < mx \<Longrightarrow>
    header_lines policy mx (p + length line + length eol)
      (hs[c := field_header p (length name) raw], Suc c) ls st' \<Longrightarrow>
    header_lines policy mx p (hs, c) (line @ eol @ ls) st'"
| a_fold: "header_line_ok policy line eol \<Longrightarrow> fold_line policy line \<Longrightarrow> c \<noteq> 0 \<Longrightarrow>
    header_lines policy mx (p + length line + length eol)
      (hs[c - 1 := extend_header (p + length line) (hs ! (c - 1))], c) ls st' \<Longrightarrow>
    header_lines policy mx p (hs, c) (line @ eol @ ls) st'"

inductive_cases header_lines_NilE: "header_lines policy mx p st [] st'"

lemma eol_nonempty: "eol_ok policy line eol \<Longrightarrow> 0 < length eol"
  by (auto simp: eol_ok_def)

lemma tchar_not_lws: "tchar c \<Longrightarrow> \<not> ihtp_is_lws c"
  using tchar_not_special by (auto simp: ihtp_is_lws_def)

lemma eol_hd_not_lws: "eol_ok policy [] eol \<Longrightarrow> \<not> ihtp_is_lws (hd (eol @ rest))"
  by (auto simp: eol_ok_def ihtp_is_lws_def)

lemma line_end_ref_line:
  "eol_ok policy line eol \<Longrightarrow> line_end_ref policy (line @ eol @ rest) = Inr (length line, length eol)"
  by (auto simp: line_end_ref_iff)

lemma classify_field:
  assumes "header_line_ok policy line eol" and "line = name @ COLON # raw" and "name \<noteq> []"
    and "list_all tchar name"
  shows "classify policy (line @ eol @ rest) =
           Field (length name) (list_all text_byte (trim_ows raw)) (length line) (length eol)"
proof -
  have "hd (line @ eol @ rest) = hd name" using assms by simp
  moreover have "\<not> ihtp_is_lws (hd name)" using assms by (intro tchar_not_lws) (simp add: list_all_iff)
  ultimately have h: "\<not> ihtp_is_lws (hd (line @ eol @ rest))" by simp
  have "\<not> tchar COLON" using tchar_not_special by blast
  then have "token_before COLON line = Some (length name)"
    using assms by (auto simp: token_before_iff)
  moreover have "drop (Suc (length name)) line = raw" using assms by simp
  moreover have "length line \<le> IHTP_MAX_HEADER_LINE" "line \<noteq> []" "eol_ok policy line eol"
    using assms(1) by (simp_all add: header_line_ok_def)
  ultimately show ?thesis
    using h by (simp add: classify_def line_end_ref_line)
qed

lemma classify_fold:
  assumes "header_line_ok policy line eol" and "fold_line policy line"
  shows "classify policy (line @ eol @ rest) = Fold (length line) (length eol)"
proof -
  have "hd (line @ eol @ rest) = hd line" using assms by (simp add: fold_line_def)
  with assms show ?thesis
    by (simp add: classify_def line_end_ref_line header_line_ok_def fold_line_def)
qed

lemma classify_end:
  assumes "eol_ok policy [] eol"
  shows "classify policy (eol @ rest) = End (length eol)"
  using line_end_ref_line [OF assms, of rest] eol_hd_not_lws [OF assms, of rest]
  by (simp add: classify_def)

lemma classify_Inr:
  assumes "classify policy s \<in> {End k, Fold l k, Field n ok l k}"
  obtains line eol rest where "s = line @ eol @ rest" "eol_ok policy line eol"
    "length eol = k" "line_end_ref policy s = Inr (length line, k)"
    "length line \<le> IHTP_MAX_HEADER_LINE"
proof -
  from assms obtain l' k' where l: "line_end_ref policy s = Inr (l', k')" "l' \<le> IHTP_MAX_HEADER_LINE" "k' = k"
    by (auto simp: classify_def split: if_splits sum.splits option.splits)
  then obtain line eol rest where "s = line @ eol @ rest" "length line = l'" "length eol = k'"
    "eol_ok policy line eol" by (auto simp: line_end_ref_iff)
  with l that show ?thesis by blast
qed

lemma classify_FieldD:
  assumes "classify policy s = Field n ok l k"
  obtains line eol rest name raw where "s = line @ eol @ rest" "header_line_ok policy line eol"
    "line = name @ COLON # raw" "name \<noteq> []" "list_all tchar name" "length name = n"
    "ok = list_all text_byte (trim_ows raw)" "length line = l" "length eol = k"
proof -
  from assms have "classify policy s \<in> {End k, Fold l k, Field n ok l k}" by simp
  then obtain line eol rest where s: "s = line @ eol @ rest" "eol_ok policy line eol"
    "length eol = k" "line_end_ref policy s = Inr (length line, k)" "length line \<le> IHTP_MAX_HEADER_LINE"
    by (rule classify_Inr)
  with assms have f: "length line = l" "l \<noteq> 0" "token_before COLON (take l s) = Some n"
    "ok = list_all text_byte (trim_ows (drop (Suc n) (take l s)))"
    by (auto simp: classify_def split: if_splits option.splits)
  then have tk: "take l s = line" using s by simp
  have "\<not> tchar COLON" using tchar_not_special by blast
  with f tk obtain name raw where "line = name @ COLON # raw" "length name = n" "name \<noteq> []" "list_all tchar name"
    by (auto simp: token_before_iff)
  with s f tk that show ?thesis by (simp add: header_line_ok_def)
qed

lemma classify_FoldD:
  assumes "classify policy s = Fold l k"
  obtains line eol rest where "s = line @ eol @ rest" "header_line_ok policy line eol"
    "fold_line policy line" "length line = l" "length eol = k"
proof -
  from assms have "classify policy s \<in> {End k, Fold l k, Field 0 True l k}" by simp
  then obtain line eol rest where s: "s = line @ eol @ rest" "eol_ok policy line eol"
    "length eol = k" "line_end_ref policy s = Inr (length line, k)" "length line \<le> IHTP_MAX_HEADER_LINE"
    by (rule classify_Inr)
  with assms have f: "length line = l" "l \<noteq> 0" "ihtp_is_lws (hd s)" "list_all text_byte (take l s)"
    "\<not> policy_flag reject_obs_fold policy"
    by (auto simp: classify_def split: if_splits option.splits)
  then have "take l s = line" "hd s = hd line" using s by auto
  with s f that show ?thesis by (auto simp: header_line_ok_def fold_line_def)
qed

lemma classify_EndD:
  assumes "classify policy s = End k"
  obtains eol rest where "s = eol @ rest" "eol_ok policy [] eol" "length eol = k"
proof -
  from assms have "classify policy s \<in> {End k, Fold 0 k, Field 0 True 0 k}" by simp
  then obtain line eol rest where s: "s = line @ eol @ rest" "eol_ok policy line eol"
    "length eol = k" "line_end_ref policy s = Inr (length line, k)" "length line \<le> IHTP_MAX_HEADER_LINE"
    by (rule classify_Inr)
  with assms have "line = []"
    by (auto simp: classify_def split: if_splits option.splits)
  with s that show ?thesis by simp
qed


text \<open>Every run reads some complete lines and stops at the rest.\<close>

lemma span_shift:
  assumes "span mem p n = xs @ ys" and "p + n \<le> length mem"
  shows "span mem (p + length xs) (n - length xs) = ys" and "length xs \<le> n"
proof -
  have "length (span mem p n) = n" using assms(2) by simp
  with assms(1) show "length xs \<le> n" by simp
  show "span mem (p + length xs) (n - length xs) = ys"
    using drop_span [of "length xs" mem p n] assms(1) by simp
qed

lemma step_field:
  assumes "header_line_ok policy line eol" and "field_line line name raw" and "c < mx"
  shows "step_result buf num mx (line @ eol @ rest) (classify policy (line @ eol @ rest)) (hs, c, pos) =
           Continue (hs[c := field_header (buf + pos) (length name) raw], Suc c,
                     pos + (length line + length eol))"
proof -
  have l: "line = name @ COLON # raw" "name \<noteq> []" "list_all tchar name" "list_all text_byte (trim_ows raw)"
    using assms(2) by (simp_all add: field_line_def)
  then have "drop (Suc (length name)) line = raw" by simp
  with classify_field [OF assms(1) l(1-3), of rest] l(4) assms(3) show ?thesis
    by (simp add: step_result_def)
qed

lemma step_fold:
  assumes "header_line_ok policy line eol" and "fold_line policy line" and "c \<noteq> 0"
  shows "step_result buf num mx (line @ eol @ rest) (classify policy (line @ eol @ rest)) (hs, c, pos) =
           Continue (hs[c - 1 := extend_header (buf + pos + length line) (hs ! (c - 1))], c,
                     pos + (length line + length eol))"
  using classify_fold [OF assms(1,2), of rest] assms(3) by (simp add: step_result_def)

text \<open>The converse: a pass that goes on has read a line of the grammar.\<close>

lemma step_continue:
  assumes "step_result buf num mx s (classify policy s) (hs, c, pos) = Continue (hs1, c1, pos1)"
  obtains line eol rest where "s = line @ eol @ rest" "header_line_ok policy line eol"
    "pos1 = pos + length line + length eol" "line @ eol \<noteq> []"
    "\<And>ls st'. header_lines policy mx (buf + pos1) (hs1, c1) ls st' \<Longrightarrow>
       header_lines policy mx (buf + pos) (hs, c) (line @ eol @ ls) st'"
    "\<And>lo. headers_ok lo (buf + pos) mx hs c \<Longrightarrow> lo \<le> buf \<Longrightarrow> headers_ok lo (buf + pos1) mx hs1 c1"
proof -
  consider (field) n l k where "classify policy s = Field n True l k" "c < mx"
      "hs1 = hs[c := field_header (buf + pos) n (drop (Suc n) (take l s))]" "c1 = Suc c" "pos1 = pos + (l + k)"
    | (fold) l k where "classify policy s = Fold l k" "c \<noteq> 0"
      "hs1 = hs[c - 1 := extend_header (buf + pos + l) (hs ! (c - 1))]" "c1 = c" "pos1 = pos + (l + k)"
  proof (cases "classify policy s")
    case (Field n ok l k)
    with assms have "ok" "c < mx" "hs1 = hs[c := field_header (buf + pos) n (drop (Suc n) (take l s))]"
      "c1 = Suc c" "pos1 = pos + (l + k)"
      by (simp_all add: step_result_def split: if_split_asm)
    with Field that(1) show ?thesis by simp
  next
    case (Fold l k)
    with assms have "c \<noteq> 0" "hs1 = hs[c - 1 := extend_header (buf + pos + l) (hs ! (c - 1))]"
      "c1 = c" "pos1 = pos + (l + k)"
      by (auto simp: step_result_def split: if_split_asm)
    with Fold that(2) show ?thesis by simp
  qed (use assms in \<open>simp_all add: step_result_def\<close>)
  then show ?thesis
  proof cases
    case field
    from field(1) obtain line eol rest name raw
      where l: "s = line @ eol @ rest" "header_line_ok policy line eol" "line = name @ COLON # raw"
        "name \<noteq> []" "list_all tchar name" "length name = n" "True = list_all text_byte (trim_ows raw)"
        "length line = l" "length eol = k" by (rule classify_FieldD)
    then have f: "field_line line name raw" by (simp add: field_line_def)
    have "take l s = line" using l(1,8) by simp
    moreover have "drop (Suc n) line = raw" using l(3,6) by simp
    ultimately have raw: "drop (Suc n) (take l s) = raw" by simp
    have p: "buf + pos + length line + length eol = buf + pos1" using l(8,9) field(5) by simp
    have "header_lines policy mx (buf + pos) (hs, c) (line @ eol @ ls) st'"
      if "header_lines policy mx (buf + pos1) (hs1, c1) ls st'" for ls st'
      using a_field [OF l(2) f field(2), of "buf + pos" hs ls st'] that
      by (simp only: p field(3,4) raw l(6))
    moreover have "headers_ok lo (buf + pos1) mx hs1 c1"
      if "headers_ok lo (buf + pos) mx hs c" "lo \<le> buf" for lo
    proof -
      have "buf + pos + n + 1 + length raw \<le> buf + pos1" using l field(5) by auto
      then show ?thesis
        using headers_ok_field [OF that(1) field(2), of n raw "buf + pos1"] that(2) l(4,6) field(3,4) raw
        by auto
    qed
    moreover have "line @ eol \<noteq> []" using l(3) by simp
    moreover have "pos1 = pos + length line + length eol" using p by simp
    ultimately show ?thesis using that [OF l(1,2)] by blast
  next
    case fold
    from fold(1) obtain line eol rest
      where l: "s = line @ eol @ rest" "header_line_ok policy line eol" "fold_line policy line"
        "length line = l" "length eol = k" by (rule classify_FoldD)
    have p: "buf + pos + l + length eol = buf + pos1" using l(4,5) fold(5) by simp
    have "header_lines policy mx (buf + pos) (hs, c) (line @ eol @ ls) st'"
      if "header_lines policy mx (buf + pos1) (hs1, c1) ls st'" for ls st'
      using a_fold [OF l(2,3) fold(2), of mx "buf + pos" hs ls st'] that
      by (simp only: l(4) p fold(3,4))
    moreover have "headers_ok lo (buf + pos1) mx hs1 c1" if "headers_ok lo (buf + pos) mx hs c" for lo
      using headers_ok_fold [OF that fold(2), of "buf + pos + l" "buf + pos1"] fold(3,4,5) by simp
    moreover have "line @ eol \<noteq> []" using l(3) by (simp add: fold_line_def)
    moreover have "pos1 = pos + length line + length eol" using p l(4) by simp
    ultimately show ?thesis using that [OF l(1,2)] by blast
  qed
qed

lemma step_continue_ok:
  assumes "step_result buf num mx s (classify policy s) (hs, c, pos) = Continue (hs1, c1, pos1)"
    and "headers_ok lo (buf + pos) mx hs c" and "lo \<le> buf"
  shows "pos < pos1 \<and> headers_ok lo (buf + pos1) mx hs1 c1"
  using assms(1)
proof (rule step_continue)
  fix line eol rest
  assume p1: "pos1 = pos + length line + length eol" "line @ eol \<noteq> []"
    and hok: "\<And>lo. headers_ok lo (buf + pos) mx hs c \<Longrightarrow> lo \<le> buf \<Longrightarrow> headers_ok lo (buf + pos1) mx hs1 c1"
  have "0 < length (line @ eol)" using p1(2) by blast
  then show ?thesis using p1(1) hok [OF assms(2,3)] unfolding length_append by linarith
qed

lemma header_loop_run:
  assumes "buf + len \<le> length mem" and "pos \<le> len" and "headers_ok lo (buf + pos) mx hs c" and "lo \<le> buf"
  obtains ls rest hs1 c1 where "span mem (buf + pos) (len - pos) = ls @ rest"
    and "header_lines policy mx (buf + pos) (hs, c) ls (hs1, c1)"
    and "headers_ok lo (buf + (pos + length ls)) mx hs1 c1"
    and "rest = [] \<and> header_loop mem buf len num mx policy (hs, c, pos) =
             Some (IHTP_INCOMPLETE, hs1, c1, pos + length ls)
       \<or> (\<exists>r. rest \<noteq> [] \<and> header_loop mem buf len num mx policy (hs, c, pos) = Some r
             \<and> step_result buf num mx rest (classify policy rest) (hs1, c1, pos + length ls) = Return r)"
proof -
  have "\<exists>ls rest hs1 c1. span mem (buf + pos) (len - pos) = ls @ rest
      \<and> header_lines policy mx (buf + pos) (hs, c) ls (hs1, c1)
      \<and> headers_ok lo (buf + (pos + length ls)) mx hs1 c1
      \<and> (rest = [] \<and> header_loop mem buf len num mx policy (hs, c, pos) =
             Some (IHTP_INCOMPLETE, hs1, c1, pos + length ls)
         \<or> (\<exists>r. rest \<noteq> [] \<and> header_loop mem buf len num mx policy (hs, c, pos) = Some r
             \<and> step_result buf num mx rest (classify policy rest) (hs1, c1, pos + length ls) = Return r))"
    (is "?goal hs c pos")
    using assms(2,3)
  proof (induction "len - pos" arbitrary: hs c pos rule: less_induct)
    case less
    show ?case
    proof (cases "pos < len")
      case False
      with less.prems show ?thesis
        by (intro exI [of _ "[]"] exI [of _ hs] exI [of _ c]) (simp add: no_line)
    next
      case True
      let ?s = "span mem (buf + pos) (len - pos)"
      have "length ?s = len - pos" using assms(1) True by simp
      then have "?s \<noteq> []" using True by (metis list.size(3) zero_less_diff less_irrefl)
      moreover have "buf + pos + (len - pos) \<le> length mem" using assms(1) True by simp
      ultimately have b: "buf + pos + (len - pos) \<le> length mem" "?s \<noteq> []" by blast+
      note step = header_loop_step [OF assms(1) True less.prems(2), of num policy]
      show ?thesis
      proof (cases "step_result buf num mx ?s (classify policy ?s) (hs, c, pos)")
        case (Return r)
        with step have "header_loop mem buf len num mx policy (hs, c, pos) = Some r" by simp
        with Return b less.prems show ?thesis
          by - (rule exI [of _ "[]"], rule exI [of _ ?s], rule exI [of _ hs], rule exI [of _ c],
            cases r, simp add: no_line)
      next
        case (Continue st1)
        then obtain hs1 c1 pos1
          where cont: "step_result buf num mx ?s (classify policy ?s) (hs, c, pos) = Continue (hs1, c1, pos1)"
          by (cases st1) auto
        from step_continue [OF cont] obtain line eol rest
          where s: "?s = line @ eol @ rest" and p1: "pos1 = pos + length line + length eol" "line @ eol \<noteq> []"
            and lines: "\<And>ls st'. header_lines policy mx (buf + pos1) (hs1, c1) ls st' \<Longrightarrow>
              header_lines policy mx (buf + pos) (hs, c) (line @ eol @ ls) st'"
            and hok: "headers_ok lo (buf + pos) mx hs c \<Longrightarrow> lo \<le> buf \<Longrightarrow> headers_ok lo (buf + pos1) mx hs1 c1"
          by metis
        have sh: "span mem (buf + pos1) (len - pos1) = rest" and "pos1 \<le> len"
          using span_shift [of mem "buf + pos" "len - pos" "line @ eol" rest] s b p1 True
          by (auto simp: add_ac)
        moreover have "0 < length (line @ eol)" using p1(2) by blast
        then have "len - pos1 < len - pos"
          using p1(1) \<open>pos1 \<le> len\<close> unfolding length_append by linarith
        ultimately have "?goal hs1 c1 pos1"
          using less.hyps hok less.prems assms(4) by blast
        then obtain ls rest' hs2 c2 where g: "rest = ls @ rest'"
          "header_lines policy mx (buf + pos1) (hs1, c1) ls (hs2, c2)"
          "headers_ok lo (buf + (pos1 + length ls)) mx hs2 c2"
          "rest' = [] \<and> header_loop mem buf len num mx policy (hs1, c1, pos1) =
             Some (IHTP_INCOMPLETE, hs2, c2, pos1 + length ls)
           \<or> (\<exists>r. rest' \<noteq> [] \<and> header_loop mem buf len num mx policy (hs1, c1, pos1) = Some r
             \<and> step_result buf num mx rest' (classify policy rest') (hs2, c2, pos1 + length ls) = Return r)"
          unfolding sh by blast
        have e: "pos + length (line @ eol @ ls) = pos1 + length ls" using p1 by simp
        have H: "header_loop mem buf len num mx policy (hs, c, pos) =
            header_loop mem buf len num mx policy (hs1, c1, pos1)" using step cont by simp
        have sp: "?s = (line @ eol @ ls) @ rest'" using s g(1) by simp
        show ?thesis
          by (rule exI [of _ "line @ eol @ ls"], rule exI [of _ rest'], rule exI [of _ hs2],
              rule exI [of _ c2], unfold e H, intro conjI, rule sp, rule lines [OF g(2)], rule g(3), rule g(4))
      qed
    qed
  qed
  then show ?thesis using that by blast
qed


lemma header_loop_lines:
  assumes "header_lines policy mx p st ls st'"
    and "p = buf + pos" and "span mem p (len - pos) = ls @ rest" and "pos \<le> len" and "buf + len \<le> length mem"
    and "headers_ok lo p mx (fst st) (snd st)" and "lo \<le> buf"
  shows "header_loop mem buf len num mx policy (fst st, snd st, pos) =
           header_loop mem buf len num mx policy (fst st', snd st', pos + length ls)
         \<and> headers_ok lo (p + length ls) mx (fst st') (snd st')"
  using assms
proof (induction arbitrary: pos rule: header_lines.induct)
  case (no_line p st)
  then show ?case by simp
next
  case (a_field line eol name raw c p hs ls st')
  have s: "span mem (buf + pos) (len - pos) = line @ eol @ ls @ rest" using a_field.prems by simp
  have lpos: "0 < length line" using a_field.hyps(1) by (simp add: header_line_ok_def)
  have b: "buf + pos + (len - pos) \<le> length mem" using a_field.prems by simp
  have sh: "span mem (buf + (pos + (length line + length eol))) (len - (pos + (length line + length eol))) = ls @ rest"
    and le: "length line + length eol \<le> len - pos"
    using span_shift [of mem "buf + pos" "len - pos" "line @ eol" "ls @ rest"] s b by (simp_all add: add.assoc)
  have lt: "pos < len" using le lpos by linarith
  let ?hs = "hs[c := field_header p (length name) raw]"
  have ok: "headers_ok lo (p + length line + length eol) mx ?hs (Suc c)"
    using a_field.hyps a_field.prems
    by (intro headers_ok_field [of lo p]) (auto simp: field_line_def)
  have "header_loop mem buf len num mx policy (hs, c, pos) =
      header_loop mem buf len num mx policy (?hs, Suc c, pos + (length line + length eol))"
    using header_loop_step [of buf len mem pos lo mx hs c num policy] a_field.prems lt
      step_field [OF a_field.hyps(1-3), of buf num "ls @ rest" hs pos] s by simp
  moreover have "header_loop mem buf len num mx policy (?hs, Suc c, pos + (length line + length eol)) =
      header_loop mem buf len num mx policy
        (fst st', snd st', pos + (length line + length eol) + length ls)
      \<and> headers_ok lo (p + length line + length eol + length ls) mx (fst st') (snd st')"
    using a_field.IH [of "pos + (length line + length eol)"] a_field.prems sh le ok by (simp add: add.assoc)
  ultimately show ?case by (simp add: add.assoc)
next
  case (a_fold line eol c p hs ls st')
  have s: "span mem (buf + pos) (len - pos) = line @ eol @ ls @ rest" using a_fold.prems by simp
  have lpos: "0 < length line" using a_fold.hyps(1) by (simp add: header_line_ok_def)
  have b: "buf + pos + (len - pos) \<le> length mem" using a_fold.prems by simp
  have sh: "span mem (buf + (pos + (length line + length eol))) (len - (pos + (length line + length eol))) = ls @ rest"
    and le: "length line + length eol \<le> len - pos"
    using span_shift [of mem "buf + pos" "len - pos" "line @ eol" "ls @ rest"] s b by (simp_all add: add.assoc)
  have lt: "pos < len" using le lpos by linarith
  let ?hs = "hs[c - 1 := extend_header (p + length line) (hs ! (c - 1))]"
  have ok: "headers_ok lo (p + length line + length eol) mx ?hs c"
    using a_fold.hyps a_fold.prems
    by (intro headers_ok_fold [of lo p]) auto
  have "header_loop mem buf len num mx policy (hs, c, pos) =
      header_loop mem buf len num mx policy (?hs, c, pos + (length line + length eol))"
    using header_loop_step [of buf len mem pos lo mx hs c num policy] a_fold.prems lt
      step_fold [OF a_fold.hyps(1-3), of buf num mx "ls @ rest" hs pos] s by simp
  moreover have "header_loop mem buf len num mx policy (?hs, c, pos + (length line + length eol)) =
      header_loop mem buf len num mx policy
        (fst st', snd st', pos + (length line + length eol) + length ls)
      \<and> headers_ok lo (p + length line + length eol + length ls) mx (fst st') (snd st')"
    using a_fold.IH [of "pos + (length line + length eol)"] a_fold.prems sh le ok by (simp add: add.assoc)
  ultimately show ?case by (simp add: add.assoc)
qed

section \<open>What parse_header_block accepts\<close>

lemma parse_header_block_safe:
  assumes "p + n \<le> length mem" and "headers_ok lo p mx hs c" and "lo \<le> p"
  shows "\<exists>r. parse_header_block mem p n hs c num mx policy = Some r
           \<and> block_result_ok lo p n num mx (hs, c, 0) r"
  using header_loop_ok [of p n mem 0 lo mx hs c num policy] assms
  by (simp add: parse_header_block_def)

lemma header_block_ok_iff:
  assumes "p + n \<le> length mem" and "headers_ok lo p mx hs c" and "lo \<le> p"
  shows "parse_header_block mem p n hs c num mx policy = Some (IHTP_OK, hs', c', e) \<longleftrightarrow>
           (\<exists>ls eol rest. span mem p n = ls @ eol @ rest
              \<and> header_lines policy mx p (hs, c) ls (hs', c')
              \<and> eol_ok policy [] eol \<and> e = length ls + length eol)"
proof
  assume ok: "parse_header_block mem p n hs c num mx policy = Some (IHTP_OK, hs', c', e)"
  from header_loop_run [of p n mem 0 lo mx hs c policy num] assms
  obtain ls rest hs1 c1 where s: "span mem p n = ls @ rest"
    and lines: "header_lines policy mx p (hs, c) ls (hs1, c1)"
    and r: "rest = [] \<and> header_loop mem p n num mx policy (hs, c, 0) = Some (IHTP_INCOMPLETE, hs1, c1, length ls)
       \<or> (\<exists>r. rest \<noteq> [] \<and> header_loop mem p n num mx policy (hs, c, 0) = Some r
             \<and> step_result p num mx rest (classify policy rest) (hs1, c1, length ls) = Return r)"
    by (metis add_0 add_0_right diff_zero zero_le)
  with ok have ret: "step_result p num mx rest (classify policy rest) (hs1, c1, length ls) =
      Return (IHTP_OK, hs', c', e)"
    by (auto simp: parse_header_block_def)
  have "\<exists>k. classify policy rest = End k \<and> hs1 = hs' \<and> c1 = c' \<and> e = length ls + k"
    using ret classify_not_malformed_ok [of policy rest]
    by (cases "classify policy rest") (auto simp: step_result_def split: if_splits)
  then obtain k where k: "classify policy rest = End k" and eqs: "hs1 = hs'" "c1 = c'" "e = length ls + k"
    by blast
  from k obtain eol rest' where "rest = eol @ rest'" "eol_ok policy [] eol" "length eol = k"
    by (rule classify_EndD)
  with s lines eqs show "\<exists>ls eol rest. span mem p n = ls @ eol @ rest
              \<and> header_lines policy mx p (hs, c) ls (hs', c')
              \<and> eol_ok policy [] eol \<and> e = length ls + length eol"
    by blast
next
  assume "\<exists>ls eol rest. span mem p n = ls @ eol @ rest
              \<and> header_lines policy mx p (hs, c) ls (hs', c')
              \<and> eol_ok policy [] eol \<and> e = length ls + length eol"
  then obtain ls eol rest where s: "span mem p n = ls @ eol @ rest"
    and lines: "header_lines policy mx p (hs, c) ls (hs', c')"
    and eol: "eol_ok policy [] eol" "e = length ls + length eol" by blast
  have run: "header_loop mem p n num mx policy (hs, c, 0) =
      header_loop mem p n num mx policy (hs', c', length ls)"
    and ok: "headers_ok lo (p + length ls) mx hs' c'"
    using header_loop_lines [OF lines, of p 0 mem n "eol @ rest" lo num] s assms by simp_all
  have sh: "span mem (p + length ls) (n - length ls) = eol @ rest" and "length ls \<le> n"
    using span_shift [of mem p n ls "eol @ rest"] s assms by simp_all
  have "0 < length eol" using eol_nonempty [OF eol(1)] .
  moreover have "length (ls @ eol @ rest) = n" unfolding s [symmetric] using assms by simp
  ultimately have "length ls < n" unfolding length_append by linarith
  with header_loop_step [OF assms(1) this ok, of num policy] classify_end [OF eol(1), of rest] sh
  show "parse_header_block mem p n hs c num mx policy = Some (IHTP_OK, hs', c', e)"
    by (simp add: parse_header_block_def run step_result_def eol(2))
qed

lemma classify_Unfinished_iff:
  "classify policy s = Unfinished \<longleftrightarrow>
     LF \<notin> set s \<and> length s \<le> IHTP_MAX_HEADER_LINE \<and>
     \<not> (policy_flag reject_obs_fold policy \<and> ihtp_is_lws (hd s))"
  using index_of_None_iff [of "\<lambda>b. b = LF" s]
  by (auto simp: classify_def line_end_ref_def split: option.splits if_splits)

lemma header_block_incomplete_iff:
  assumes "p + n \<le> length mem" and "headers_ok lo p mx hs c" and "lo \<le> p"
  shows "parse_header_block mem p n hs c num mx policy = Some (IHTP_INCOMPLETE, hs', c', e) \<longleftrightarrow>
           (\<exists>ls rest. span mem p n = ls @ rest
              \<and> header_lines policy mx p (hs, c) ls (hs', c') \<and> e = length ls
              \<and> (rest = [] \<or> classify policy rest = Unfinished))"
proof
  assume ok: "parse_header_block mem p n hs c num mx policy = Some (IHTP_INCOMPLETE, hs', c', e)"
  from header_loop_run [of p n mem 0 lo mx hs c policy num] assms
  obtain ls rest hs1 c1 where s: "span mem p n = ls @ rest"
    and lines: "header_lines policy mx p (hs, c) ls (hs1, c1)"
    and r: "rest = [] \<and> header_loop mem p n num mx policy (hs, c, 0) = Some (IHTP_INCOMPLETE, hs1, c1, length ls)
       \<or> (\<exists>r. rest \<noteq> [] \<and> header_loop mem p n num mx policy (hs, c, 0) = Some r
             \<and> step_result p num mx rest (classify policy rest) (hs1, c1, length ls) = Return r)"
    by (metis add_0 add_0_right diff_zero zero_le)
  have "hs1 = hs' \<and> c1 = c' \<and> e = length ls \<and> (rest = [] \<or> classify policy rest = Unfinished)"
    using r
  proof
    assume "rest = [] \<and> header_loop mem p n num mx policy (hs, c, 0) = Some (IHTP_INCOMPLETE, hs1, c1, length ls)"
    with ok show ?thesis by (simp add: parse_header_block_def)
  next
    assume "\<exists>r. rest \<noteq> [] \<and> header_loop mem p n num mx policy (hs, c, 0) = Some r
             \<and> step_result p num mx rest (classify policy rest) (hs1, c1, length ls) = Return r"
    with ok have "step_result p num mx rest (classify policy rest) (hs1, c1, length ls) =
        Return (IHTP_INCOMPLETE, hs', c', e)" by (auto simp: parse_header_block_def)
    with classify_not_malformed_ok [of policy rest] show ?thesis
      by (cases "classify policy rest") (auto simp: step_result_def split: if_splits)
  qed
  with s lines show "\<exists>ls rest. span mem p n = ls @ rest
              \<and> header_lines policy mx p (hs, c) ls (hs', c') \<and> e = length ls
              \<and> (rest = [] \<or> classify policy rest = Unfinished)" by blast
next
  assume "\<exists>ls rest. span mem p n = ls @ rest
              \<and> header_lines policy mx p (hs, c) ls (hs', c') \<and> e = length ls
              \<and> (rest = [] \<or> classify policy rest = Unfinished)"
  then obtain ls rest where s: "span mem p n = ls @ rest"
    and lines: "header_lines policy mx p (hs, c) ls (hs', c')" and e: "e = length ls"
    and rest: "rest = [] \<or> classify policy rest = Unfinished" by blast
  have run: "header_loop mem p n num mx policy (hs, c, 0) =
      header_loop mem p n num mx policy (hs', c', length ls)"
    and ok: "headers_ok lo (p + length ls) mx hs' c'"
    using header_loop_lines [OF lines, of p 0 mem n rest lo num] s assms by simp_all
  have len: "length ls + length rest = n"
    using arg_cong [OF s, of length] assms by simp
  show "parse_header_block mem p n hs c num mx policy = Some (IHTP_INCOMPLETE, hs', c', e)"
  proof (cases "rest = []")
    case True
    with len have "n \<le> length ls" by simp
    with run e show ?thesis using len True by (simp add: parse_header_block_def)
  next
    case False
    with len have lt: "length ls < n" by (cases rest) auto
    have "span mem (p + length ls) (n - length ls) = rest"
      using span_shift [of mem p n ls rest] s assms by simp
    with header_loop_step [OF assms(1) lt ok, of num policy] rest False e
    show ?thesis by (simp add: parse_header_block_def run step_result_def)
  qed
qed

section \<open>Resuming\<close>

text \<open>
  Starting the loop at \<open>k\<close> is starting a block there: the same status and array, and, where they
  are written, the same count and an end that is \<open>k\<close> further on.
\<close>

definition block_shifted :: "nat \<Rightarrow> block_result \<Rightarrow> block_result \<Rightarrow> bool" where
  "block_shifted k = (\<lambda>(st, hs, c, e) (st', hs', c', e').
     st' = st \<and> hs' = hs \<and> (st = IHTP_OK \<or> st = IHTP_INCOMPLETE \<longrightarrow> c' = c \<and> e = k + e'))"

lemma step_result_shift:
  "(\<exists>r r'. step_result buf num mx s line (hs, c, k + pos) = Return r
      \<and> step_result (buf + k) num' mx s line (hs, c, pos) = Return r' \<and>
      (line \<noteq> Malformed IHTP_OK \<and> line \<noteq> Malformed IHTP_INCOMPLETE \<longrightarrow> block_shifted k r r')) \<or>
   (\<exists>hs1 c1 pos1. step_result buf num mx s line (hs, c, k + pos) = Continue (hs1, c1, k + pos1)
      \<and> step_result (buf + k) num' mx s line (hs, c, pos) = Continue (hs1, c1, pos1))"
  by (cases line) (auto simp: step_result_def block_shifted_def add_ac)

lemma header_loop_shift:
  assumes "buf + len \<le> length mem" and "k \<le> len" and "headers_ok lo (buf + k + pos) mx hs c" and "lo \<le> buf"
  shows "\<exists>r r'. header_loop mem buf len num mx policy (hs, c, k + pos) = Some r
           \<and> header_loop mem (buf + k) (len - k) num' mx policy (hs, c, pos) = Some r'
           \<and> block_shifted k r r'"
  using assms(3)
proof (induction "len - k - pos" arbitrary: hs c pos rule: less_induct)
  case less
  show ?case
  proof (cases "k + pos < len")
    case False
    with assms(2) show ?thesis by (simp add: block_shifted_def)
  next
    case True
    then have lt: "pos < len - k" by simp
    have b: "buf + k + (len - k) \<le> length mem" using assms by simp
    have pp: "buf + (k + pos) = buf + k + pos" "len - (k + pos) = len - k - pos" by simp_all
    let ?s = "span mem (buf + k + pos) (len - k - pos)"
    have ok: "headers_ok lo (buf + (k + pos)) mx hs c" using less.prems by (simp only: pp)
    note step1 = header_loop_step [OF assms(1) True ok, of num policy, unfolded pp]
    note step2 = header_loop_step [OF b lt less.prems, of num' policy]
    from step_result_shift [of buf num mx ?s "classify policy ?s" hs c k pos num']
    show ?thesis
    proof
      assume "\<exists>r r'. step_result buf num mx ?s (classify policy ?s) (hs, c, k + pos) = Return r
        \<and> step_result (buf + k) num' mx ?s (classify policy ?s) (hs, c, pos) = Return r' \<and>
        (classify policy ?s \<noteq> Malformed IHTP_OK \<and> classify policy ?s \<noteq> Malformed IHTP_INCOMPLETE \<longrightarrow>
           block_shifted k r r')"
      with step1 step2 classify_not_malformed_ok [of policy ?s] show ?thesis by auto
    next
      assume "\<exists>hs1 c1 pos1. step_result buf num mx ?s (classify policy ?s) (hs, c, k + pos) =
            Continue (hs1, c1, k + pos1)
        \<and> step_result (buf + k) num' mx ?s (classify policy ?s) (hs, c, pos) = Continue (hs1, c1, pos1)"
      then obtain hs1 c1 pos1
        where c1: "step_result buf num mx ?s (classify policy ?s) (hs, c, k + pos) = Continue (hs1, c1, k + pos1)"
          and c2: "step_result (buf + k) num' mx ?s (classify policy ?s) (hs, c, pos) = Continue (hs1, c1, pos1)"
        by blast
      from step_continue_ok [OF c2 less.prems] assms(4)
      have pos1: "pos < pos1" and hok: "headers_ok lo (buf + k + pos1) mx hs1 c1" by simp_all
      from pos1 have "len - k - pos1 < len - k - pos" using lt by linarith
      from less.hyps [OF this hok] step1 step2 c1 c2
      show ?thesis by simp
    qed
  qed
qed

theorem header_block_resume:
  assumes inc: "parse_header_block mem p n1 hs c num mx policy = Some (IHTP_INCOMPLETE, hs1, c1, e1)"
    and "n1 \<le> n2" and "p + n2 \<le> length mem" and "headers_ok lo p mx hs c" and "lo \<le> p"
  shows "\<exists>r r'. parse_header_block mem p n2 hs c num mx policy = Some r
           \<and> parse_header_block mem (p + e1) (n2 - e1) hs1 c1 num' mx policy = Some r'
           \<and> block_shifted e1 r r' \<and> headers_ok lo (p + e1) mx hs1 c1 \<and> e1 \<le> n1"
proof -
  have n1: "p + n1 \<le> length mem" using assms by simp
  from inc header_block_incomplete_iff [OF n1 assms(4,5)]
  obtain ls rest where s: "span mem p n1 = ls @ rest"
    and lines: "header_lines policy mx p (hs, c) ls (hs1, c1)" and e: "e1 = length ls" by blast
  have "span mem p n2 = span mem p n1 @ span mem (p + n1) (n2 - n1)"
    using span_append [of mem p n1 "n2 - n1"] assms(2) by simp
  with s have s2: "span mem p n2 = ls @ rest @ span mem (p + n1) (n2 - n1)" by simp
  have le: "e1 \<le> n1" using span_shift [OF s n1] e by simp
  have run: "header_loop mem p n2 num mx policy (hs, c, 0) =
      header_loop mem p n2 num mx policy (hs1, c1, e1)"
    and ok: "headers_ok lo (p + e1) mx hs1 c1"
    using header_loop_lines [OF lines, of p 0 mem n2 "rest @ span mem (p + n1) (n2 - n1)" lo num] s2 assms e
    by simp_all
  from header_loop_shift [of p n2 mem e1 lo 0 mx hs1 c1 num policy num'] assms le ok
  show ?thesis by (simp add: parse_header_block_def run)
qed

end
