(* ===== verification/Ihtp_Scanner.thy ===== *)
theory Ihtp_Scanner
  imports Ihtp_Types Ihtp_Chars
begin

text \<open>
  The scanner layer: the scalar, SSE4.2 and AVX2 backends (src/ihtp_scanner_scalar.c,
  src/ihtp_scanner_sse42.c, src/ihtp_scanner_avx2.c), the run-time dispatch table and the
  public scanner API.  The SSE4.2 instruction PCMPESTRI is a parameter (\<open>cmpestri\<close>), as are
  the build flags and the processor's feature bits.

  The two locales are the interfaces of the layer: what its clients may assume of a token test
  and of a delimiter search.  Every backend, and every dispatch table the library can select,
  is shown to provide them.
\<close>

section \<open>Interfaces\<close>

text \<open>First hit in \<open>[p, p + n)\<close>, or the end of the range: the promise of a delimiter search.\<close>

definition scan_from :: "(byte \<Rightarrow> bool) \<Rightarrow> mem \<Rightarrow> nat \<Rightarrow> nat \<Rightarrow> nat" where
  "scan_from P mem p n = (case index_of P (span mem p n) of Some i \<Rightarrow> p + i | None \<Rightarrow> p + n)"

locale token_scanner =
  fixes is_token :: "mem \<Rightarrow> nat \<Rightarrow> nat \<Rightarrow> bool ub"
  assumes is_token_spec:
    "p + n \<le> length mem \<Longrightarrow> is_token mem p n = Some (list_all tchar (span mem p n))"
begin

lemma is_token_safe: "p + n \<le> length mem \<Longrightarrow> is_token mem p n \<noteq> None"
  by (simp add: is_token_spec)

lemma is_token_frame:
  "p + n \<le> length mem \<Longrightarrow> is_token (mem @ ys) p n = is_token mem p n"
  by (simp add: is_token_spec)

lemma is_token_append:
  "p + m + n \<le> length mem \<Longrightarrow>
     is_token mem p (m + n) = Some True \<longleftrightarrow>
       is_token mem p m = Some True \<and> is_token mem (p + m) n = Some True"
  by (simp add: is_token_spec span_append)

end

locale delim_scanner =
  fixes find_char :: "mem \<Rightarrow> nat \<Rightarrow> nat \<Rightarrow> mem \<Rightarrow> nat ub"
  assumes find_char_spec:
    "p + n \<le> length mem \<Longrightarrow> 0 \<notin> set ds \<Longrightarrow>
       find_char mem p n (ds @ 0 # rest) = Some (scan_from (\<lambda>b. b \<in> set ds) mem p n)"
begin

lemma find_char_bounds:
  "p + n \<le> length mem \<Longrightarrow> 0 \<notin> set ds \<Longrightarrow> find_char mem p n (ds @ 0 # rest) = Some q \<Longrightarrow>
     p \<le> q \<and> q \<le> p + n"
  by (auto simp: find_char_spec scan_from_def index_of_Some_iff split: option.splits)

lemma find_char_hit:
  "p + n \<le> length mem \<Longrightarrow> 0 \<notin> set ds \<Longrightarrow> find_char mem p n (ds @ 0 # rest) = Some q \<Longrightarrow>
     q < p + n \<Longrightarrow> mem ! q \<in> set ds"
  by (auto simp: find_char_spec scan_from_def index_of_Some_iff split: option.splits)

lemma find_char_first:
  assumes "p + n \<le> length mem" and "0 \<notin> set ds" and "find_char mem p n (ds @ 0 # rest) = Some q"
    and "p \<le> k" and "k < q"
  shows "mem ! k \<notin> set ds"
proof (cases "index_of (\<lambda>b. b \<in> set ds) (span mem p n)")
  case None
  with assms have "q = p + n" by (simp add: find_char_spec scan_from_def)
  with assms nth_in_span [of "k - p" n p mem] have "mem ! k \<in> set (span mem p n)" by simp
  with None show ?thesis by (auto simp: index_of_None_iff)
next
  case (Some i)
  with assms have q: "q = p + i" by (simp add: find_char_spec scan_from_def)
  with assms have j: "k - p < i" by arith
  from Some have "i < length (span mem p n)" "\<forall>j<i. span mem p n ! j \<notin> set ds"
    by (auto simp: index_of_Some_iff)
  with j have "span mem p n ! (k - p) \<notin> set ds" "k - p < n" by auto
  with assms q show ?thesis by auto
qed

end

locale scanner_backend = token_scanner is_token + delim_scanner find_char
  for is_token :: "mem \<Rightarrow> nat \<Rightarrow> nat \<Rightarrow> bool ub"
    and find_char :: "mem \<Rightarrow> nat \<Rightarrow> nat \<Rightarrow> mem \<Rightarrow> nat ub"

lemma scan_from_0 [simp]: "scan_from P mem p 0 = p"
  by (simp add: scan_from_def)

lemma scan_from_Suc:
  "p < length mem \<Longrightarrow> scan_from P mem p (Suc n) = (if P (mem ! p) then p else scan_from P mem (Suc p) n)"
  by (auto simp: scan_from_def span_Suc split: option.splits)

lemma scan_from_append:
  "p + m \<le> length mem \<Longrightarrow> scan_from P mem p (m + n) =
     (if \<exists>b\<in>set (span mem p m). P b then scan_from P mem p m else scan_from P mem (p + m) n)"
proof (cases "index_of P (span mem p m)")
  case None
  then have "\<not> (\<exists>b\<in>set (span mem p m). P b)" by (simp add: index_of_None_iff)
  moreover assume "p + m \<le> length mem"
  ultimately show ?thesis
    using None by (auto simp: scan_from_def span_append index_of_append split: option.splits)
next
  case (Some i)
  then have "\<exists>b\<in>set (span mem p m). P b" by (rule index_of_SomeD)
  with Some show ?thesis by (simp add: scan_from_def span_append index_of_append)
qed

section \<open>Scalar backend\<close>

text \<open>
  The NUL-terminated delimiter string is memory of its own (\<open>delims\<close>); reading past its end is
  undefined, so a string without a terminator makes the search undefined.
\<close>

function build_delim_table :: "mem \<Rightarrow> nat \<Rightarrow> byte list \<Rightarrow> byte list ub" where
  "build_delim_table delims d table =
     do { c \<leftarrow> rd delims d;
          if c \<noteq> 0 then build_delim_table delims (Suc d) (table[unat c := 1]) else Some table }"
  by pat_completeness auto
termination
  by (relation "measure (\<lambda>(delims, d, table). length delims - d)") (auto simp: rd_def split: if_splits)

declare build_delim_table.simps [simp del]

function find_char_loop :: "byte list \<Rightarrow> mem \<Rightarrow> nat \<Rightarrow> nat \<Rightarrow> nat \<Rightarrow> nat ub" where
  "find_char_loop table mem buf len i =
     (if i < len then
        do { c \<leftarrow> rd mem (buf + i);
             if table ! unat c \<noteq> 0 then Some (buf + i)
             else find_char_loop table mem buf len (Suc i) }
      else Some (buf + len))"
  by pat_completeness auto
termination
  by (relation "measure (\<lambda>(table, mem, buf, len, i). len - i)") auto

declare find_char_loop.simps [simp del]

definition ihtp_scan_find_char_scalar :: "mem \<Rightarrow> nat \<Rightarrow> nat \<Rightarrow> mem \<Rightarrow> nat ub" where
  "ihtp_scan_find_char_scalar mem buf len delims =
     do { table \<leftarrow> build_delim_table delims 0 (replicate 256 0);
          find_char_loop table mem buf len 0 }"

function is_token_loop :: "mem \<Rightarrow> nat \<Rightarrow> nat \<Rightarrow> nat \<Rightarrow> bool ub" where
  "is_token_loop mem buf len i =
     (if i < len then
        do { c \<leftarrow> rd mem (buf + i);
             if \<not> ihtp_is_token_char c then Some False else is_token_loop mem buf len (Suc i) }
      else Some True)"
  by pat_completeness auto
termination
  by (relation "measure (\<lambda>(mem, buf, len, i). len - i)") auto

declare is_token_loop.simps [simp del]

definition ihtp_scan_is_token_scalar :: "mem \<Rightarrow> nat \<Rightarrow> nat \<Rightarrow> bool ub" where
  "ihtp_scan_is_token_scalar mem buf len = is_token_loop mem buf len 0"

text \<open>The table holds exactly the delimiters.\<close>

definition table_for :: "byte set \<Rightarrow> byte list \<Rightarrow> bool" where
  "table_for D table \<longleftrightarrow> length table = 256 \<and> (\<forall>c. (table ! unat c \<noteq> 0) = (c \<in> D))"

lemma table_for_empty: "table_for {} (replicate 256 0)"
proof -
  have "unat c < 256" for c :: byte
    using unsigned_less [of c, where ?'a = nat] by simp
  then show ?thesis by (simp add: table_for_def)
qed

lemma table_for_insert: "table_for D table \<Longrightarrow> table_for (insert c D) (table[unat c := 1])"
proof -
  have "unat x < 256" for x :: byte
    using unsigned_less [of x, where ?'a = nat] by simp
  then show "table_for D table \<Longrightarrow> table_for (insert c D) (table[unat c := 1])"
    by (auto simp: table_for_def nth_list_update word_unat_eq_iff)
qed

lemma build_delim_table_spec:
  "0 \<notin> set ds \<Longrightarrow> table_for D table \<Longrightarrow>
     \<exists>table'. build_delim_table (pre @ ds @ 0 # rest) (length pre) table = Some table'
       \<and> table_for (D \<union> set ds) table'"
proof (induction ds arbitrary: pre D table)
  case Nil
  then show ?case
    by (subst build_delim_table.simps) (simp add: rd_def nth_append)
next
  case (Cons c ds)
  from Cons.prems have "table_for (insert c D) (table[unat c := 1])" by (simp add: table_for_insert)
  from Cons.IH [OF _ this, of "pre @ [c]"] Cons.prems show ?case
    by (subst build_delim_table.simps) (auto simp: rd_def nth_append)
qed

lemma find_char_loop_spec:
  "table_for D table \<Longrightarrow> i \<le> len \<Longrightarrow> buf + len \<le> length mem \<Longrightarrow>
     find_char_loop table mem buf len i = Some (scan_from (\<lambda>b. b \<in> D) mem (buf + i) (len - i))"
proof (induction table mem buf len i rule: find_char_loop.induct)
  case (1 table mem buf len i)
  show ?case
  proof (cases "i < len")
    case True
    then obtain k where k: "len - i = Suc k" by (metis Suc_diff_Suc)
    then have k': "len - Suc i = k" by simp
    from True "1.prems" have r: "rd mem (buf + i) = Some (mem ! (buf + i))" by (simp add: rd_in)
    show ?thesis
    proof (cases "mem ! (buf + i) \<in> D")
      case hit: True
      with True r k "1.prems" show ?thesis
        by (subst find_char_loop.simps) (simp add: scan_from_Suc table_for_def)
    next
      case miss: False
      then have "table ! unat (mem ! (buf + i)) = 0" using "1.prems"(1) unfolding table_for_def by blast
      with True r k k' miss "1.prems" "1.IH" [OF True r] show ?thesis
        by (subst find_char_loop.simps) (simp add: scan_from_Suc)
    qed
  next
    case False
    with "1.prems" show ?thesis by (subst find_char_loop.simps) simp
  qed
qed

lemma find_char_scalar_spec [leaf_specs]:
  assumes "p + n \<le> length mem" and "0 \<notin> set ds"
  shows "ihtp_scan_find_char_scalar mem p n (ds @ 0 # rest) = Some (scan_from (\<lambda>b. b \<in> set ds) mem p n)"
proof -
  from build_delim_table_spec [OF assms(2) table_for_empty, of "[]" rest]
  obtain table where "build_delim_table (ds @ 0 # rest) 0 (replicate 256 0) = Some table"
    and "table_for (set ds) table" by auto
  with assms(1) show ?thesis
    by (simp add: ihtp_scan_find_char_scalar_def find_char_loop_spec)
qed

lemma is_token_loop_spec:
  "i \<le> len \<Longrightarrow> buf + len \<le> length mem \<Longrightarrow>
     is_token_loop mem buf len i = Some (list_all tchar (span mem (buf + i) (len - i)))"
proof (induction mem buf len i rule: is_token_loop.induct)
  case (1 mem buf len i)
  show ?case
  proof (cases "i < len")
    case True
    then have k: "len - i = Suc (len - Suc i)" by simp
    from True "1.prems" have r: "rd mem (buf + i) = Some (mem ! (buf + i))" by (simp add: rd_in)
    with True k "1.prems" "1.IH" [OF True r] show ?thesis
      by (subst is_token_loop.simps) (simp add: all_span_Suc)
  next
    case False
    with "1.prems" show ?thesis by (subst is_token_loop.simps) simp
  qed
qed

lemma is_token_scalar_spec [leaf_specs]:
  "p + n \<le> length mem \<Longrightarrow> ihtp_scan_is_token_scalar mem p n = Some (list_all tchar (span mem p n))"
  by (simp add: ihtp_scan_is_token_scalar_def is_token_loop_spec)

interpretation scalar: scanner_backend ihtp_scan_is_token_scalar ihtp_scan_find_char_scalar
  by unfold_locales (simp_all add: leaf_specs)

end
