(* ===== verification/Ihtp_Dispatch.thy ===== *)
theory Ihtp_Dispatch
  imports Ihtp_Scanner
begin

text \<open>
  The AVX2 and SSE4.2 backends, the run-time dispatch table and the public scanner API
  (src/ihtp_scanner_avx2.c, src/ihtp_scanner_sse42.c, src/ihtp_scanner_scalar.c).  The flags
  IOHTTPPARSER_HAVE_AVX2 and IOHTTPPARSER_HAVE_SSE42 are a record, the processor's feature
  test and the instruction behind \<open>_mm_cmpestri\<close> are arguments.
\<close>

section \<open>AVX2 backend\<close>

function avx2_find_block :: "byte list \<Rightarrow> mem \<Rightarrow> nat \<Rightarrow> nat \<Rightarrow> nat \<Rightarrow> ptr ub" where
  "avx2_find_block table mem buf i j =
     (if j < 32 then
        do { c \<leftarrow> rd mem (buf + i + j);
             if table ! unat c \<noteq> 0 then Some (Some (buf + i + j))
             else avx2_find_block table mem buf i (Suc j) }
      else Some None)"
  by pat_completeness auto
termination
  by (relation "measure (\<lambda>(table, mem, buf, i, j). 32 - j)") auto

function avx2_find_blocks :: "byte list \<Rightarrow> mem \<Rightarrow> nat \<Rightarrow> nat \<Rightarrow> nat \<Rightarrow> (nat + nat) ub" where
  "avx2_find_blocks table mem buf len i =
     (if i + 32 \<le> len then
        do { hit \<leftarrow> avx2_find_block table mem buf i 0;
             case hit of
               Some p \<Rightarrow> Some (Inl p)
             | None \<Rightarrow> avx2_find_blocks table mem buf len (i + 32) }
      else Some (Inr i))"
  by pat_completeness auto
termination
  by (relation "measure (\<lambda>(table, mem, buf, len, i). len - i)") auto

declare avx2_find_block.simps [simp del] avx2_find_blocks.simps [simp del]

definition ihtp_scan_find_char_avx2 :: "mem \<Rightarrow> nat \<Rightarrow> nat \<Rightarrow> mem \<Rightarrow> nat ub" where
  "ihtp_scan_find_char_avx2 mem buf len delims =
     do { table \<leftarrow> build_delim_table delims 0 (replicate 256 0);
          r \<leftarrow> avx2_find_blocks table mem buf len 0;
          case r of
            Inl p \<Rightarrow> Some p
          | Inr i \<Rightarrow> find_char_loop table mem buf len i }"

function avx2_token_block :: "mem \<Rightarrow> nat \<Rightarrow> nat \<Rightarrow> nat \<Rightarrow> bool ub" where
  "avx2_token_block mem buf i j =
     (if j < 32 then
        do { c \<leftarrow> rd mem (buf + i + j);
             if \<not> ihtp_is_token_char c then Some False else avx2_token_block mem buf i (Suc j) }
      else Some True)"
  by pat_completeness auto
termination
  by (relation "measure (\<lambda>(mem, buf, i, j). 32 - j)") auto

function avx2_token_blocks :: "mem \<Rightarrow> nat \<Rightarrow> nat \<Rightarrow> nat \<Rightarrow> nat option ub" where
  "avx2_token_blocks mem buf len i =
     (if i + 32 \<le> len then
        do { ok \<leftarrow> avx2_token_block mem buf i 0;
             if \<not> ok then Some None else avx2_token_blocks mem buf len (i + 32) }
      else Some (Some i))"
  by pat_completeness auto
termination
  by (relation "measure (\<lambda>(mem, buf, len, i). len - i)") auto

declare avx2_token_block.simps [simp del] avx2_token_blocks.simps [simp del]

definition ihtp_scan_is_token_avx2 :: "mem \<Rightarrow> nat \<Rightarrow> nat \<Rightarrow> bool ub" where
  "ihtp_scan_is_token_avx2 mem buf len =
     do { r \<leftarrow> avx2_token_blocks mem buf len 0;
          case r of None \<Rightarrow> Some False | Some i \<Rightarrow> is_token_loop mem buf len i }"

lemma avx2_find_block_spec:
  "table_for D table \<Longrightarrow> j \<le> 32 \<Longrightarrow> buf + i + 32 \<le> length mem \<Longrightarrow>
     avx2_find_block table mem buf i j =
       Some (map_option ((+) (buf + i + j)) (index_of (\<lambda>b. b \<in> D) (span mem (buf + i + j) (32 - j))))"
proof (induction table mem buf i j rule: avx2_find_block.induct)
  case (1 table mem buf i j)
  show ?case
  proof (cases "j < 32")
    case True
    then have k: "32 - j = Suc (32 - Suc j)" by simp
    from True "1.prems" have r: "rd mem (buf + i + j) = Some (mem ! (buf + i + j))" by (simp add: rd_in)
    from "1.prems"(1) have t: "table ! unat c \<noteq> 0 \<longleftrightarrow> c \<in> D" for c by (simp add: table_for_def)
    show ?thesis
      using True r k t "1.prems" "1.IH" [OF True r]
      by (subst avx2_find_block.simps) (simp add: span_Suc option.map_comp comp_def)
  next
    case False
    with "1.prems" show ?thesis by (subst avx2_find_block.simps) simp
  qed
qed

lemma avx2_find_blocks_spec:
  assumes "table_for D table" and "i \<le> len" and "buf + len \<le> length mem"
  shows "(case avx2_find_blocks table mem buf len i of
            None \<Rightarrow> None
          | Some (Inl p) \<Rightarrow> Some p
          | Some (Inr k) \<Rightarrow> find_char_loop table mem buf len k)
         = Some (scan_from (\<lambda>b. b \<in> D) mem (buf + i) (len - i))"
  using assms
proof (induction table mem buf len i rule: avx2_find_blocks.induct)
  case (1 table mem buf len i)
  show ?case
  proof (cases "i + 32 \<le> len")
    case True
    then have n: "len - i = 32 + (len - (i + 32))" by simp
    have sc: "scan_from (\<lambda>b. b \<in> D) mem (buf + i) (len - i) =
        (if \<exists>b\<in>set (span mem (buf + i) 32). b \<in> D then scan_from (\<lambda>b. b \<in> D) mem (buf + i) 32
         else scan_from (\<lambda>b. b \<in> D) mem (buf + i + 32) (len - (i + 32)))"
      unfolding n using True "1.prems" by (intro scan_from_append) simp
    have blk: "avx2_find_block table mem buf i 0 =
        Some (map_option ((+) (buf + i)) (index_of (\<lambda>b. b \<in> D) (span mem (buf + i) 32)))"
      using avx2_find_block_spec [of D table 0 buf i mem] True "1.prems" by simp
    show ?thesis
    proof (cases "index_of (\<lambda>b. b \<in> D) (span mem (buf + i) 32)")
      case None
      with blk have b: "avx2_find_block table mem buf i 0 = Some None" by simp
      from None have "\<not> (\<exists>b\<in>set (span mem (buf + i) 32). b \<in> D)" by (simp add: index_of_None_iff)
      with sc "1.IH" [OF True b] True "1.prems" b show ?thesis
        by (subst avx2_find_blocks.simps) (simp add: add.assoc)
    next
      case (Some k)
      then have "\<exists>b\<in>set (span mem (buf + i) 32). b \<in> D" by (rule index_of_SomeD)
      with sc Some blk True show ?thesis
        by (subst avx2_find_blocks.simps) (simp add: scan_from_def)
    qed
  next
    case False
    with "1.prems" show ?thesis
      by (subst avx2_find_blocks.simps) (simp add: find_char_loop_spec)
  qed
qed

lemma find_char_avx2_spec [leaf_specs]:
  assumes "p + n \<le> length mem" and "0 \<notin> set ds"
  shows "ihtp_scan_find_char_avx2 mem p n (ds @ 0 # rest) = Some (scan_from (\<lambda>b. b \<in> set ds) mem p n)"
proof -
  from build_delim_table_spec [OF assms(2) table_for_empty, of "[]" rest]
  obtain table where "build_delim_table (ds @ 0 # rest) 0 (replicate 256 0) = Some table"
    and "table_for (set ds) table" by auto
  with assms(1) avx2_find_blocks_spec [of "set ds" table 0 n p mem] show ?thesis
    by (simp add: ihtp_scan_find_char_avx2_def split: option.splits sum.splits)
qed

lemma avx2_token_block_spec:
  "j \<le> 32 \<Longrightarrow> buf + i + 32 \<le> length mem \<Longrightarrow>
     avx2_token_block mem buf i j = Some (list_all tchar (span mem (buf + i + j) (32 - j)))"
proof (induction mem buf i j rule: avx2_token_block.induct)
  case (1 mem buf i j)
  show ?case
  proof (cases "j < 32")
    case True
    then have k: "32 - j = Suc (32 - Suc j)" by simp
    from True "1.prems" have r: "rd mem (buf + i + j) = Some (mem ! (buf + i + j))" by (simp add: rd_in)
    show ?thesis
      using True r k "1.prems" "1.IH" [OF True r]
      by (subst avx2_token_block.simps) (simp add: all_span_Suc)
  next
    case False
    with "1.prems" show ?thesis by (subst avx2_token_block.simps) simp
  qed
qed

lemma avx2_token_blocks_spec:
  assumes "i \<le> len" and "buf + len \<le> length mem"
  shows "(case avx2_token_blocks mem buf len i of
            None \<Rightarrow> None
          | Some None \<Rightarrow> Some False
          | Some (Some k) \<Rightarrow> is_token_loop mem buf len k)
         = Some (list_all tchar (span mem (buf + i) (len - i)))"
  using assms
proof (induction mem buf len i rule: avx2_token_blocks.induct)
  case (1 mem buf len i)
  show ?case
  proof (cases "i + 32 \<le> len")
    case True
    then have n: "len - i = 32 + (len - (i + 32))" by simp
    have sp: "span mem (buf + i) (len - i) = span mem (buf + i) 32 @ span mem (buf + i + 32) (len - (i + 32))"
      by (subst n) (rule span_append)
    have blk: "avx2_token_block mem buf i 0 = Some (list_all tchar (span mem (buf + i) 32))"
      using avx2_token_block_spec [of 0 buf i mem] True "1.prems" by simp
    show ?thesis
      using blk sp True "1.prems" "1.IH" [OF True blk]
      by (subst avx2_token_blocks.simps) (simp add: add.assoc)
  next
    case False
    with "1.prems" show ?thesis
      by (subst avx2_token_blocks.simps) (simp add: is_token_loop_spec)
  qed
qed

lemma is_token_avx2_spec [leaf_specs]:
  "p + n \<le> length mem \<Longrightarrow> ihtp_scan_is_token_avx2 mem p n = Some (list_all tchar (span mem p n))"
  using avx2_token_blocks_spec [of 0 n p mem]
  by (simp add: ihtp_scan_is_token_avx2_def split: option.splits)

interpretation avx2: scanner_backend ihtp_scan_is_token_avx2 ihtp_scan_find_char_avx2
  by unfold_locales (simp_all add: leaf_specs)

section \<open>SSE4.2 backend\<close>

text \<open>
  What the code relies on of \<open>_mm_cmpestri\<close> in the mode it uses (unsigned bytes, equal-any,
  least significant index): the index of the first of the 16 haystack bytes that occurs among
  the first \<open>k\<close> needle bytes, 16 if there is none.
\<close>

type_synonym cmpestri_t = "byte list \<Rightarrow> nat \<Rightarrow> byte list \<Rightarrow> nat"

definition cmpestri_documented :: "cmpestri_t \<Rightarrow> bool" where
  "cmpestri_documented f \<longleftrightarrow>
     (\<forall>needle k hay. length needle = 16 \<longrightarrow> k \<le> 16 \<longrightarrow> length hay = 16 \<longrightarrow>
        f needle k hay =
          (case index_of (\<lambda>b. b \<in> set (take k needle)) hay of Some i \<Rightarrow> i | None \<Rightarrow> 16))"

function c_strlen :: "mem \<Rightarrow> nat \<Rightarrow> nat ub" where
  "c_strlen s i = do { c \<leftarrow> rd s i; if c = 0 then Some i else c_strlen s (Suc i) }"
  by pat_completeness auto
termination
  by (relation "measure (\<lambda>(s, i). length s - i)") (auto simp: rd_def split: if_splits)

function sse42_blocks :: "cmpestri_t \<Rightarrow> byte list \<Rightarrow> nat \<Rightarrow> mem \<Rightarrow> nat \<Rightarrow> nat \<Rightarrow> nat \<Rightarrow> (nat + nat) ub" where
  "sse42_blocks cmpestri needle needle_len mem buf len i =
     (if i + 16 \<le> len then
        do { haystack \<leftarrow> rd_bytes mem (buf + i) 16;
             let idx = cmpestri needle needle_len haystack;
             if idx < 16 then Some (Inl (buf + i + idx))
             else sse42_blocks cmpestri needle needle_len mem buf len (i + 16) }
      else Some (Inr i))"
  by pat_completeness auto
termination
  by (relation "measure (\<lambda>(cmpestri, needle, needle_len, mem, buf, len, i). len - i)") auto

function sse42_is_delim :: "mem \<Rightarrow> nat \<Rightarrow> mem \<Rightarrow> nat \<Rightarrow> nat \<Rightarrow> bool ub" where
  "sse42_is_delim mem p delims dlen d =
     (if d < dlen then
        do { b \<leftarrow> rd mem p;
             x \<leftarrow> rd delims d;
             if b = x then Some True else sse42_is_delim mem p delims dlen (Suc d) }
      else Some False)"
  by pat_completeness auto
termination
  by (relation "measure (\<lambda>(mem, p, delims, dlen, d). dlen - d)") auto

function sse42_tail :: "mem \<Rightarrow> nat \<Rightarrow> nat \<Rightarrow> mem \<Rightarrow> nat \<Rightarrow> nat \<Rightarrow> nat ub" where
  "sse42_tail mem buf len delims dlen i =
     (if i < len then
        do { hit \<leftarrow> sse42_is_delim mem (buf + i) delims dlen 0;
             if hit then Some (buf + i) else sse42_tail mem buf len delims dlen (Suc i) }
      else Some (buf + len))"
  by pat_completeness auto
termination
  by (relation "measure (\<lambda>(mem, buf, len, delims, dlen, i). len - i)") auto

declare c_strlen.simps [simp del] sse42_blocks.simps [simp del]
  sse42_is_delim.simps [simp del] sse42_tail.simps [simp del]

definition ihtp_scan_find_char_sse42 :: "cmpestri_t \<Rightarrow> mem \<Rightarrow> nat \<Rightarrow> nat \<Rightarrow> mem \<Rightarrow> nat ub" where
  "ihtp_scan_find_char_sse42 cmpestri mem buf len delims =
     do { dlen \<leftarrow> c_strlen delims 0;
          if dlen = 0 \<or> dlen > 16 then ihtp_scan_find_char_scalar mem buf len delims
          else do {
            bytes \<leftarrow> rd_bytes delims 0 dlen;
            let needle = bytes @ replicate (16 - dlen) 0;
            r \<leftarrow> sse42_blocks cmpestri needle dlen mem buf len 0;
            case r of
              Inl p \<Rightarrow> Some p
            | Inr i \<Rightarrow> sse42_tail mem buf len delims dlen i } }"

definition ihtp_scan_is_token_sse42 :: "mem \<Rightarrow> nat \<Rightarrow> nat \<Rightarrow> bool ub" where
  "ihtp_scan_is_token_sse42 mem buf len = ihtp_scan_is_token_scalar mem buf len"

lemma c_strlen_spec:
  "0 \<notin> set ds \<Longrightarrow> c_strlen (pre @ ds @ 0 # rest) (length pre) = Some (length pre + length ds)"
proof (induction ds arbitrary: pre)
  case Nil
  show ?case by (subst c_strlen.simps) (simp add: rd_def nth_append)
next
  case (Cons c ds)
  from Cons.IH [of "pre @ [c]"] Cons.prems show ?case
    by (subst c_strlen.simps) (simp add: rd_def nth_append)
qed

lemma sse42_is_delim_spec:
  "d \<le> length ds \<Longrightarrow> p < length mem \<Longrightarrow>
     sse42_is_delim mem p (ds @ rest) (length ds) d = Some (mem ! p \<in> set (drop d ds))"
proof (induction "length ds - d" arbitrary: d)
  case 0
  then show ?case by (subst sse42_is_delim.simps) simp
next
  case (Suc k)
  then have d: "d < length ds" by simp
  then have "drop d ds = ds ! d # drop (Suc d) ds" by (simp add: Cons_nth_drop_Suc)
  with Suc.hyps(1) [of "Suc d"] Suc.hyps(2) Suc.prems d show ?case
    by (subst sse42_is_delim.simps) (simp add: rd_def nth_append)
qed

lemma sse42_tail_spec:
  "i \<le> len \<Longrightarrow> buf + len \<le> length mem \<Longrightarrow>
     sse42_tail mem buf len (ds @ rest) (length ds) i =
       Some (scan_from (\<lambda>b. b \<in> set ds) mem (buf + i) (len - i))"
proof (induction "len - i" arbitrary: i)
  case 0
  then show ?case by (subst sse42_tail.simps) simp
next
  case (Suc k)
  then have i: "i < len" "len - i = Suc (len - Suc i)" by auto
  with Suc.hyps(1) [of "Suc i"] Suc.hyps(2) Suc.prems show ?case
    by (subst sse42_tail.simps) (simp add: sse42_is_delim_spec scan_from_Suc)
qed

lemma sse42_blocks_spec:
  assumes "cmpestri_documented cmpestri" and "length needle = 16" and "k \<le> 16"
    and "set (take k needle) = set ds" and "k = length ds" and "i \<le> len" and "buf + len \<le> length mem"
  shows "(case sse42_blocks cmpestri needle k mem buf len i of
            None \<Rightarrow> None
          | Some (Inl p) \<Rightarrow> Some p
          | Some (Inr j) \<Rightarrow> sse42_tail mem buf len (ds @ rest) (length ds) j)
         = Some (scan_from (\<lambda>b. b \<in> set ds) mem (buf + i) (len - i))"
  using assms(6)
proof (induction "len - i" arbitrary: i rule: less_induct)
  case less
  show ?case
  proof (cases "i + 16 \<le> len")
    case True
    then have n: "len - i = 16 + (len - (i + 16))" by simp
    have sc: "scan_from (\<lambda>b. b \<in> set ds) mem (buf + i) (len - i) =
        (if \<exists>b\<in>set (span mem (buf + i) 16). b \<in> set ds then scan_from (\<lambda>b. b \<in> set ds) mem (buf + i) 16
         else scan_from (\<lambda>b. b \<in> set ds) mem (buf + i + 16) (len - (i + 16)))"
      unfolding n using True assms(7) by (intro scan_from_append) simp
    have r: "rd_bytes mem (buf + i) 16 = Some (span mem (buf + i) 16)"
      using True assms(7) by (simp add: rd_bytes_in)
    have idx: "cmpestri needle k (span mem (buf + i) 16) =
        (case index_of (\<lambda>b. b \<in> set ds) (span mem (buf + i) 16) of Some j \<Rightarrow> j | None \<Rightarrow> 16)"
      using assms True by (simp add: cmpestri_documented_def)
    show ?thesis
    proof (cases "index_of (\<lambda>b. b \<in> set ds) (span mem (buf + i) 16)")
      case None
      then have "\<not> (\<exists>b\<in>set (span mem (buf + i) 16). b \<in> set ds)" by (simp add: index_of_None_iff)
      with sc less.hyps [of "i + 16"] True None idx r show ?thesis
        by (subst sse42_blocks.simps) (simp add: add.assoc)
    next
      case (Some j)
      then have "j < 16" by (auto simp: index_of_Some_iff)
      moreover from Some have "\<exists>b\<in>set (span mem (buf + i) 16). b \<in> set ds" by (rule index_of_SomeD)
      ultimately show ?thesis
        using sc Some idx r True by (subst sse42_blocks.simps) (simp add: scan_from_def)
    qed
  next
    case False
    with less.prems assms(7) show ?thesis
      by (subst sse42_blocks.simps) (simp add: sse42_tail_spec)
  qed
qed

lemma find_char_sse42_spec:
  assumes "cmpestri_documented cmpestri" and "p + n \<le> length mem" and "0 \<notin> set ds"
  shows "ihtp_scan_find_char_sse42 cmpestri mem p n (ds @ 0 # rest) =
           Some (scan_from (\<lambda>b. b \<in> set ds) mem p n)"
proof -
  have len: "c_strlen (ds @ 0 # rest) 0 = Some (length ds)"
    using c_strlen_spec [OF assms(3), of "[]" rest] by simp
  show ?thesis
  proof (cases "length ds = 0 \<or> 16 < length ds")
    case True
    with len assms show ?thesis
      by (auto simp: ihtp_scan_find_char_sse42_def find_char_scalar_spec)
  next
    case False
    have b: "rd_bytes (ds @ 0 # rest) 0 (length ds) = Some ds"
      by (simp add: rd_bytes_def span_def)
    from sse42_blocks_spec [OF assms(1), of "ds @ replicate (16 - length ds) 0" "length ds" ds 0 n p mem "0 # rest"]
      False len b assms(2) show ?thesis
      by (simp add: ihtp_scan_find_char_sse42_def split: option.splits sum.splits)
  qed
qed

section \<open>Run-time dispatch\<close>

record ihtp_scanner_vtable_t =
  vt_find_char :: "mem \<Rightarrow> nat \<Rightarrow> nat \<Rightarrow> mem \<Rightarrow> nat ub"
  vt_is_token :: "mem \<Rightarrow> nat \<Rightarrow> nat \<Rightarrow> bool ub"

record build_flags =
  have_avx2 :: bool
  have_sse42 :: bool

definition ihtp_scanner_backend_name_for_level :: "build_flags \<Rightarrow> int \<Rightarrow> string" where
  "ihtp_scanner_backend_name_for_level flags simd_level =
     (if have_avx2 flags \<and> simd_level AND 0x02 \<noteq> 0 then ''avx2''
      else if have_sse42 flags \<and> simd_level AND 0x01 \<noteq> 0 then ''sse42''
      else ''scalar'')"

definition ihtp_scanner_select_vtable ::
    "build_flags \<Rightarrow> cmpestri_t \<Rightarrow> int \<Rightarrow> ihtp_scanner_vtable_t" where
  "ihtp_scanner_select_vtable flags cmpestri simd_level =
     (let vtable = \<lparr> vt_find_char = ihtp_scan_find_char_scalar,
                     vt_is_token = ihtp_scan_is_token_scalar \<rparr>
      in if have_avx2 flags \<and> simd_level AND 0x02 \<noteq> 0 then
           vtable\<lparr> vt_find_char := ihtp_scan_find_char_avx2, vt_is_token := ihtp_scan_is_token_avx2 \<rparr>
         else if have_sse42 flags \<and> simd_level AND 0x01 \<noteq> 0 then
           vtable\<lparr> vt_find_char := ihtp_scan_find_char_sse42 cmpestri,
                   vt_is_token := ihtp_scan_is_token_sse42 \<rparr>
         else vtable)"

definition ihtp_scanner_simd_level :: "build_flags \<Rightarrow> (string \<Rightarrow> bool) \<Rightarrow> int" where
  "ihtp_scanner_simd_level flags cpu_supports =
     (let level = 0;
          level = (if have_sse42 flags \<and> cpu_supports ''sse4.2'' then level OR 0x01 else level);
          level = (if have_avx2 flags \<and> cpu_supports ''avx2'' then level OR 0x02 else level)
      in level)"

definition ihtp_scanner_active_backend_name :: "build_flags \<Rightarrow> (string \<Rightarrow> bool) \<Rightarrow> string" where
  "ihtp_scanner_active_backend_name flags cpu_supports =
     ihtp_scanner_backend_name_for_level flags (ihtp_scanner_simd_level flags cpu_supports)"

text \<open>
  The static objects \<open>scanner_vtable\<close> (null function pointers until initialised: \<open>None\<close>) and
  \<open>scanner_initialized\<close>.
\<close>

record scanner_globals =
  scanner_vtable :: "ihtp_scanner_vtable_t option"
  scanner_initialized :: bool

definition scanner_start :: scanner_globals where
  "scanner_start = \<lparr> scanner_vtable = None, scanner_initialized = False \<rparr>"

definition ihtp_scanner_init ::
    "build_flags \<Rightarrow> cmpestri_t \<Rightarrow> (string \<Rightarrow> bool) \<Rightarrow> scanner_globals \<Rightarrow> scanner_globals" where
  "ihtp_scanner_init flags cmpestri cpu_supports g =
     (if scanner_initialized g then g
      else \<lparr> scanner_vtable =
               Some (ihtp_scanner_select_vtable flags cmpestri
                       (ihtp_scanner_simd_level flags cpu_supports)),
             scanner_initialized = True \<rparr>)"

definition ihtp_scanner_get ::
    "build_flags \<Rightarrow> cmpestri_t \<Rightarrow> (string \<Rightarrow> bool) \<Rightarrow> scanner_globals \<Rightarrow>
       ihtp_scanner_vtable_t option \<times> scanner_globals" where
  "ihtp_scanner_get flags cmpestri cpu_supports g =
     (let g' = (if \<not> scanner_initialized g then ihtp_scanner_init flags cmpestri cpu_supports g else g)
      in (scanner_vtable g', g'))"

section \<open>Public scanner API\<close>

definition ihtp_scan_find_char ::
    "build_flags \<Rightarrow> cmpestri_t \<Rightarrow> (string \<Rightarrow> bool) \<Rightarrow> scanner_globals \<Rightarrow>
       mem \<Rightarrow> nat \<Rightarrow> nat \<Rightarrow> mem \<Rightarrow> (nat \<times> scanner_globals) ub" where
  "ihtp_scan_find_char flags cmpestri cpu_supports g mem buf len delims =
     (let (vt, g') = ihtp_scanner_get flags cmpestri cpu_supports g
      in do { vtable \<leftarrow> vt; p \<leftarrow> vt_find_char vtable mem buf len delims; Some (p, g') })"

definition ihtp_scan_is_token ::
    "build_flags \<Rightarrow> cmpestri_t \<Rightarrow> (string \<Rightarrow> bool) \<Rightarrow> scanner_globals \<Rightarrow>
       mem \<Rightarrow> nat \<Rightarrow> nat \<Rightarrow> (bool \<times> scanner_globals) ub" where
  "ihtp_scan_is_token flags cmpestri cpu_supports g mem buf len =
     (let (vt, g') = ihtp_scanner_get flags cmpestri cpu_supports g
      in do { vtable \<leftarrow> vt; ok \<leftarrow> vt_is_token vtable mem buf len; Some (ok, g') })"

function skip_lws_loop :: "mem \<Rightarrow> nat \<Rightarrow> nat \<Rightarrow> nat \<Rightarrow> nat ub" where
  "skip_lws_loop mem buf len i =
     (if i < len then
        do { c \<leftarrow> rd mem (buf + i); if ihtp_is_lws c then skip_lws_loop mem buf len (Suc i) else Some i }
      else Some i)"
  by pat_completeness auto
termination
  by (relation "measure (\<lambda>(mem, buf, len, i). len - i)") auto

declare skip_lws_loop.simps [simp del]

definition ihtp_scan_skip_lws :: "mem \<Rightarrow> nat \<Rightarrow> nat \<Rightarrow> nat ub" where
  "ihtp_scan_skip_lws mem buf len = skip_lws_loop mem buf len 0"

section \<open>Every dispatch table is a scanner backend\<close>

lemma select_vtable_backend:
  "cmpestri_documented cmpestri \<Longrightarrow>
     scanner_backend (vt_is_token (ihtp_scanner_select_vtable flags cmpestri level))
                     (vt_find_char (ihtp_scanner_select_vtable flags cmpestri level))"
  by unfold_locales
    (simp_all add: ihtp_scanner_select_vtable_def Let_def ihtp_scan_is_token_sse42_def
       find_char_sse42_spec leaf_specs)

text \<open>The dispatcher's state: what every call of the public API leaves behind.\<close>

definition scanner_ok ::
    "build_flags \<Rightarrow> cmpestri_t \<Rightarrow> (string \<Rightarrow> bool) \<Rightarrow> scanner_globals \<Rightarrow> bool" where
  "scanner_ok flags cmpestri cpu g \<longleftrightarrow>
     (scanner_initialized g \<longrightarrow>
        scanner_vtable g =
          Some (ihtp_scanner_select_vtable flags cmpestri (ihtp_scanner_simd_level flags cpu)))"

lemma scanner_ok_start [simp]: "scanner_ok flags cmpestri cpu scanner_start"
  by (simp add: scanner_ok_def scanner_start_def)

lemma scanner_get_ok:
  "scanner_ok flags cmpestri cpu g \<Longrightarrow>
     ihtp_scanner_get flags cmpestri cpu g =
       (Some (ihtp_scanner_select_vtable flags cmpestri (ihtp_scanner_simd_level flags cpu)),
        ihtp_scanner_init flags cmpestri cpu g)
     \<and> scanner_ok flags cmpestri cpu (ihtp_scanner_init flags cmpestri cpu g)
     \<and> scanner_initialized (ihtp_scanner_init flags cmpestri cpu g)"
  by (auto simp: ihtp_scanner_get_def ihtp_scanner_init_def scanner_ok_def Let_def)

lemma skip_lws_loop_spec:
  "i \<le> len \<Longrightarrow> buf + len \<le> length mem \<Longrightarrow>
     skip_lws_loop mem buf len i =
       Some (i + length (takeWhile ihtp_is_lws (span mem (buf + i) (len - i))))"
proof (induction "len - i" arbitrary: i)
  case 0
  then show ?case by (subst skip_lws_loop.simps) simp
next
  case (Suc k)
  then have i: "i < len" "len - i = Suc (len - Suc i)" by auto
  with Suc.hyps(1) [of "Suc i"] Suc.hyps(2) Suc.prems show ?case
    by (subst skip_lws_loop.simps) (simp add: rd_in span_Suc)
qed

end
