(* ===== verification/Ihtp_Fields.thy ===== *)
theory Ihtp_Fields
  imports Ihtp_Headers Ihtp_Dispatch
begin

text \<open>
  The field-value parsers of src/ihtp_semantics.c: case-insensitive comparison, Content-Length,
  and the comma-separated lists of Transfer-Encoding, Connection and Trailer, and Expect.  The
  token test of the dispatched scanner (\<open>ihtp_scanner_get ()->is_token\<close>) is an argument; what
  is proved of its users is proved in the locale \<open>token_scanner\<close>.  The three list parsers walk
  the value with the same loop; it is one definition here, with the code for one element as an
  argument.  Each parser is evaluated to a definition on the bytes of the value.
\<close>

section \<open>Case-insensitive comparison\<close>

definition to_lower :: "byte \<Rightarrow> byte" where
  "to_lower c = (if 0x41 \<le> c \<and> c \<le> 0x5A then c + (0x61 - 0x41) else c)"

function eq_ignore_case_loop :: "mem \<Rightarrow> nat \<Rightarrow> mem \<Rightarrow> nat \<Rightarrow> nat \<Rightarrow> bool ub" where
  "eq_ignore_case_loop mem p lit n i =
     (if i < n then
        do { a \<leftarrow> rd mem (p + i);
             b \<leftarrow> rd lit i;
             if to_lower a \<noteq> to_lower b then Some False else eq_ignore_case_loop mem p lit n (Suc i) }
      else Some True)"
  by pat_completeness auto
termination
  by (relation "measure (\<lambda>(mem, p, lit, n, i). n - i)") auto

declare eq_ignore_case_loop.simps [simp del]

definition header_name_eq :: "mem \<Rightarrow> ihtp_header_t \<Rightarrow> mem \<Rightarrow> nat \<Rightarrow> bool ub" where
  "header_name_eq mem h name name_len =
     (if hdr_name_len h \<noteq> name_len then Some False
      else if name_len = 0 then Some True
      else do { p \<leftarrow> hdr_name h; eq_ignore_case_loop mem p name name_len 0 })"

definition bytes_eq_ignore_case :: "mem \<Rightarrow> nat \<Rightarrow> nat \<Rightarrow> mem \<Rightarrow> nat \<Rightarrow> bool ub" where
  "bytes_eq_ignore_case mem buf len lit lit_len =
     (if len \<noteq> lit_len then Some False else eq_ignore_case_loop mem buf lit len 0)"

definition ci_eq :: "byte list \<Rightarrow> byte list \<Rightarrow> bool" where
  "ci_eq xs ys \<longleftrightarrow> map to_lower xs = map to_lower ys"

lemma eq_ignore_case_loop_spec:
  "i \<le> n \<Longrightarrow> p + n \<le> length mem \<Longrightarrow> n \<le> length lit \<Longrightarrow>
     eq_ignore_case_loop mem p lit n i =
       Some (ci_eq (span mem (p + i) (n - i)) (span lit i (n - i)))"
proof (induction "n - i" arbitrary: i)
  case 0
  then show ?case by (subst eq_ignore_case_loop.simps) (simp add: ci_eq_def)
next
  case (Suc k)
  then have i: "i < n" "n - i = Suc (n - Suc i)" by auto
  with Suc.hyps(1) [of "Suc i"] Suc.hyps(2) Suc.prems show ?case
    by (subst eq_ignore_case_loop.simps) (auto simp: rd_in span_Suc ci_eq_def)
qed

lemma span_all [simp]: "n = length xs \<Longrightarrow> span xs 0 n = xs"
  by (simp add: span_def)

lemma ci_eq_length: "ci_eq xs ys \<Longrightarrow> length xs = length ys"
  by (auto simp: ci_eq_def dest: map_eq_imp_length_eq)

lemma bytes_eq_ignore_case_in [leaf_specs]:
  "p + n \<le> length mem \<Longrightarrow>
     bytes_eq_ignore_case mem p n lit (length lit) = Some (ci_eq (span mem p n) lit)"
  using ci_eq_length [of "span mem p n" lit]
  by (auto simp: bytes_eq_ignore_case_def eq_ignore_case_loop_spec)

lemma header_name_eq_in [leaf_specs]:
  "hdr_name h = Some p \<Longrightarrow> p + hdr_name_len h \<le> length mem \<Longrightarrow>
     header_name_eq mem h lit (length lit) = Some (ci_eq (span mem p (hdr_name_len h)) lit)"
  using ci_eq_length [of "span mem p (hdr_name_len h)" lit]
  by (auto simp: header_name_eq_def eq_ignore_case_loop_spec) (simp add: ci_eq_def)

section \<open>Content-Length\<close>

function content_length_loop :: "mem \<Rightarrow> nat \<Rightarrow> nat \<Rightarrow> nat \<Rightarrow> 64 word \<Rightarrow> 64 word option ub" where
  "content_length_loop mem value len i result =
     (if i < len then
        do { c \<leftarrow> rd mem (value + i);
             if \<not> ihtp_is_digit c then Some None
             else
               let digit = word_of_int (uint c - 0x30) :: 64 word in
               if result > ((- 1) - digit) div 10 then Some None
               else content_length_loop mem value len (Suc i) (result * 10 + digit) }
      else Some (Some result))"
  by pat_completeness auto
termination
  by (relation "measure (\<lambda>(mem, value, len, i, result). len - i)") auto

declare content_length_loop.simps [simp del]

text \<open>\<open>None\<close> is the return value false, \<open>Some n\<close> the return value true with \<open>*out = n\<close>.\<close>

definition parse_content_length :: "mem \<Rightarrow> nat \<Rightarrow> nat \<Rightarrow> 64 word option ub" where
  "parse_content_length mem value len =
     (if len = 0 then Some None else content_length_loop mem value len 0 0)"

text \<open>The decimal numbers below \<open>2 ^ 64\<close>.\<close>

definition content_length_ref :: "byte list \<Rightarrow> 64 word option" where
  "content_length_ref s =
     (if s \<noteq> [] \<and> list_all ihtp_is_digit s \<and> decimal_value s < 2 ^ 64
      then Some (word_of_int (decimal_value s)) else None)"

definition decimal_from :: "int \<Rightarrow> byte list \<Rightarrow> int" where
  "decimal_from v ds = foldl (\<lambda>v d. 10 * v + digit_value d) v ds"

lemma decimal_from_simps [simp]:
  "decimal_from v [] = v" "decimal_from v (d # ds) = decimal_from (10 * v + digit_value d) ds"
  by (simp_all add: decimal_from_def)

lemma digit_range: "ihtp_is_digit c \<Longrightarrow> 0 \<le> digit_value c \<and> digit_value c \<le> 9"
  by (simp add: ihtp_is_digit_def digit_value_def word_le_def)

lemma decimal_from_mono:
  "0 \<le> v \<Longrightarrow> list_all ihtp_is_digit ds \<Longrightarrow> v \<le> decimal_from v ds"
proof (induction ds arbitrary: v)
  case Nil
  then show ?case by simp
next
  case (Cons d ds)
  with digit_range [of d] have v: "v \<le> 10 * v + digit_value d" "0 \<le> 10 * v + digit_value d" by simp_all
  with Cons have "10 * v + digit_value d \<le> decimal_from (10 * v + digit_value d) ds" by simp
  with v(1) show ?case by simp
qed

lemma overflow_check:
  fixes r d :: "64 word"
  assumes "uint d \<le> 9"
  shows "r > ((- 1) - d) div 10 \<longleftrightarrow> 2 ^ 64 \<le> 10 * uint r + uint d"
proof -
  have "uint (- 1 - d :: 64 word) = 2 ^ 64 - 1 - uint d"
  proof -
    have "uint (- 1 :: 64 word) = 2 ^ 64 - 1"
      by (simp add: unsigned_minus_1_eq_mask mask_eq_exp_minus_1)
    moreover have "d \<le> - 1" by simp
    ultimately show ?thesis by (subst uint_minus_simple_alt [THEN iffD1]) simp_all
  qed
  then have "uint ((- 1 - d) div 10 :: 64 word) = (2 ^ 64 - 1 - uint d) div 10"
    by (simp add: uint_div_distrib)
  then show ?thesis unfolding word_less_def using assms by simp linarith
qed

lemma decimal_step:
  fixes r d :: "64 word"
  assumes "10 * uint r + uint d < 2 ^ 64"
  shows "uint (r * 10 + d) = 10 * uint r + uint d"
proof -
  have "r * 10 + d = word_of_int (10 * uint r + uint d)" by simp
  then have "uint (r * 10 + d) = (10 * uint r + uint d) mod 2 ^ LENGTH(64)"
    by (simp only: uint_word_of_int)
  with assms show ?thesis by simp
qed

lemma content_length_loop_spec:
  "i \<le> len \<Longrightarrow> value + len \<le> length mem \<Longrightarrow>
     content_length_loop mem value len i result =
       Some (let s = span mem (value + i) (len - i); v = decimal_from (uint result) s
             in if list_all ihtp_is_digit s \<and> v < 2 ^ 64 then Some (word_of_int v) else None)"
proof (induction "len - i" arbitrary: i result)
  case 0
  then show ?case
    using uint_lt2p [of result] by (subst content_length_loop.simps) simp
next
  case (Suc k)
  then have i: "i < len" "len - i = Suc (len - Suc i)" by auto
  let ?c = "mem ! (value + i)" and ?s = "span mem (value + Suc i) (len - Suc i)"
  have s: "span mem (value + i) (len - i) = ?c # ?s" using i Suc.prems by (simp add: span_Suc)
  have r: "rd mem (value + i) = Some ?c" using i Suc.prems by (simp add: rd_in)
  show ?case
  proof (cases "ihtp_is_digit ?c")
    case False
    with i r s show ?thesis by (subst content_length_loop.simps) simp
  next
    case True
    let ?d = "word_of_int (uint ?c - 0x30) :: 64 word"
    have d: "uint ?d = digit_value ?c"
      using digit_range [OF True] unfolding uint_word_of_int digit_value_def by simp
    let ?v = "10 * uint result + digit_value ?c"
    have v0: "0 \<le> ?v" using digit_range [OF True] by simp
    have ov: "result > (- 1 - ?d) div 10 \<longleftrightarrow> 2 ^ 64 \<le> ?v"
      using overflow_check [of ?d result] d digit_range [OF True] by simp
    have step: "decimal_from (uint result) (?c # ?s) = decimal_from ?v ?s"
      by (simp add: decimal_from_def)
    show ?thesis
    proof (cases "2 ^ 64 \<le> ?v")
      case big: True
      then have "\<not> (list_all ihtp_is_digit ?s \<and> decimal_from ?v ?s < 2 ^ 64)"
        using decimal_from_mono [OF v0, of ?s] by auto
      with i r True ov big s step show ?thesis
        by (subst content_length_loop.simps) (simp add: Let_def)
    next
      case False
      have "uint (result * 10 + ?d) = ?v"
        using decimal_step [of result ?d, unfolded d] False by linarith
      with i r True ov False s step Suc.hyps(1) [of "Suc i" "result * 10 + ?d"] Suc.hyps(2) Suc.prems
      show ?thesis by (subst content_length_loop.simps) (simp add: Let_def)
    qed
  qed
qed

lemma parse_content_length_in [leaf_specs]:
  "p + n \<le> length mem \<Longrightarrow>
     parse_content_length mem p n = Some (content_length_ref (span mem p n))"
  using length_0_conv [of "span mem p n"]
  by (auto simp: parse_content_length_def content_length_loop_spec content_length_ref_def Let_def
      decimal_from_def decimal_value_def simp del: length_0_conv)


section \<open>Comma-separated lists\<close>

function find_comma :: "mem \<Rightarrow> nat \<Rightarrow> nat \<Rightarrow> nat \<Rightarrow> nat ub" where
  "find_comma mem value len pos =
     (if pos < len then
        do { c \<leftarrow> rd mem (value + pos);
             if c \<noteq> COMMA then find_comma mem value len (Suc pos) else Some pos }
      else Some pos)"
  by pat_completeness auto
termination
  by (relation "measure (\<lambda>(mem, value, len, pos). len - pos)") auto

text \<open>The two trimming loops: \<open>part\<close> and \<open>part_len\<close> after skipping SP and HTAB.\<close>

fun skip_front :: "mem \<Rightarrow> nat \<Rightarrow> nat \<Rightarrow> (nat \<times> nat) ub" where
  "skip_front mem part 0 = Some (part, 0)"
| "skip_front mem part (Suc part_len) =
     do { c \<leftarrow> rd mem part;
          if ihtp_is_lws c then skip_front mem (Suc part) part_len else Some (part, Suc part_len) }"

fun skip_back :: "mem \<Rightarrow> nat \<Rightarrow> nat \<Rightarrow> nat ub" where
  "skip_back mem part 0 = Some 0"
| "skip_back mem part (Suc part_len) =
     do { c \<leftarrow> rd mem (part + part_len);
          if ihtp_is_lws c then skip_back mem part part_len else Some (Suc part_len) }"

declare find_comma.simps [simp del]

text \<open>
  One pass of the loop of the three list parsers.  \<open>element\<close> is the code between the check for
  an empty element and the step over the comma; it returns \<open>None\<close> where the code returns false.
\<close>

type_synonym 'acc element = "mem \<Rightarrow> nat \<Rightarrow> nat \<Rightarrow> 'acc \<Rightarrow> 'acc option ub"

definition comma_step ::
    "'acc element \<Rightarrow> mem \<Rightarrow> nat \<Rightarrow> nat \<Rightarrow> nat \<times> 'acc \<Rightarrow> (nat \<times> 'acc, 'acc option) ctl ub" where
  "comma_step element mem value len = (\<lambda>(part_start, acc).
     do { pos \<leftarrow> find_comma mem value len part_start;
          (part, part_len) \<leftarrow> skip_front mem (value + part_start) (size_sub pos part_start);
          part_len \<leftarrow> skip_back mem part part_len;
          if part_len = 0 then Some (Return None)
          else do {
            r \<leftarrow> element mem part part_len acc;
            case r of
              None \<Rightarrow> Some (Return None)
            | Some acc \<Rightarrow>
                if pos < len then
                  do { c \<leftarrow> rd mem (value + pos);
                       if c = COMMA then
                         (if Suc pos = len then Some (Return None) else Some (Continue (Suc pos, acc)))
                       else Some (Continue (pos, acc)) }
                else Some (Continue (pos, acc)) } })"

lemma find_comma_stop:
  "find_comma mem value len pos = Some q \<Longrightarrow>
     pos \<le> q \<and> (q < len \<longrightarrow> rd mem (value + q) = Some COMMA) \<and> (pos \<le> len \<longrightarrow> q \<le> len)"
proof (induction mem "value" len pos rule: find_comma.induct)
  case (1 mem v len pos)
  show ?case
  proof (cases "pos < len")
    case True
    with "1.prems" obtain c where c: "rd mem (v + pos) = Some c"
      by (subst (asm) find_comma.simps) (auto simp: bind_eq_Some_conv)
    show ?thesis
    proof (cases "c = COMMA")
      case comma: True
      with True c "1.prems" have "q = pos" by (subst (asm) find_comma.simps) simp
      with True c comma show ?thesis by simp
    next
      case False
      with True c "1.prems" have "find_comma mem v len (Suc pos) = Some q"
        by (subst (asm) find_comma.simps) simp
      with True "1.IH" [OF True c False] show ?thesis by simp
    qed
  next
    case False
    with "1.prems" show ?thesis by (subst (asm) find_comma.simps) simp
  qed
qed

lemma skip_front_le: "skip_front mem p n = Some (q, m) \<Longrightarrow> m \<le> n"
  by (induction mem p n rule: skip_front.induct) (auto simp: bind_eq_Some_conv split: if_splits)

lemma skip_back_le: "skip_back mem p n = Some m \<Longrightarrow> m \<le> n"
  by (induction mem p n rule: skip_back.induct) (auto simp: bind_eq_Some_conv split: if_splits)

lemma comma_step_progress:
  assumes "comma_step element mem value len (pos, acc) = Some (Continue (pos', acc'))"
  shows "pos < pos'"
proof -
  have "continues (\<lambda>(pos', acc'). pos < pos') (comma_step element mem value len (pos, acc))"
    unfolding comma_step_def prod.case
  proof (intro continues_intros, goal_cases)
    case (1 q pl part n m r acc1 c)
    then show ?case using find_comma_stop [of mem "value" len pos q] by auto
  next
    case (2 q pl part n m r acc1 c)
    then show ?case using find_comma_stop [of mem "value" len pos q] by auto
  next
    case (3 q pl part n m r acc1)
    then have "n \<noteq> 0" using skip_back_le by fastforce
    with 3 have "size_sub q pos \<noteq> 0" using skip_front_le by fastforce
    with 3 find_comma_stop [of mem "value" len pos q] have "pos < q" by (auto simp: size_sub_def split: if_splits)
    then show ?case by simp
  qed
  with assms show ?thesis by (auto simp: continues_def)
qed

function comma_loop :: "'acc element \<Rightarrow> mem \<Rightarrow> nat \<Rightarrow> nat \<Rightarrow> nat \<Rightarrow> 'acc \<Rightarrow> 'acc option ub" where
  "comma_loop element mem value len pos acc =
     (if pos < len then
        do { r \<leftarrow> comma_step element mem value len (pos, acc);
             case r of
               Return result \<Rightarrow> Some result
             | Continue (pos', acc') \<Rightarrow> comma_loop element mem value len pos' acc' }
      else Some (Some acc))"
  by pat_completeness auto
termination
  by (relation "measure (\<lambda>(element, mem, value, len, pos, acc). len - pos)")
    (auto dest: comma_step_progress)

declare comma_loop.simps [simp del]

lemma comma_loop_end: "comma_loop element mem value len len acc = Some (Some acc)"
  by (subst comma_loop.simps) simp

text \<open>The elements of a list, as bytes.\<close>

fun list_parts :: "byte list \<Rightarrow> byte list list" where
  "list_parts [] = [[]]"
| "list_parts (c # cs) =
     (if c = COMMA then [] # list_parts cs
      else case list_parts cs of p # ps \<Rightarrow> (c # p) # ps | [] \<Rightarrow> [[c]])"

fun walk :: "(byte list \<Rightarrow> 'acc \<Rightarrow> 'acc option) \<Rightarrow> byte list list \<Rightarrow> 'acc \<Rightarrow> 'acc option" where
  "walk f [] acc = Some acc"
| "walk f (p # ps) acc =
     (if trim_ows p = [] then None
      else case f (trim_ows p) acc of None \<Rightarrow> None | Some acc' \<Rightarrow> walk f ps acc')"

definition comma_ref :: "(byte list \<Rightarrow> 'acc \<Rightarrow> 'acc option) \<Rightarrow> byte list \<Rightarrow> 'acc \<Rightarrow> 'acc option" where
  "comma_ref f s acc = (if s = [] then Some acc else walk f (list_parts s) acc)"

lemma list_parts_nonempty [simp]: "list_parts s \<noteq> []"
  by (induction s) (auto split: list.splits)

lemma list_parts_no_comma: "COMMA \<notin> set s \<Longrightarrow> list_parts s = [s]"
  by (induction s) auto

lemma list_parts_comma: "COMMA \<notin> set s \<Longrightarrow> list_parts (s @ COMMA # t) = s # list_parts t"
  by (induction s) auto

lemma skip_front_in: "p + n \<le> length mem \<Longrightarrow>
    skip_front mem p n = Some (p + lws_prefix (span mem p n), n - lws_prefix (span mem p n))"
  by (induction mem p n rule: skip_front.induct) (simp_all add: lws_prefix_def rd_in span_Suc)

lemma skip_back_in: "p + n \<le> length mem \<Longrightarrow> skip_back mem p n = Some (length (rtrim (span mem p n)))"
  by (induction mem p n rule: skip_back.induct) (simp_all add: rd_in span_snoc rtrim_snoc)

lemma find_comma_in:
  "pos \<le> len \<Longrightarrow> value + len \<le> length mem \<Longrightarrow>
     find_comma mem value len pos =
       Some (case index_of (\<lambda>b. b = COMMA) (span mem (value + pos) (len - pos)) of
               Some i \<Rightarrow> pos + i | None \<Rightarrow> len)"
proof (induction "len - pos" arbitrary: pos)
  case 0
  then show ?case by (subst find_comma.simps) simp
next
  case (Suc k)
  then have i: "pos < len" "len - pos = Suc (len - Suc pos)" by auto
  with Suc.hyps(1) [of "Suc pos"] Suc.hyps(2) Suc.prems show ?case
    by (subst find_comma.simps) (auto simp: rd_in span_Suc split: option.splits)
qed

lemma rtrim_trimmed: "trim_ows s = e \<Longrightarrow> rtrim e = e"
proof -
  have "rtrim (rtrim xs) = rtrim xs" for xs
    by (induction xs rule: rev_induct) (auto simp: rtrim_snoc)
  then show "trim_ows s = e \<Longrightarrow> rtrim e = e" by (auto simp: trim_ows_def)
qed

text \<open>
  The contract of the code for one (trimmed, nonempty) element, and the list parser proved from it.
\<close>

locale element_parser =
  fixes element :: "'acc element"
    and element_ref :: "byte list \<Rightarrow> 'acc \<Rightarrow> 'acc option"
  assumes element_in: "p + n \<le> length mem \<Longrightarrow> 0 < n \<Longrightarrow> rtrim (span mem p n) = span mem p n \<Longrightarrow>
    element mem p n acc = Some (element_ref (span mem p n) acc)"
begin

lemma comma_step_in:
  assumes "pos < len" and "value + len \<le> length mem"
  shows "comma_step element mem value len (pos, acc) =
    (let s = span mem (value + pos) (len - pos);
         q = (case index_of (\<lambda>b. b = COMMA) s of Some i \<Rightarrow> i | None \<Rightarrow> len - pos);
         part = trim_ows (take q s)
     in Some (if part = [] then Return None
              else case element_ref part acc of
                None \<Rightarrow> Return None
              | Some acc' \<Rightarrow>
                  if q < len - pos
                  then (if Suc (pos + q) = len then Return None else Continue (Suc (pos + q), acc'))
                  else Continue (len, acc')))"
proof -
  define s where "s = span mem (value + pos) (len - pos)"
  define q where "q = (case index_of (\<lambda>b. b = COMMA) s of Some i \<Rightarrow> i | None \<Rightarrow> len - pos)"
  have len: "length s = len - pos" using assms by (simp add: s_def)
  have q: "q \<le> len - pos" and comma: "q < len - pos \<Longrightarrow> s ! q = COMMA"
    using len by (cases "index_of (\<lambda>b. b = COMMA) s"; auto simp: q_def dest: index_of_Some_iff [THEN iffD1])+
  have fc: "find_comma mem value len pos = Some (pos + q)"
    using assms by (auto simp: find_comma_in q_def s_def [symmetric] split: option.splits)
  let ?p = "take q s"
  have p: "span mem (value + pos) q = ?p" using q by (simp add: s_def take_span min_def)
  let ?f = "lws_prefix ?p"
  have f: "?f \<le> q" using lws_prefix_le [of ?p] q len by simp
  have sf: "skip_front mem (value + pos) q = Some (value + pos + ?f, q - ?f)"
    using skip_front_in [of "value + pos" q mem] q assms p by simp
  have lt: "span mem (value + pos + ?f) (q - ?f) = ltrim ?p"
    using drop_span [of ?f mem "value + pos" q] p by (simp add: ltrim_drop)
  have sb: "skip_back mem (value + pos + ?f) (q - ?f) = Some (length (trim_ows ?p))"
    using skip_back_in [of "value + pos + ?f" "q - ?f" mem] f q assms lt by (simp add: trim_ows_def)
  have tl: "length (trim_ows ?p) \<le> q - ?f"
    using trim_ows_bounds [of ?p] q len by simp
  have el: "element mem (value + pos + ?f) (length (trim_ows ?p)) acc = Some (element_ref (trim_ows ?p) acc)"
    if "trim_ows ?p \<noteq> []"
  proof -
    have "span mem (value + pos + ?f) (length (trim_ows ?p)) = trim_ows ?p"
      using tl lt rtrim_take [of "ltrim ?p"] unfolding trim_ows_def by (metis min.absorb1 take_span)
    moreover have "value + pos + ?f + length (trim_ows ?p) \<le> length mem" using tl f q assms by simp
    ultimately show ?thesis using element_in that rtrim_trimmed by (metis length_greater_0_conv)
  qed
  have rd: "rd mem (value + (pos + q)) = Some COMMA" if "q < len - pos"
    using comma [OF that] that assms by (simp add: rd_in s_def add.assoc)
  have "comma_step element mem value len (pos, acc) =
     Some (if trim_ows ?p = [] then Return None
              else case element_ref (trim_ows ?p) acc of
                None \<Rightarrow> Return None
              | Some acc' \<Rightarrow>
                  if q < len - pos
                  then (if Suc (pos + q) = len then Return None else Continue (Suc (pos + q), acc'))
                  else Continue (len, acc'))"
    using fc sf sb el rd q assms
    by (auto simp: comma_step_def split: option.splits)
  then show ?thesis unfolding Let_def s_def [symmetric] q_def [symmetric] .
qed

lemma comma_loop_in:
  "pos \<le> len \<Longrightarrow> value + len \<le> length mem \<Longrightarrow>
     comma_loop element mem value len pos acc =
       Some (comma_ref element_ref (span mem (value + pos) (len - pos)) acc)"
proof (induction "len - pos" arbitrary: pos acc rule: less_induct)
  case less
  show ?case
  proof (cases "pos < len")
    case False
    with less.prems show ?thesis by (subst comma_loop.simps) (simp add: comma_ref_def)
  next
    case True
    define s where "s = span mem (value + pos) (len - pos)"
    have len: "length s = len - pos" using True less.prems by (simp add: s_def)
    then have s: "s \<noteq> []" using True by auto
    note step = comma_step_in [OF True less.prems(2), of acc, unfolded Let_def s_def [symmetric]]
    show ?thesis
    proof (cases "index_of (\<lambda>b. b = COMMA) s")
      case None
      then have "list_parts s = [s]" by (intro list_parts_no_comma) (auto simp: index_of_None_iff)
      moreover have "take (len - pos) s = s" using len by simp
      ultimately show ?thesis
        using None step True s unfolding s_def [symmetric]
        by (subst comma_loop.simps)
          (simp add: comma_ref_def comma_loop_end split: option.split)
    next
      case (Some i)
      then obtain us vs where uv: "s = us @ COMMA # vs" "i = length us" "\<forall>u\<in>set us. u \<noteq> COMMA"
        by (auto simp: index_of_split)
      then have parts: "list_parts s = us # list_parts vs" using list_parts_comma [of us vs] by auto
      have i: "i < len - pos" using uv len by simp
      have tk: "take i s = us" using uv by simp
      have sh: "span mem (value + Suc (pos + i)) (len - Suc (pos + i)) = vs"
        and lv: "length vs = len - Suc (pos + i)"
      proof -
        have "drop (Suc i) s = vs" using uv by simp
        then show "span mem (value + Suc (pos + i)) (len - Suc (pos + i)) = vs"
          unfolding s_def drop_span by (simp add: add.assoc)
        show "length vs = len - Suc (pos + i)" using len uv by simp
      qed
      note step' = step [unfolded Some option.case tk]
      show ?thesis
      proof (cases "trim_ows us = [] \<or> element_ref (trim_ows us) acc = None")
        case True
        with step' \<open>pos < len\<close> parts s show ?thesis
          unfolding s_def [symmetric]
          by (subst comma_loop.simps) (auto simp: comma_ref_def)
      next
        case False
        then obtain acc' where e: "trim_ows us \<noteq> []" "element_ref (trim_ows us) acc = Some acc'" by auto
        show ?thesis
        proof (cases "Suc (pos + i) = len")
          case True
          then have "vs = []" using lv by simp
          with True step' e i \<open>pos < len\<close> parts s show ?thesis
            unfolding s_def [symmetric]
            by (subst comma_loop.simps) (simp add: comma_ref_def trim_ows_def ltrim_def)
        next
          case False
          then have "vs \<noteq> []" "Suc (pos + i) \<le> len" "len - Suc (pos + i) < len - pos"
            using lv i by auto
          with less.hyps [of "Suc (pos + i)" acc'] less.prems(2) sh False step' e i \<open>pos < len\<close> parts s
          show ?thesis
            unfolding s_def [symmetric]
            by (subst comma_loop.simps) (simp add: comma_ref_def)
        qed
      qed
    qed
  qed
qed

end


section \<open>Transfer-Encoding, Connection, Trailer, Expect\<close>

type_synonym token_test = "mem \<Rightarrow> nat \<Rightarrow> nat \<Rightarrow> bool ub"

text \<open>\<open>(saw_coding, final_chunked, local_chunked_count)\<close>\<close>

definition te_element :: "token_test \<Rightarrow> (bool \<times> bool \<times> nat) element" where
  "te_element is_token mem part part_len = (\<lambda>(saw_coding, final_chunked, count).
     do { params \<leftarrow> c_memchr mem part SEMI part_len;
          coding \<leftarrow> (case params of
                       None \<Rightarrow> Some (Some (part_len, False))
                     | Some params \<Rightarrow>
                         do { coding_len \<leftarrow> skip_back mem part (size_sub params part);
                              Some (if coding_len = 0 then None else Some (coding_len, True)) });
          case coding of
            None \<Rightarrow> Some None
          | Some (coding_len, has_params) \<Rightarrow>
              do { ok \<leftarrow> is_token mem part coding_len;
                   if \<not> ok then Some None
                   else do {
                     final_chunked \<leftarrow> bytes_eq_ignore_case mem part coding_len (ascii ''chunked'') 7;
                     if final_chunked \<and> has_params then Some None
                     else Some (Some (True, final_chunked,
                                      if final_chunked then Suc count else count)) } } })"

definition parse_transfer_encoding ::
    "token_test \<Rightarrow> mem \<Rightarrow> nat \<Rightarrow> nat \<Rightarrow> (bool \<times> nat) option ub" where
  "parse_transfer_encoding is_token mem value len =
     do { r \<leftarrow> comma_loop (te_element is_token) mem value len 0 (False, False, 0);
          Some (case r of
                  None \<Rightarrow> None
                | Some (saw_coding, final_chunked, count) \<Rightarrow>
                    if \<not> saw_coding then None else Some (final_chunked, count)) }"

text \<open>\<open>((*has_close, *has_keep_alive, *has_upgrade), saw_token)\<close>\<close>

type_synonym connection_flags = "bool \<times> bool \<times> bool"

definition connection_element :: "token_test \<Rightarrow> (connection_flags \<times> bool) element" where
  "connection_element is_token mem part part_len = (\<lambda>((close, keep_alive, upgrade), saw_token).
     do { ok \<leftarrow> is_token mem part part_len;
          if \<not> ok then Some None
          else do {
            eq \<leftarrow> bytes_eq_ignore_case mem part part_len (ascii ''close'') 5;
            if eq then Some (Some ((True, keep_alive, upgrade), True))
            else do {
              eq \<leftarrow> bytes_eq_ignore_case mem part part_len (ascii ''keep-alive'') 10;
              if eq then Some (Some ((close, True, upgrade), True))
              else do {
                eq \<leftarrow> bytes_eq_ignore_case mem part part_len (ascii ''upgrade'') 7;
                Some (Some ((close, keep_alive, if eq then True else upgrade), True)) } } } })"

definition parse_connection_header ::
    "token_test \<Rightarrow> mem \<Rightarrow> nat \<Rightarrow> nat \<Rightarrow> connection_flags \<Rightarrow> connection_flags option ub" where
  "parse_connection_header is_token mem value len flags =
     do { r \<leftarrow> comma_loop (connection_element is_token) mem value len 0 (flags, False);
          Some (case r of
                  None \<Rightarrow> None
                | Some (flags, saw_token) \<Rightarrow> if saw_token then Some flags else None) }"

definition trailer_element :: "token_test \<Rightarrow> bool element" where
  "trailer_element is_token mem part part_len saw_token =
     do { ok \<leftarrow> is_token mem part part_len; Some (if \<not> ok then None else Some True) }"

definition parse_trailer_header :: "token_test \<Rightarrow> mem \<Rightarrow> nat \<Rightarrow> nat \<Rightarrow> bool ub" where
  "parse_trailer_header is_token mem value len =
     do { r \<leftarrow> comma_loop (trailer_element is_token) mem value len 0 False;
          Some (case r of None \<Rightarrow> False | Some saw_token \<Rightarrow> saw_token) }"

text \<open>\<open>None\<close> is the return value false, \<open>Some b\<close> true with \<open>*expects_continue = b\<close>.\<close>

definition parse_expect_header :: "mem \<Rightarrow> nat \<Rightarrow> nat \<Rightarrow> bool option ub" where
  "parse_expect_header mem value len =
     do { (part, part_len) \<leftarrow> skip_front mem value len;
          part_len \<leftarrow> skip_back mem part part_len;
          if part_len = 0 then Some None
          else do { eq \<leftarrow> bytes_eq_ignore_case mem part part_len (ascii ''100-continue'') 12;
                    Some (Some eq) } }"

section \<open>Reference definitions of the lists\<close>

definition list_elements :: "byte list \<Rightarrow> byte list list" where
  "list_elements s = map trim_ows (list_parts s)"

text \<open>A transfer coding: its name, and whether it has parameters.\<close>

definition coding_name :: "byte list \<Rightarrow> byte list" where
  "coding_name e = rtrim (takeWhile (\<lambda>b. b \<noteq> SEMI) e)"

definition is_chunked :: "byte list \<Rightarrow> bool" where
  "is_chunked e \<longleftrightarrow> ci_eq (coding_name e) (ascii ''chunked'')"

definition coding_ok :: "byte list \<Rightarrow> bool" where
  "coding_ok e \<longleftrightarrow> coding_name e \<noteq> [] \<and> list_all tchar (coding_name e) \<and> \<not> (is_chunked e \<and> SEMI \<in> set e)"

definition transfer_encoding_ref :: "byte list \<Rightarrow> (bool \<times> nat) option" where
  "transfer_encoding_ref s =
     (if list_all coding_ok (list_elements s)
      then Some (is_chunked (List.last (list_elements s)), length (filter is_chunked (list_elements s)))
      else None)"

definition token_ok :: "byte list \<Rightarrow> bool" where
  "token_ok e \<longleftrightarrow> e \<noteq> [] \<and> list_all tchar e"

definition connection_ref :: "byte list \<Rightarrow> connection_flags option" where
  "connection_ref s =
     (if list_all token_ok (list_elements s)
      then Some (\<exists>e\<in>set (list_elements s). ci_eq e (ascii ''close''),
                 \<exists>e\<in>set (list_elements s). ci_eq e (ascii ''keep-alive''),
                 \<exists>e\<in>set (list_elements s). ci_eq e (ascii ''upgrade''))
      else None)"

definition or_flags :: "connection_flags \<Rightarrow> connection_flags \<Rightarrow> connection_flags" where
  "or_flags = (\<lambda>(a, b, c) (a', b', c'). (a \<or> a', b \<or> b', c \<or> c'))"

definition expect_ref :: "byte list \<Rightarrow> bool option" where
  "expect_ref s = (if trim_ows s = [] then None else Some (ci_eq (trim_ows s) (ascii ''100-continue'')))"

text \<open>The code for one element against its definition on bytes.\<close>

definition te_element_ref :: "byte list \<Rightarrow> bool \<times> bool \<times> nat \<Rightarrow> (bool \<times> bool \<times> nat) option" where
  "te_element_ref e = (\<lambda>(saw, final, count).
     if coding_ok e then Some (True, is_chunked e, if is_chunked e then Suc count else count) else None)"

definition connection_element_ref ::
    "byte list \<Rightarrow> connection_flags \<times> bool \<Rightarrow> (connection_flags \<times> bool) option" where
  "connection_element_ref e = (\<lambda>(flags, saw).
     if token_ok e
     then Some (or_flags flags (ci_eq e (ascii ''close''), ci_eq e (ascii ''keep-alive''),
                                ci_eq e (ascii ''upgrade'')), True)
     else None)"

definition trailer_element_ref :: "byte list \<Rightarrow> bool \<Rightarrow> bool option" where
  "trailer_element_ref e saw = (if token_ok e then Some True else None)"

lemma ci_eq_literals:
  "ci_eq e (ascii ''close'') \<Longrightarrow> \<not> ci_eq e (ascii ''keep-alive'')"
  "ci_eq e (ascii ''close'') \<Longrightarrow> \<not> ci_eq e (ascii ''upgrade'')"
  "ci_eq e (ascii ''keep-alive'') \<Longrightarrow> \<not> ci_eq e (ascii ''upgrade'')"
  by (auto dest!: ci_eq_length)

lemma literal_eq:
  "length lit = m \<Longrightarrow> p + n \<le> length mem \<Longrightarrow>
     bytes_eq_ignore_case mem p n lit m = Some (ci_eq (span mem p n) lit)"
  using bytes_eq_ignore_case_in by blast

section \<open>The list parsers on bytes\<close>

lemma span_nonempty: "0 < n \<Longrightarrow> p + n \<le> length mem \<Longrightarrow> span mem p n \<noteq> []"
  by (auto simp: span_def)

lemma coding_name_params:
  "index_of (\<lambda>b. b = SEMI) e = Some i \<Longrightarrow> coding_name e = rtrim (take i e) \<and> SEMI \<in> set e"
  by (auto simp: coding_name_def index_of_split)

lemma coding_name_plain:
  "index_of (\<lambda>b. b = SEMI) e = None \<Longrightarrow> rtrim e = e \<Longrightarrow> coding_name e = e \<and> SEMI \<notin> set e"
  by (auto simp: coding_name_def index_of_None_iff takeWhile_eq_all_conv [THEN iffD2])

context token_scanner
begin

lemma te_element_in:
  assumes p: "p + n \<le> length mem" and n: "0 < n" and tr: "rtrim (span mem p n) = span mem p n"
  shows "te_element is_token mem p n acc = Some (te_element_ref (span mem p n) acc)"
proof -
  obtain saw fin count where acc: "acc = (saw, fin, count)" by (cases acc)
  define e where "e = span mem p n"
  have le: "length e = n" using p by (simp add: e_def)
  show ?thesis
  proof (cases "index_of (\<lambda>b. b = SEMI) e")
    case None
    then have nm: "coding_name e = e" "SEMI \<notin> set e" using coding_name_plain tr e_def by auto
    have "e \<noteq> []" using le n by auto
    with None nm p acc show ?thesis
      unfolding te_element_def te_element_ref_def coding_ok_def is_chunked_def
      by (simp add: c_memchr_in e_def [symmetric] is_token_spec literal_eq)
  next
    case (Some i)
    then have nm: "coding_name e = rtrim (take i e)" "SEMI \<in> set e" using coding_name_params by auto
    have i: "i < n" using Some le by (auto simp: index_of_Some_iff)
    then have t: "take i e = span mem p i" by (simp add: e_def take_span)
    have sb: "skip_back mem p i = Some (length (coding_name e))"
      using skip_back_in [of p i mem] i p nm t by simp
    have l: "length (coding_name e) \<le> i"
      using length_rtrim_le [of "take i e"] nm by simp
    have sp: "span mem p (length (coding_name e)) = coding_name e"
      using rtrim_take [of "span mem p i"] nm t l by (metis min.absorb1 take_span)
    have "p + length (coding_name e) \<le> length mem" using l i p by simp
    with Some nm sb sp p acc show ?thesis
      unfolding te_element_def te_element_ref_def coding_ok_def is_chunked_def
      by (simp add: c_memchr_in e_def [symmetric] is_token_spec literal_eq)
  qed
qed

lemma connection_element_in:
  "p + n \<le> length mem \<Longrightarrow> 0 < n \<Longrightarrow>
     connection_element is_token mem p n acc = Some (connection_element_ref (span mem p n) acc)"
  using span_nonempty [of n p mem]
  by (cases acc)
    (auto simp: connection_element_def connection_element_ref_def token_ok_def or_flags_def
      is_token_spec literal_eq ci_eq_literals split: prod.split)

lemma trailer_element_in:
  "p + n \<le> length mem \<Longrightarrow> 0 < n \<Longrightarrow>
     trailer_element is_token mem p n acc = Some (trailer_element_ref (span mem p n) acc)"
  using span_nonempty [of n p mem]
  by (auto simp: trailer_element_def trailer_element_ref_def token_ok_def is_token_spec)

end

sublocale token_scanner \<subseteq> te: element_parser "te_element is_token" te_element_ref
  by unfold_locales (rule te_element_in)

sublocale token_scanner \<subseteq> connection: element_parser "connection_element is_token" connection_element_ref
  by unfold_locales (rule connection_element_in)

sublocale token_scanner \<subseteq> trailer: element_parser "trailer_element is_token" trailer_element_ref
  by unfold_locales (rule trailer_element_in)

lemma not_coding_ok_Nil [simp]: "\<not> coding_ok []"
  by (simp add: coding_ok_def coding_name_def)

lemma not_token_ok_Nil [simp]: "\<not> token_ok []"
  by (simp add: token_ok_def)

lemma walk_te:
  "walk te_element_ref ps (saw, fin, count) =
     (if list_all coding_ok (map trim_ows ps)
      then Some (saw \<or> ps \<noteq> [], if ps = [] then fin else is_chunked (List.last (map trim_ows ps)),
                 count + length (filter is_chunked (map trim_ows ps)))
      else None)"
  by (induction ps arbitrary: saw fin count) (auto simp: te_element_ref_def)

lemma or_flags_simps [simp]:
  "or_flags (a, b, c) (a', b', c') = (a \<or> a', b \<or> b', c \<or> c')"
  by (simp add: or_flags_def)

lemma walk_connection:
  "walk connection_element_ref ps (flags, saw) =
     (if list_all token_ok (map trim_ows ps)
      then Some (or_flags flags
                   (\<exists>e\<in>set (map trim_ows ps). ci_eq e (ascii ''close''),
                    \<exists>e\<in>set (map trim_ows ps). ci_eq e (ascii ''keep-alive''),
                    \<exists>e\<in>set (map trim_ows ps). ci_eq e (ascii ''upgrade'')),
                 saw \<or> ps \<noteq> [])
      else None)"
  by (induction ps arbitrary: flags saw) (auto simp: connection_element_ref_def)

lemma walk_trailer:
  "walk trailer_element_ref ps saw =
     (if list_all token_ok (map trim_ows ps) then Some (saw \<or> ps \<noteq> []) else None)"
  by (induction ps arbitrary: saw) (auto simp: trailer_element_ref_def)

lemma list_elements_Nil [simp]: "list_elements [] = [[]]"
  by (simp add: list_elements_def trim_ows_def ltrim_def)

lemma list_elements_nonempty [simp]: "list_elements s \<noteq> []"
  by (simp add: list_elements_def)

context token_scanner
begin

lemma parse_transfer_encoding_in:
  "p + n \<le> length mem \<Longrightarrow>
     parse_transfer_encoding is_token mem p n = Some (transfer_encoding_ref (span mem p n))"
  using te.comma_loop_in [of 0 n p mem "(False, False, 0)"]
  by (cases "span mem p n = []")
    (simp_all add: parse_transfer_encoding_def comma_ref_def walk_te transfer_encoding_ref_def
      list_elements_def trim_ows_def ltrim_def)

lemma parse_connection_header_in:
  "p + n \<le> length mem \<Longrightarrow>
     parse_connection_header is_token mem p n flags =
       Some (map_option (or_flags flags) (connection_ref (span mem p n)))"
  using connection.comma_loop_in [of 0 n p mem "(flags, False)"]
  by (cases "span mem p n = []")
    (simp_all add: parse_connection_header_def comma_ref_def walk_connection connection_ref_def
      list_elements_def trim_ows_def ltrim_def)

lemma parse_trailer_header_in:
  "p + n \<le> length mem \<Longrightarrow>
     parse_trailer_header is_token mem p n = Some (list_all token_ok (list_elements (span mem p n)))"
  using trailer.comma_loop_in [of 0 n p mem False]
  by (cases "span mem p n = []")
    (simp_all add: parse_trailer_header_def comma_ref_def walk_trailer
      list_elements_def trim_ows_def ltrim_def)

end

lemma parse_expect_header_in:
  assumes "p + n \<le> length mem"
  shows "parse_expect_header mem p n = Some (expect_ref (span mem p n))"
proof -
  define s where "s = span mem p n"
  have f: "lws_prefix s \<le> n" using lws_prefix_le [of s] by (simp add: s_def)
  have l: "span mem (p + lws_prefix s) (n - lws_prefix s) = ltrim s"
    unfolding ltrim_drop by (simp add: s_def drop_span)
  have sb: "skip_back mem (p + lws_prefix s) (n - lws_prefix s) = Some (length (trim_ows s))"
    using skip_back_in [of "p + lws_prefix s" "n - lws_prefix s" mem] f assms l
    by (simp add: trim_ows_def)
  have tl: "length (trim_ows s) \<le> n - lws_prefix s"
    using trim_ows_bounds [of s] assms by (simp add: s_def)
  have sp: "span mem (p + lws_prefix s) (length (trim_ows s)) = trim_ows s"
    using tl l rtrim_take [of "ltrim s"] unfolding trim_ows_def by (metis min.absorb1 take_span)
  have b: "bytes_eq_ignore_case mem (p + lws_prefix s) (length (trim_ows s)) (ascii ''100-continue'') 12
      = Some (ci_eq (trim_ows s) (ascii ''100-continue''))"
    using literal_eq [of "ascii ''100-continue''" 12 "p + lws_prefix s" "length (trim_ows s)" mem] tl f assms sp by simp
  from skip_front_in [OF assms, folded s_def] sb b show ?thesis
    by (simp add: parse_expect_header_def expect_ref_def s_def [symmetric])
qed

end
