(* ===== verification/Ihtp_Parser.thy ===== *)
theory Ihtp_Parser
  imports Ihtp_Headers
begin

text \<open>
  The parser entry points of src/ihtp_parser.c: the explicit parser state, the three stateful
  parsers (request, response, header block) and the three stateless ones.  Every pointer
  argument may be null; an object behind a pointer is passed in and returned updated.  The body
  of each entry point on non-null arguments is a definition of its own, split at the phases of
  the state machine.
\<close>

section \<open>The parser state\<close>

definition initial_phase :: "ihtp_parser_mode_t \<Rightarrow> ihtp_parser_phase_t" where
  "initial_phase mode =
     (if mode = IHTP_PARSER_MODE_HEADERS then IHTP_PARSER_PHASE_HEADERS
      else IHTP_PARSER_PHASE_START_LINE)"

definition ihtp_parser_state_init ::
    "ihtp_parser_state_t option \<Rightarrow> ihtp_parser_mode_t \<Rightarrow> ihtp_parser_state_t option" where
  "ihtp_parser_state_init state mode =
     (case state of
        None \<Rightarrow> None
      | Some state \<Rightarrow>
          Some (state\<lparr> ps_mode := mode, ps_phase := initial_phase mode, ps_cursor := 0 \<rparr>))"

definition ihtp_parser_state_reset :: "ihtp_parser_state_t option \<Rightarrow> ihtp_parser_state_t option" where
  "ihtp_parser_state_reset state =
     (case state of
        None \<Rightarrow> None
      | Some state \<Rightarrow> Some (state\<lparr> ps_phase := initial_phase (ps_mode state), ps_cursor := 0 \<rparr>))"

definition resolve_policy :: "ihtp_policy_t option \<Rightarrow> ihtp_policy_t option" where
  "resolve_policy policy = (case policy of None \<Rightarrow> Some IHTP_POLICY_STRICT | Some p \<Rightarrow> Some p)"

definition parser_state_error ::
    "ihtp_parser_state_t option \<Rightarrow> ihtp_status_t \<times> ihtp_parser_state_t option" where
  "parser_state_error state =
     (IHTP_ERROR, map_option (\<lambda>s. s\<lparr> ps_phase := IHTP_PARSER_PHASE_ERROR \<rparr>) state)"

section \<open>Request\<close>

text \<open>\<open>(status, state, request, *bytes_consumed)\<close>\<close>

type_synonym request_result = "ihtp_status_t \<times> ihtp_parser_state_t \<times> ihtp_request_t \<times> nat"

definition request_start_line ::
    "mem \<Rightarrow> nat \<Rightarrow> nat \<Rightarrow> ihtp_policy_t option \<Rightarrow> ihtp_parser_state_t \<Rightarrow> ihtp_request_t \<Rightarrow>
       (ihtp_parser_state_t \<times> ihtp_request_t, request_result) ctl ub" where
  "request_start_line mem buf len policy state req =
     (if ps_phase state = IHTP_PARSER_PHASE_START_LINE then
        do { (status, req, line_end) \<leftarrow>
               parse_request_line mem (buf + ps_cursor state) (size_sub len (ps_cursor state)) req policy;
             if status \<noteq> IHTP_OK then
               (let state = (if status = IHTP_ERROR \<or> status = IHTP_ERROR_TOO_LONG
                             then state\<lparr> ps_phase := IHTP_PARSER_PHASE_ERROR \<rparr> else state)
                in Some (Return (status, state, req, 0)))
             else
               Some (Continue (state\<lparr> ps_cursor := ps_cursor state + line_end,
                                      ps_phase := IHTP_PARSER_PHASE_HEADERS \<rparr>, req)) }
      else Some (Continue (state, req)))"

definition request_headers ::
    "mem \<Rightarrow> nat \<Rightarrow> nat \<Rightarrow> ihtp_policy_t option \<Rightarrow> ihtp_parser_state_t \<Rightarrow> ihtp_request_t \<Rightarrow>
       (ihtp_parser_state_t \<times> ihtp_request_t, request_result) ctl ub" where
  "request_headers mem buf len policy state req =
     (if ps_phase state = IHTP_PARSER_PHASE_HEADERS then
        do { (status, headers, num_headers, block_end) \<leftarrow>
               parse_header_block mem (buf + ps_cursor state) (size_sub len (ps_cursor state))
                 (req_headers req) (req_num_headers req) (req_num_headers req) IHTP_MAX_HEADERS policy;
             let req = req\<lparr> req_headers := headers, req_num_headers := num_headers \<rparr>;
             let state = state\<lparr> ps_cursor := ps_cursor state + block_end \<rparr>;
             if status = IHTP_INCOMPLETE then Some (Return (status, state, req, 0))
             else if status \<noteq> IHTP_OK then
               Some (Return (status, state\<lparr> ps_phase := IHTP_PARSER_PHASE_ERROR \<rparr>, req, 0))
             else Some (Continue (state\<lparr> ps_phase := IHTP_PARSER_PHASE_DONE \<rparr>, req)) }
      else Some (Continue (state, req)))"

definition request_stateful ::
    "mem \<Rightarrow> nat \<Rightarrow> nat \<Rightarrow> ihtp_policy_t option \<Rightarrow> ihtp_parser_state_t \<Rightarrow> ihtp_request_t \<Rightarrow>
       request_result ub" where
  "request_stateful mem buf len policy state req =
     (let policy = resolve_policy policy in
      if ps_phase state = IHTP_PARSER_PHASE_ERROR then Some (IHTP_ERROR, state, req, 0)
      else if ps_phase state = IHTP_PARSER_PHASE_DONE then Some (IHTP_OK, state, req, ps_cursor state)
      else do {
        r \<leftarrow> request_start_line mem buf len policy state req;
        case r of
          Return result \<Rightarrow> Some result
        | Continue (state, req) \<Rightarrow>
            do { r \<leftarrow> request_headers mem buf len policy state req;
                 case r of
                   Return result \<Rightarrow> Some result
                 | Continue (state, req) \<Rightarrow> Some (IHTP_OK, state, req, ps_cursor state) } })"

definition ihtp_parse_request_stateful ::
    "mem \<Rightarrow> ihtp_parser_state_t option \<Rightarrow> ptr \<Rightarrow> nat \<Rightarrow> ihtp_request_t option \<Rightarrow>
       ihtp_policy_t option \<Rightarrow> nat option \<Rightarrow>
       (ihtp_status_t \<times> ihtp_parser_state_t option \<times> ihtp_request_t option \<times> nat option) ub" where
  "ihtp_parse_request_stateful mem state buf len req policy bytes_consumed =
     (case (state, buf, req, bytes_consumed) of
        (Some s, Some b, Some r, Some _) \<Rightarrow>
          if ps_mode s \<noteq> IHTP_PARSER_MODE_REQUEST
          then Some (IHTP_ERROR, state, req, bytes_consumed)
          else do { (status, s', r', n) \<leftarrow> request_stateful mem b len policy s r;
                    Some (status, Some s', Some r', Some n) }
      | _ \<Rightarrow> Some (IHTP_ERROR, state, req, bytes_consumed))"

section \<open>Response\<close>

type_synonym response_result = "ihtp_status_t \<times> ihtp_parser_state_t \<times> ihtp_response_t \<times> nat"

definition response_start_line ::
    "mem \<Rightarrow> nat \<Rightarrow> nat \<Rightarrow> ihtp_policy_t option \<Rightarrow> ihtp_parser_state_t \<Rightarrow> ihtp_response_t \<Rightarrow>
       (ihtp_parser_state_t \<times> ihtp_response_t, response_result) ctl ub" where
  "response_start_line mem buf len policy state resp =
     (if ps_phase state = IHTP_PARSER_PHASE_START_LINE then
        do { (status, resp, line_end) \<leftarrow>
               parse_status_line mem (buf + ps_cursor state) (size_sub len (ps_cursor state)) resp policy;
             if status \<noteq> IHTP_OK then
               (let state = (if status = IHTP_ERROR
                             then state\<lparr> ps_phase := IHTP_PARSER_PHASE_ERROR \<rparr> else state)
                in Some (Return (status, state, resp, 0)))
             else
               Some (Continue (state\<lparr> ps_cursor := ps_cursor state + line_end,
                                      ps_phase := IHTP_PARSER_PHASE_HEADERS \<rparr>, resp)) }
      else Some (Continue (state, resp)))"

definition response_headers ::
    "mem \<Rightarrow> nat \<Rightarrow> nat \<Rightarrow> ihtp_policy_t option \<Rightarrow> ihtp_parser_state_t \<Rightarrow> ihtp_response_t \<Rightarrow>
       (ihtp_parser_state_t \<times> ihtp_response_t, response_result) ctl ub" where
  "response_headers mem buf len policy state resp =
     (if ps_phase state = IHTP_PARSER_PHASE_HEADERS then
        do { (status, headers, num_headers, block_end) \<leftarrow>
               parse_header_block mem (buf + ps_cursor state) (size_sub len (ps_cursor state))
                 (resp_headers resp) (resp_num_headers resp) (resp_num_headers resp) IHTP_MAX_HEADERS
                 policy;
             let resp = resp\<lparr> resp_headers := headers, resp_num_headers := num_headers \<rparr>;
             let state = state\<lparr> ps_cursor := ps_cursor state + block_end \<rparr>;
             if status = IHTP_INCOMPLETE then Some (Return (status, state, resp, 0))
             else if status \<noteq> IHTP_OK then
               Some (Return (status, state\<lparr> ps_phase := IHTP_PARSER_PHASE_ERROR \<rparr>, resp, 0))
             else Some (Continue (state\<lparr> ps_phase := IHTP_PARSER_PHASE_DONE \<rparr>, resp)) }
      else Some (Continue (state, resp)))"

definition response_stateful ::
    "mem \<Rightarrow> nat \<Rightarrow> nat \<Rightarrow> ihtp_policy_t option \<Rightarrow> ihtp_parser_state_t \<Rightarrow> ihtp_response_t \<Rightarrow>
       response_result ub" where
  "response_stateful mem buf len policy state resp =
     (let policy = resolve_policy policy in
      if ps_phase state = IHTP_PARSER_PHASE_ERROR then Some (IHTP_ERROR, state, resp, 0)
      else if ps_phase state = IHTP_PARSER_PHASE_DONE then Some (IHTP_OK, state, resp, ps_cursor state)
      else do {
        r \<leftarrow> response_start_line mem buf len policy state resp;
        case r of
          Return result \<Rightarrow> Some result
        | Continue (state, resp) \<Rightarrow>
            do { r \<leftarrow> response_headers mem buf len policy state resp;
                 case r of
                   Return result \<Rightarrow> Some result
                 | Continue (state, resp) \<Rightarrow> Some (IHTP_OK, state, resp, ps_cursor state) } })"

definition ihtp_parse_response_stateful ::
    "mem \<Rightarrow> ihtp_parser_state_t option \<Rightarrow> ptr \<Rightarrow> nat \<Rightarrow> ihtp_response_t option \<Rightarrow>
       ihtp_policy_t option \<Rightarrow> nat option \<Rightarrow>
       (ihtp_status_t \<times> ihtp_parser_state_t option \<times> ihtp_response_t option \<times> nat option) ub" where
  "ihtp_parse_response_stateful mem state buf len resp policy bytes_consumed =
     (case (state, buf, resp, bytes_consumed) of
        (Some s, Some b, Some r, Some _) \<Rightarrow>
          if ps_mode s \<noteq> IHTP_PARSER_MODE_RESPONSE
          then Some (IHTP_ERROR, state, resp, bytes_consumed)
          else do { (status, s', r', n) \<leftarrow> response_stateful mem b len policy s r;
                    Some (status, Some s', Some r', Some n) }
      | _ \<Rightarrow> Some (IHTP_ERROR, state, resp, bytes_consumed))"

section \<open>Header block\<close>

text \<open>\<open>(status, state, (headers, *num_headers), *bytes_consumed)\<close>\<close>

type_synonym header_list = "ihtp_header_t list \<times> nat"
type_synonym headers_result = "ihtp_status_t \<times> ihtp_parser_state_t \<times> header_list \<times> nat"

definition headers_stateful ::
    "mem \<Rightarrow> nat \<Rightarrow> nat \<Rightarrow> nat \<Rightarrow> ihtp_policy_t option \<Rightarrow> ihtp_parser_state_t \<Rightarrow> header_list \<Rightarrow>
       headers_result ub" where
  "headers_stateful mem buf len max_headers policy state = (\<lambda>(headers, num_headers).
     let policy = resolve_policy policy in
     if ps_phase state = IHTP_PARSER_PHASE_ERROR
     then Some (IHTP_ERROR, state, (headers, num_headers), 0)
     else if ps_phase state = IHTP_PARSER_PHASE_DONE
     then Some (IHTP_OK, state, (headers, num_headers), ps_cursor state)
     else if ps_phase state \<noteq> IHTP_PARSER_PHASE_HEADERS
     then (let (status, state') = parser_state_error (Some state)
           in Some (status, the state', (headers, num_headers), 0))
     else do {
       (status, headers, num_headers, block_end) \<leftarrow>
         parse_header_block mem (buf + ps_cursor state) (size_sub len (ps_cursor state))
           headers num_headers num_headers max_headers policy;
       let state = state\<lparr> ps_cursor := ps_cursor state + block_end \<rparr>;
       if status = IHTP_INCOMPLETE then Some (status, state, (headers, num_headers), 0)
       else if status \<noteq> IHTP_OK then
         Some (status, state\<lparr> ps_phase := IHTP_PARSER_PHASE_ERROR \<rparr>, (headers, num_headers), 0)
       else Some (IHTP_OK, state\<lparr> ps_phase := IHTP_PARSER_PHASE_DONE \<rparr>, (headers, num_headers),
                  ps_cursor state) })"

definition ihtp_parse_headers_stateful ::
    "mem \<Rightarrow> ihtp_parser_state_t option \<Rightarrow> ptr \<Rightarrow> nat \<Rightarrow> ihtp_header_t list option \<Rightarrow> nat option \<Rightarrow>
       nat \<Rightarrow> ihtp_policy_t option \<Rightarrow> nat option \<Rightarrow>
       (ihtp_status_t \<times> ihtp_parser_state_t option \<times> ihtp_header_t list option \<times> nat option
          \<times> nat option) ub" where
  "ihtp_parse_headers_stateful mem state buf len headers num_headers max_headers policy bytes_consumed =
     (case (state, buf, headers, num_headers, bytes_consumed) of
        (Some s, Some b, Some hs, Some c, Some _) \<Rightarrow>
          if ps_mode s \<noteq> IHTP_PARSER_MODE_HEADERS
          then Some (IHTP_ERROR, state, headers, num_headers, bytes_consumed)
          else do { (status, s', (hs', c'), n) \<leftarrow> headers_stateful mem b len max_headers policy s (hs, c);
                    Some (status, Some s', Some hs', Some c', Some n) }
      | _ \<Rightarrow> Some (IHTP_ERROR, state, headers, num_headers, bytes_consumed))"

section \<open>Stateless entry points\<close>

text \<open>
  The state object of a stateless call is a local variable, uninitialised before
  \<open>ihtp_parser_state_init\<close> overwrites all its fields: \<open>undef\<close>.
\<close>

definition ihtp_parse_request ::
    "ihtp_parser_state_t \<Rightarrow> mem \<Rightarrow> ptr \<Rightarrow> nat \<Rightarrow> ihtp_request_t option \<Rightarrow> ihtp_policy_t option \<Rightarrow>
       nat option \<Rightarrow> (ihtp_status_t \<times> ihtp_request_t option \<times> nat option) ub" where
  "ihtp_parse_request undef mem buf len req policy bytes_consumed =
     (if buf = None \<or> req = None \<or> bytes_consumed = None
      then Some (IHTP_ERROR, req, bytes_consumed)
      else
        let req = Some zero_request;
            state = ihtp_parser_state_init (Some undef) IHTP_PARSER_MODE_REQUEST
        in do { (status, _, req, n) \<leftarrow>
                  ihtp_parse_request_stateful mem state buf len req policy bytes_consumed;
                Some (status, req, n) })"

definition ihtp_parse_response ::
    "ihtp_parser_state_t \<Rightarrow> mem \<Rightarrow> ptr \<Rightarrow> nat \<Rightarrow> ihtp_response_t option \<Rightarrow> ihtp_policy_t option \<Rightarrow>
       nat option \<Rightarrow> (ihtp_status_t \<times> ihtp_response_t option \<times> nat option) ub" where
  "ihtp_parse_response undef mem buf len resp policy bytes_consumed =
     (if buf = None \<or> resp = None \<or> bytes_consumed = None
      then Some (IHTP_ERROR, resp, bytes_consumed)
      else
        let resp = Some zero_response;
            state = ihtp_parser_state_init (Some undef) IHTP_PARSER_MODE_RESPONSE
        in do { (status, _, resp, n) \<leftarrow>
                  ihtp_parse_response_stateful mem state buf len resp policy bytes_consumed;
                Some (status, resp, n) })"

definition ihtp_parse_headers ::
    "ihtp_parser_state_t \<Rightarrow> mem \<Rightarrow> ptr \<Rightarrow> nat \<Rightarrow> ihtp_header_t list option \<Rightarrow> nat option \<Rightarrow>
       ihtp_policy_t option \<Rightarrow> nat option \<Rightarrow>
       (ihtp_status_t \<times> ihtp_header_t list option \<times> nat option \<times> nat option) ub" where
  "ihtp_parse_headers undef mem buf len headers num_headers policy bytes_consumed =
     (if buf = None \<or> headers = None \<or> num_headers = None \<or> bytes_consumed = None
      then Some (IHTP_ERROR, headers, num_headers, bytes_consumed)
      else
        let max_headers = the num_headers;
            num_headers = Some 0;
            state = ihtp_parser_state_init (Some undef) IHTP_PARSER_MODE_HEADERS
        in do { (status, _, headers, num_headers, n) \<leftarrow>
                  ihtp_parse_headers_stateful mem state buf len headers num_headers max_headers
                    policy bytes_consumed;
                Some (status, headers, num_headers, n) })"

end
