(* ===== verification/Ihtp_Incremental.thy ===== *)
theory Ihtp_Incremental
  imports Ihtp_Parser
begin

text \<open>
  Parsing a message that arrives in pieces.  The locale \<open>incremental_parser\<close> states what the
  stateful entry points promise to a caller who calls them again on a longer buffer, and proves
  from it that feeding a message in any chunks gives the outcome of one call on the whole.
  The locale \<open>message_parser\<close> is the common structure of the three entry points (a start line,
  then a header block); it is shown once to provide that contract, and the request, response
  and header-block parsers of the code are its three interpretations.
\<close>

section \<open>A verdict on a header block stands\<close>

lemma classify_append:
  assumes "s \<noteq> []" and "classify policy s \<noteq> Unfinished"
    and "classify policy s \<noteq> Malformed IHTP_ERROR_TOO_LONG"
  shows "classify policy (s @ t) = classify policy s"
proof (cases "policy_flag reject_obs_fold policy \<and> ihtp_is_lws (hd s)")
  case True
  with assms(1) show ?thesis by (simp add: classify_def)
next
  case False
  have hd: "hd (s @ t) = hd s" using assms(1) by simp
  show ?thesis
  proof (cases "line_end_ref policy s")
    case (Inl st)
    with assms False have "line_end_ref policy s \<noteq> Inl IHTP_INCOMPLETE"
      by (auto simp: classify_def split: if_splits)
    from line_end_ref_append [OF this, of t] Inl False hd \<open>line_end_ref policy s \<noteq> Inl IHTP_INCOMPLETE\<close>
    show ?thesis by (auto simp: classify_def)
  next
    case (Inr lk)
    then obtain l k where lk: "line_end_ref policy s = Inr (l, k)" by (cases lk) simp
    with line_end_ref_bounds [OF lk] have "l \<le> length s" by simp
    then have "take l (s @ t) = take l s" by simp
    with line_end_ref_append [of policy s t] lk hd show ?thesis
      by (simp add: classify_def split: option.split del: take_append)
  qed
qed

lemma step_result_append:
  assumes "classify policy s = line"
  shows "step_result buf num mx (s @ t) line st = step_result buf num mx s line st"
proof (cases line)
  case (Field n ok l k)
  with classify_bounds(2) [of policy s n ok l k] assms have "l \<le> length s" by simp
  then have "take l (s @ t) = take l s" by simp
  with Field show ?thesis by (cases st) (simp add: step_result_def del: take_append)
qed (simp_all add: step_result_def)

lemma header_block_stable:
  assumes r: "parse_header_block mem p n1 hs c num mx policy = Some (st, hs', c', e)"
    and st: "st \<noteq> IHTP_INCOMPLETE" "st \<noteq> IHTP_ERROR_TOO_LONG"
    and "n1 \<le> n2" and "p + n2 \<le> length mem" and ok: "headers_ok lo p mx hs c" and "lo \<le> p"
  shows "parse_header_block mem p n2 hs c num mx policy = Some (st, hs', c', e)"
proof -
  have n1: "p + n1 \<le> length mem" using assms by simp
  let ?t = "span mem (p + n1) (n2 - n1)"
  from header_loop_run [of p n1 mem 0 lo mx hs c policy num] n1 ok assms(7)
  obtain ls rest hs1 c1 where s: "span mem p n1 = ls @ rest"
    and lines: "header_lines policy mx p (hs, c) ls (hs1, c1)"
    and "rest = [] \<and> header_loop mem p n1 num mx policy (hs, c, 0) = Some (IHTP_INCOMPLETE, hs1, c1, length ls)
       \<or> (\<exists>r. rest \<noteq> [] \<and> header_loop mem p n1 num mx policy (hs, c, 0) = Some r
             \<and> step_result p num mx rest (classify policy rest) (hs1, c1, length ls) = Return r)"
    by (metis add_0 add_0_right diff_zero zero_le)
  with r st have rest: "rest \<noteq> []"
    and ret: "step_result p num mx rest (classify policy rest) (hs1, c1, length ls) = Return (st, hs', c', e)"
    by (auto simp: parse_header_block_def)
  from ret st have "classify policy rest \<noteq> Unfinished" "classify policy rest \<noteq> Malformed IHTP_ERROR_TOO_LONG"
    by (auto simp: step_result_def)
  from classify_append [OF rest this, of ?t] step_result_append [of policy rest _ p num mx ?t] ret
  have ret2: "step_result p num mx (rest @ ?t) (classify policy (rest @ ?t)) (hs1, c1, length ls) =
      Return (st, hs', c', e)" by simp
  have "span mem p n2 = span mem p n1 @ ?t"
    using span_append [of mem p n1 "n2 - n1"] assms(4) by simp
  with s have s2: "span mem p n2 = ls @ rest @ ?t" by simp
  have run: "header_loop mem p n2 num mx policy (hs, c, 0) =
      header_loop mem p n2 num mx policy (hs1, c1, length ls)"
    and ok1: "headers_ok lo (p + length ls) mx hs1 c1"
    using header_loop_lines [OF lines, of p 0 mem n2 "rest @ ?t" lo num] s2 assms by simp_all
  have sh: "span mem (p + length ls) (n2 - length ls) = rest @ ?t"
    using span_shift [of mem p n2 ls "rest @ ?t"] s2 assms by simp
  have "length ls + length rest = n1" using arg_cong [OF s, of length] n1 by simp
  moreover have "0 < length rest" using rest by blast
  ultimately have "length ls < n2" using assms(4) by linarith
  with header_loop_step [OF assms(5) this ok1, of num policy] sh ret2
  show ?thesis by (simp add: parse_header_block_def run)
qed

section \<open>The contract\<close>

type_synonym 'c outcome = "ihtp_status_t \<times> 'c \<times> nat"

text \<open>
  Two outcomes a caller cannot tell apart: the same status and consumed count, the same
  configuration unless the parse failed, and then the same phase.
\<close>

definition same_outcome :: "('c \<Rightarrow> ihtp_parser_phase_t) \<Rightarrow> 'c outcome \<Rightarrow> 'c outcome \<Rightarrow> bool" where
  "same_outcome phase = (\<lambda>(st, c, k) (st', c', k').
     st' = st \<and> k' = k \<and> phase c' = phase c \<and> (st = IHTP_OK \<or> st = IHTP_INCOMPLETE \<longrightarrow> c' = c))"

lemma same_outcome_refl [simp]: "same_outcome phase r r"
  by (simp add: same_outcome_def split_beta)

lemma same_outcome_trans:
  "same_outcome phase r s \<Longrightarrow> same_outcome phase s t \<Longrightarrow> same_outcome phase r t"
  by (auto simp: same_outcome_def)

text \<open>
  The shape of an outcome: the configuration can be used again, phases only advance, the
  status tells the phase, and bytes are consumed only on success.
\<close>

definition outcome_shape ::
    "('c \<Rightarrow> ihtp_parser_phase_t) \<Rightarrow> (nat \<Rightarrow> 'c \<Rightarrow> bool) \<Rightarrow> nat \<Rightarrow> 'c \<Rightarrow> 'c outcome \<Rightarrow> bool" where
  "outcome_shape phase ready n c = (\<lambda>(st, c', k).
     ready n c' \<and> phase c \<le> phase c' \<and>
     (if st = IHTP_OK then phase c' = IHTP_PARSER_PHASE_DONE \<and> k \<le> n
      else k = 0 \<and> (if st = IHTP_INCOMPLETE then phase c' < IHTP_PARSER_PHASE_DONE
                    else phase c' = IHTP_PARSER_PHASE_ERROR)))"

lemma outcome_shape_before:
  "outcome_shape phase ready n c' r \<Longrightarrow> phase c \<le> phase c' \<Longrightarrow> outcome_shape phase ready n c r"
  by (auto simp: outcome_shape_def split: prod.splits if_splits)

text \<open>Feeding: after each chunk the parser is called on everything received so far.\<close>

fun feed :: "(mem \<Rightarrow> nat \<Rightarrow> 'c \<Rightarrow> 'c outcome ub) \<Rightarrow> mem \<Rightarrow> byte list list \<Rightarrow> 'c \<Rightarrow> 'c outcome ub" where
  "feed parse received [] c = Some (IHTP_INCOMPLETE, c, 0)"
| "feed parse received (x # xs) c =
     do { (st, c', k) \<leftarrow> parse (received @ x) (length (received @ x)) c;
          if st = IHTP_INCOMPLETE then feed parse (received @ x) xs c' else Some (st, c', k) }"

locale incremental_parser =
  fixes parse :: "mem \<Rightarrow> nat \<Rightarrow> 'c \<Rightarrow> 'c outcome ub"
    and phase :: "'c \<Rightarrow> ihtp_parser_phase_t"
    and ready :: "nat \<Rightarrow> 'c \<Rightarrow> bool"
  assumes parse_safe: "ready n c \<Longrightarrow> n \<le> length mem \<Longrightarrow>
      \<exists>r. parse mem n c = Some r \<and> outcome_shape phase ready n c r"
    and ready_mono: "ready n c \<Longrightarrow> n \<le> n' \<Longrightarrow> ready n' c"
    and parse_frame: "ready n c \<Longrightarrow> n \<le> length mem \<Longrightarrow> parse (mem @ ys) n c = parse mem n c"
    and parse_resume: "ready n c \<Longrightarrow> n \<le> n' \<Longrightarrow> n' \<le> length mem \<Longrightarrow>
      parse mem n c = Some (IHTP_INCOMPLETE, c1, k) \<Longrightarrow>
      \<exists>r r'. parse mem n' c = Some r \<and> parse mem n' c1 = Some r' \<and> same_outcome phase r r'"
    and parse_stable: "ready n c \<Longrightarrow> n \<le> n' \<Longrightarrow> n' \<le> length mem \<Longrightarrow>
      parse mem n c = Some (st, c1, k) \<Longrightarrow> st \<noteq> IHTP_INCOMPLETE \<Longrightarrow> st \<noteq> IHTP_ERROR_TOO_LONG \<Longrightarrow>
      parse mem n' c = Some (st, c1, k)"
    and parse_error: "phase c = IHTP_PARSER_PHASE_ERROR \<Longrightarrow> parse mem n c = Some (IHTP_ERROR, c, 0)"
    and parse_done: "phase c = IHTP_PARSER_PHASE_DONE \<Longrightarrow> \<exists>k. parse mem n c = Some (IHTP_OK, c, k)"
begin

lemma parse_prefix:
  "ready (length s) c \<Longrightarrow> parse (s @ t) (length s) c = parse s (length s) c"
  by (rule parse_frame) simp_all

text \<open>Feeding from any intermediate state is as good as one call on what has been received.\<close>

lemma feed_one_shot:
  assumes "ready (length received) c" and "ready (length received) c0"
    and "\<And>t. \<exists>r r'. parse (received @ t) (length (received @ t)) c0 = Some r
           \<and> parse (received @ t) (length (received @ t)) c = Some r' \<and> same_outcome phase r r'"
    and "chunks \<noteq> []"
  shows "\<exists>m r r'. 0 < m \<and> m \<le> length chunks \<and> feed parse received chunks c = Some r'
           \<and> parse (received @ concat (take m chunks)) (length (received @ concat (take m chunks))) c0 = Some r
           \<and> same_outcome phase r r' \<and> (m < length chunks \<longrightarrow> fst r \<noteq> IHTP_INCOMPLETE)"
  using assms
proof (induction chunks arbitrary: received c)
  case Nil
  then show ?case by simp
next
  case (Cons x xs)
  let ?s = "received @ x"
  from Cons.prems(3) [of x] obtain r r' where r: "parse ?s (length ?s) c0 = Some r"
    and r': "parse ?s (length ?s) c = Some r'" and same: "same_outcome phase r r'" by blast
  obtain st c1 k where r'_eq: "r' = (st, c1, k)" by (cases r')
  have readyc: "ready (length ?s) c" and readyc0: "ready (length ?s) c0"
    using Cons.prems(1,2) ready_mono by simp_all
  show ?case
  proof (cases "st = IHTP_INCOMPLETE \<and> xs \<noteq> []")
    case False
    show ?thesis
    proof (cases "st = IHTP_INCOMPLETE")
      case True
      with False have "xs = []" by simp
      have "k = 0"
        using parse_safe [OF readyc, of ?s] r' r'_eq True by (auto simp: outcome_shape_def)
      with True r r' r'_eq same \<open>xs = []\<close> show ?thesis
        by (intro exI [of _ 1]) simp
    next
      case False
      with r r' r'_eq same show ?thesis
        by (intro exI [of _ 1]) (auto simp: same_outcome_def)
    qed
  next
    case True
    with same r'_eq have req: "fst r = IHTP_INCOMPLETE" by (auto simp: same_outcome_def)
    have c1: "ready (length ?s) c1" using parse_safe [OF readyc, of ?s] r' r'_eq
      by (auto simp: outcome_shape_def)
    have resume: "\<exists>q q'. parse (?s @ t) (length (?s @ t)) c0 = Some q
        \<and> parse (?s @ t) (length (?s @ t)) c1 = Some q' \<and> same_outcome phase q q'" for t
    proof -
      have "parse (?s @ t) (length ?s) c = Some (IHTP_INCOMPLETE, c1, k)"
        using parse_prefix [OF readyc, of t] r' r'_eq True by simp
      from parse_resume [OF readyc _ _ this, of "length (?s @ t)"]
      obtain q q' where q: "parse (?s @ t) (length (?s @ t)) c = Some q"
        "parse (?s @ t) (length (?s @ t)) c1 = Some q'" "same_outcome phase q q'" by auto
      moreover from Cons.prems(3) [of "x @ t"] obtain p where
        "parse (?s @ t) (length (?s @ t)) c0 = Some p" "same_outcome phase p q"
        using q(1) by auto
      ultimately show ?thesis using same_outcome_trans by blast
    qed
    from Cons.IH [OF c1 readyc0 resume] True obtain m p p' where m: "0 < m" "m \<le> length xs"
      "feed parse ?s xs c1 = Some p'"
      "parse (?s @ concat (take m xs)) (length (?s @ concat (take m xs))) c0 = Some p"
      "same_outcome phase p p'" "m < length xs \<longrightarrow> fst p \<noteq> IHTP_INCOMPLETE" by blast
    with r' r'_eq True show ?thesis
      by (intro exI [of _ "Suc m"]) simp
  qed
qed

text \<open>
  Any chunking of a message ends as one call on the whole message does, unless some prefix of
  it is already rejected as too long.
\<close>

lemma feed_chunks:
  assumes "ready 0 c" and "chunks \<noteq> []"
  shows "\<exists>st c' k. feed parse [] chunks c = Some (st, c', k)
           \<and> (st \<noteq> IHTP_ERROR_TOO_LONG \<longrightarrow>
                (\<exists>r. parse (concat chunks) (length (concat chunks)) c = Some r
                   \<and> same_outcome phase r (st, c', k)))"
proof -
  have "\<exists>r r'. parse ([] @ t) (length ([] @ t)) c = Some r
      \<and> parse ([] @ t) (length ([] @ t)) c = Some r' \<and> same_outcome phase r r'" for t
    using parse_safe [of "length t" c t] ready_mono [OF assms(1), of "length t"] by fastforce
  with feed_one_shot [of "[]" c c chunks] assms
  have "\<exists>m r r'. 0 < m \<and> m \<le> length chunks \<and> feed parse [] chunks c = Some r'
      \<and> parse ([] @ concat (take m chunks)) (length ([] @ concat (take m chunks))) c = Some r
      \<and> same_outcome phase r r' \<and> (m < length chunks \<longrightarrow> fst r \<noteq> IHTP_INCOMPLETE)"
    by (simp only: list.size) blast
  then obtain m r r' where m: "0 < m" "m \<le> length chunks" and f: "feed parse [] chunks c = Some r'"
    and one: "parse (concat (take m chunks)) (length (concat (take m chunks))) c = Some r"
    and same: "same_outcome phase r r'" and inc: "m < length chunks \<longrightarrow> fst r \<noteq> IHTP_INCOMPLETE"
    unfolding append_Nil by blast
  obtain st c' k where r': "r' = (st, c', k)" by (cases r')
  obtain st0 c0 k0 where r: "r = (st0, c0, k0)" by (cases r)
  have st: "st0 = st" using same r r' by (simp add: same_outcome_def)
  have "\<exists>r. parse (concat chunks) (length (concat chunks)) c = Some r \<and> same_outcome phase r (st, c', k)"
    if "st \<noteq> IHTP_ERROR_TOO_LONG"
  proof (cases "m < length chunks")
    case False
    with m have "take m chunks = chunks" by simp
    with one same r' show ?thesis by auto
  next
    case True
    let ?s = "concat (take m chunks)" and ?t = "concat (drop m chunks)"
    have cc: "concat chunks = ?s @ ?t" by (metis append_take_drop_id concat_append)
    have rd: "ready (length ?s) c" using ready_mono [OF assms(1)] by simp
    have "parse (?s @ ?t) (length ?s) c = Some (st, c0, k0)"
      using parse_prefix [OF rd, of ?t] one r st by simp
    from parse_stable [OF rd _ _ this, of "length (?s @ ?t)"] that inc True r st
    have "parse (?s @ ?t) (length (?s @ ?t)) c = Some (st, c0, k0)" by simp
    with cc same r r' st show ?thesis by auto
  qed
  with f r' show ?thesis by auto
qed

text \<open>A failed or finished parser stays so under every further call.\<close>

lemma feed_error: "phase c = IHTP_PARSER_PHASE_ERROR \<Longrightarrow> feed parse s (x # xs) c = Some (IHTP_ERROR, c, 0)"
  by (simp add: parse_error)

lemma feed_done: "phase c = IHTP_PARSER_PHASE_DONE \<Longrightarrow> \<exists>k. feed parse s (x # xs) c = Some (IHTP_OK, c, k)"
  using parse_done [of c "s @ x" "length (s @ x)"] by auto

end


section \<open>The common structure of the entry points\<close>

text \<open>
  A start line, then a header block into the message \<open>'m\<close>, whose header array and count are
  read by \<open>hdrs\<close> and written by \<open>put\<close>.  Configurations are pairs of the parser state and the
  message.
\<close>

type_synonym 'm config = "ihtp_parser_state_t \<times> 'm"

definition config_phase :: "'m config \<Rightarrow> ihtp_parser_phase_t" where
  "config_phase c = ps_phase (fst c)"

definition message_line ::
    "(mem \<Rightarrow> nat \<Rightarrow> nat \<Rightarrow> 'm \<Rightarrow> ihtp_policy_t option \<Rightarrow> (ihtp_status_t \<times> 'm \<times> nat) ub) \<Rightarrow>
     (ihtp_status_t \<Rightarrow> bool) \<Rightarrow> ihtp_policy_t option \<Rightarrow> mem \<Rightarrow> nat \<Rightarrow> 'm config \<Rightarrow>
       ('m config, 'm config outcome) ctl ub" where
  "message_line parse_line fatal policy mem len = (\<lambda>(state, m).
     if ps_phase state = IHTP_PARSER_PHASE_START_LINE then
       do { (status, m, e) \<leftarrow> parse_line mem (ps_cursor state) (size_sub len (ps_cursor state)) m policy;
            if status \<noteq> IHTP_OK then
              Some (Return (status,
                (if fatal status then state\<lparr> ps_phase := IHTP_PARSER_PHASE_ERROR \<rparr> else state, m), 0))
            else Some (Continue (state\<lparr> ps_cursor := ps_cursor state + e,
                                        ps_phase := IHTP_PARSER_PHASE_HEADERS \<rparr>, m)) }
     else Some (Continue (state, m)))"

definition block_outcome ::
    "(header_list \<Rightarrow> 'm \<Rightarrow> 'm) \<Rightarrow> 'm config \<Rightarrow> block_result \<Rightarrow> 'm config outcome" where
  "block_outcome put = (\<lambda>(state, m) (status, hs, c, e).
     let m = put (hs, c) m;
         state = state\<lparr> ps_cursor := ps_cursor state + e \<rparr>
     in if status = IHTP_INCOMPLETE then (status, (state, m), 0)
        else if status \<noteq> IHTP_OK then (status, (state\<lparr> ps_phase := IHTP_PARSER_PHASE_ERROR \<rparr>, m), 0)
        else (IHTP_OK, (state\<lparr> ps_phase := IHTP_PARSER_PHASE_DONE \<rparr>, m), ps_cursor state))"

definition message_block ::
    "('m \<Rightarrow> header_list) \<Rightarrow> (header_list \<Rightarrow> 'm \<Rightarrow> 'm) \<Rightarrow> nat \<Rightarrow> ihtp_policy_t option \<Rightarrow> mem \<Rightarrow> nat \<Rightarrow>
       'm config \<Rightarrow> 'm config outcome ub" where
  "message_block hdrs put mx policy mem len = (\<lambda>(state, m).
     map_option (block_outcome put (state, m))
       (parse_header_block mem (ps_cursor state) (size_sub len (ps_cursor state))
          (fst (hdrs m)) (snd (hdrs m)) (snd (hdrs m)) mx policy))"

definition message_stateful ::
    "(mem \<Rightarrow> nat \<Rightarrow> nat \<Rightarrow> 'm \<Rightarrow> ihtp_policy_t option \<Rightarrow> (ihtp_status_t \<times> 'm \<times> nat) ub) \<Rightarrow>
     (ihtp_status_t \<Rightarrow> bool) \<Rightarrow> ('m \<Rightarrow> header_list) \<Rightarrow> (header_list \<Rightarrow> 'm \<Rightarrow> 'm) \<Rightarrow> nat \<Rightarrow>
     ihtp_policy_t option \<Rightarrow> mem \<Rightarrow> nat \<Rightarrow> 'm config \<Rightarrow> 'm config outcome ub" where
  "message_stateful parse_line fatal hdrs put mx policy mem len c =
     (if config_phase c = IHTP_PARSER_PHASE_ERROR then Some (IHTP_ERROR, c, 0)
      else if config_phase c = IHTP_PARSER_PHASE_DONE then Some (IHTP_OK, c, ps_cursor (fst c))
      else do {
        r \<leftarrow> message_line parse_line fatal (resolve_policy policy) mem len c;
        case r of
          Return result \<Rightarrow> Some result
        | Continue c' \<Rightarrow> message_block hdrs put mx (resolve_policy policy) mem len c' })"

text \<open>
  A configuration reached on a buffer of \<open>n\<close> bytes: the cursor is inside, and the headers
  recorded so far lie before the cursor (inside the buffer, once the parse has failed).
\<close>

definition config_ready :: "('m \<Rightarrow> header_list) \<Rightarrow> nat \<Rightarrow> nat \<Rightarrow> 'm config \<Rightarrow> bool" where
  "config_ready hdrs mx n = (\<lambda>(state, m).
     ps_cursor state \<le> n \<and>
     headers_ok 0 (if ps_phase state = IHTP_PARSER_PHASE_ERROR then n else ps_cursor state) mx
       (fst (hdrs m)) (snd (hdrs m)))"

lemma config_ready_mono: "config_ready hdrs mx n c \<Longrightarrow> n \<le> n' \<Longrightarrow> config_ready hdrs mx n' c"
  by (auto simp: config_ready_def intro: headers_ok_mono)

locale message_parser =
  fixes parse_line :: "mem \<Rightarrow> nat \<Rightarrow> nat \<Rightarrow> 'm \<Rightarrow> ihtp_policy_t option \<Rightarrow> (ihtp_status_t \<times> 'm \<times> nat) ub"
    and fatal :: "ihtp_status_t \<Rightarrow> bool"
    and hdrs :: "'m \<Rightarrow> header_list"
    and put :: "header_list \<Rightarrow> 'm \<Rightarrow> 'm"
  assumes hdrs_put [simp]: "hdrs (put x m) = x"
    and put_put [simp]: "put x (put y m) = put x m"
    and put_hdrs: "put (hdrs m) m = m"
    and line_safe: "p + n \<le> length mem \<Longrightarrow>
      \<exists>st m' e. parse_line mem p n m policy = Some (st, m', e) \<and> hdrs m' = hdrs m
        \<and> (st = IHTP_OK \<longrightarrow> 0 < e \<and> e \<le> n) \<and> (st = IHTP_INCOMPLETE \<longrightarrow> m' = m)
        \<and> (st \<noteq> IHTP_OK \<longrightarrow> fatal st = (st \<noteq> IHTP_INCOMPLETE))"
    and line_extend: "p + n' \<le> length mem \<Longrightarrow> n \<le> n' \<Longrightarrow>
      parse_line mem p n m policy = Some (st, m', e) \<Longrightarrow>
      st \<noteq> IHTP_INCOMPLETE \<Longrightarrow> st \<noteq> IHTP_ERROR_TOO_LONG \<Longrightarrow>
      parse_line mem p n' m policy = Some (st, m', e)"
    and line_frame: "ub_le (parse_line mem p n m policy) (parse_line (mem @ ys) p n m policy)"
begin

lemma config_cases:
  obtains (fin) "config_phase c = IHTP_PARSER_PHASE_ERROR \<or> config_phase c = IHTP_PARSER_PHASE_DONE"
  | (start) state m where "c = (state, m)" "ps_phase state = IHTP_PARSER_PHASE_START_LINE"
  | (headers) state m where "c = (state, m)" "ps_phase state = IHTP_PARSER_PHASE_HEADERS"
proof -
  obtain state m where c: "c = (state, m)" by (cases c)
  show ?thesis
    using fin start [OF c] headers [OF c] c
    by (cases "ps_phase state") (simp_all add: config_phase_def)
qed

lemma block_safe:
  assumes "config_ready hdrs mx n (state, m)" and "ps_phase state = IHTP_PARSER_PHASE_HEADERS"
    and "n \<le> length mem"
  shows "\<exists>r. message_block hdrs put mx policy mem n (state, m) = Some r
      \<and> outcome_shape config_phase (config_ready hdrs mx) n (state, m) r"
proof -
  let ?cur = "ps_cursor state"
  have cur: "?cur \<le> n" and ok: "headers_ok 0 ?cur mx (fst (hdrs m)) (snd (hdrs m))"
    using assms(1,2) by (simp_all add: config_ready_def)
  have "?cur + (n - ?cur) \<le> length mem" using cur assms(3) by simp
  from parse_header_block_safe [OF this ok, of "snd (hdrs m)" policy]
  obtain st hs c e where r: "parse_header_block mem ?cur (n - ?cur) (fst (hdrs m)) (snd (hdrs m))
        (snd (hdrs m)) mx policy = Some (st, hs, c, e)"
    and rok: "block_result_ok 0 ?cur (n - ?cur) (snd (hdrs m)) mx (fst (hdrs m), snd (hdrs m), 0) (st, hs, c, e)"
    by fastforce
  have "outcome_shape config_phase (config_ready hdrs mx) n (state, m) (block_outcome put (state, m) (st, hs, c, e))"
    using rok cur assms(2)
    by (cases st)
      (auto simp: outcome_shape_def block_outcome_def block_result_ok_def config_ready_def
         config_phase_def less_eq_ihtp_parser_phase_t_def less_ihtp_parser_phase_t_def Let_def)
  with r cur show ?thesis by (simp add: message_block_def)
qed

lemma line_outcome:
  assumes "config_ready hdrs mx n (state, m)" and "ps_phase state = IHTP_PARSER_PHASE_START_LINE"
    and "n \<le> length mem"
  obtains (stop) st m' where "message_line parse_line fatal policy mem n (state, m) =
        Some (Return (st, (if st = IHTP_INCOMPLETE then state
                           else state\<lparr> ps_phase := IHTP_PARSER_PHASE_ERROR \<rparr>, m'), 0))"
      and "st \<noteq> IHTP_OK" and "st = IHTP_INCOMPLETE \<longrightarrow> m' = m" and "hdrs m' = hdrs m"
      and "\<exists>e. parse_line mem (ps_cursor state) (n - ps_cursor state) m policy = Some (st, m', e)"
  | (go) m' e where "message_line parse_line fatal policy mem n (state, m) =
        Some (Continue (state\<lparr> ps_cursor := ps_cursor state + e,
                               ps_phase := IHTP_PARSER_PHASE_HEADERS \<rparr>, m'))"
      and "hdrs m' = hdrs m" and "ps_cursor state + e \<le> n"
      and "parse_line mem (ps_cursor state) (n - ps_cursor state) m policy = Some (IHTP_OK, m', e)"
proof -
  let ?cur = "ps_cursor state"
  have cur: "?cur \<le> n" using assms(1) by (simp add: config_ready_def)
  have "?cur + (n - ?cur) \<le> length mem" using cur assms(3) by simp
  from line_safe [OF this, of m policy] obtain st m' e
    where r: "parse_line mem ?cur (n - ?cur) m policy = Some (st, m', e)" and "hdrs m' = hdrs m"
      "st = IHTP_OK \<longrightarrow> 0 < e \<and> e \<le> n - ?cur" "st = IHTP_INCOMPLETE \<longrightarrow> m' = m"
      "st \<noteq> IHTP_OK \<longrightarrow> fatal st = (st \<noteq> IHTP_INCOMPLETE)" by blast
  moreover have "st = IHTP_OK \<Longrightarrow> ?cur + e \<le> n" using calculation(3) cur by auto
  ultimately show ?thesis
    using stop [of st m'] go [of e m'] cur assms(2)
    by (cases "st = IHTP_OK") (simp_all add: message_line_def)
qed

lemma line_ready:
  assumes "config_ready hdrs mx n (state, m)" and "ps_phase state = IHTP_PARSER_PHASE_START_LINE"
    and "hdrs m' = hdrs m" and "ps_cursor state + e \<le> n"
  shows "config_ready hdrs mx n (state\<lparr> ps_cursor := ps_cursor state + e,
            ps_phase := IHTP_PARSER_PHASE_HEADERS \<rparr>, m')"
  using assms headers_ok_mono [of 0 "ps_cursor state" mx "fst (hdrs m)" "snd (hdrs m)" "ps_cursor state + e"]
  by (simp add: config_ready_def)

lemma stateful_safe:
  assumes "config_ready hdrs mx n c" and "n \<le> length mem"
  shows "\<exists>r. message_stateful parse_line fatal hdrs put mx policy mem n c = Some r
      \<and> outcome_shape config_phase (config_ready hdrs mx) n c r"
proof (cases rule: config_cases [of c])
  case fin
  have "ps_cursor (fst c) \<le> n" using assms(1) by (simp add: config_ready_def split_beta)
  with fin assms(1) show ?thesis
    by (elim disjE) (simp_all add: message_stateful_def outcome_shape_def)
next
  case (headers state m)
  with block_safe [of mx n state m mem "resolve_policy policy"] assms show ?thesis
    by (simp add: message_stateful_def message_line_def config_phase_def)
next
  case (start state m)
  let ?pol = "resolve_policy policy"
  note ready = assms(1) [unfolded start(1)]
  from ready start(2) assms(2) show ?thesis
  proof (cases rule: line_outcome [where policy = ?pol])
    case (stop st m')
    have "headers_ok 0 n mx (fst (hdrs m)) (snd (hdrs m))"
      using ready start(2) headers_ok_mono by (fastforce simp: config_ready_def)
    with stop start ready show ?thesis
      by (auto simp: message_stateful_def config_phase_def outcome_shape_def config_ready_def
          less_eq_ihtp_parser_phase_t_def less_ihtp_parser_phase_t_def)
  next
    case (go m' e)
    let ?c = "(state\<lparr> ps_cursor := ps_cursor state + e, ps_phase := IHTP_PARSER_PHASE_HEADERS \<rparr>, m')"
    from block_safe [OF line_ready [OF ready start(2) go(2,3)] _ assms(2), of ?pol]
    obtain r where r: "message_block hdrs put mx ?pol mem n ?c = Some r"
      and shape: "outcome_shape config_phase (config_ready hdrs mx) n ?c r" by auto
    have "config_phase c \<le> config_phase ?c"
      using start by (simp add: config_phase_def less_eq_ihtp_parser_phase_t_def)
    with shape have "outcome_shape config_phase (config_ready hdrs mx) n c r"
      by (rule outcome_shape_before)
    with r go(1) start show ?thesis by (simp add: message_stateful_def config_phase_def)
  qed
qed

lemma block_stable:
  assumes "config_ready hdrs mx n (state, m)" and "ps_phase state = IHTP_PARSER_PHASE_HEADERS"
    and "n \<le> n'" and "n' \<le> length mem"
    and "message_block hdrs put mx policy mem n (state, m) = Some (st, c1, k)"
    and "st \<noteq> IHTP_INCOMPLETE" and "st \<noteq> IHTP_ERROR_TOO_LONG"
  shows "message_block hdrs put mx policy mem n' (state, m) = Some (st, c1, k)"
proof -
  let ?cur = "ps_cursor state"
  have cur: "?cur \<le> n" and ok: "headers_ok 0 ?cur mx (fst (hdrs m)) (snd (hdrs m))"
    using assms(1,2) by (simp_all add: config_ready_def)
  from assms(5) cur obtain st' hs c e
    where r: "parse_header_block mem ?cur (n - ?cur) (fst (hdrs m)) (snd (hdrs m))
        (snd (hdrs m)) mx policy = Some (st', hs, c, e)"
      and out: "block_outcome put (state, m) (st', hs, c, e) = (st, c1, k)"
    by (auto simp: message_block_def)
  from out have "st' = st" by (auto simp: block_outcome_def Let_def split: if_splits)
  with header_block_stable [OF r _ _ _ _ ok, of "n' - ?cur"] assms cur out show ?thesis
    by (simp add: message_block_def diff_le_mono)
qed

lemma block_resume:
  assumes "config_ready hdrs mx n (state, m)" and "ps_phase state = IHTP_PARSER_PHASE_HEADERS"
    and "n \<le> n'" and "n' \<le> length mem"
    and "message_block hdrs put mx policy mem n (state, m) = Some (IHTP_INCOMPLETE, (state1, m1), k)"
  shows "\<exists>r r'. message_block hdrs put mx policy mem n' (state, m) = Some r
      \<and> message_block hdrs put mx policy mem n' (state1, m1) = Some r'
      \<and> same_outcome config_phase r r' \<and> ps_phase state1 = IHTP_PARSER_PHASE_HEADERS"
proof -
  let ?cur = "ps_cursor state"
  have cur: "?cur \<le> n" and ok: "headers_ok 0 ?cur mx (fst (hdrs m)) (snd (hdrs m))"
    using assms(1,2) by (simp_all add: config_ready_def)
  from assms(5) cur obtain st hs c e
    where r: "parse_header_block mem ?cur (n - ?cur) (fst (hdrs m)) (snd (hdrs m))
        (snd (hdrs m)) mx policy = Some (st, hs, c, e)"
      and out: "block_outcome put (state, m) (st, hs, c, e) = (IHTP_INCOMPLETE, (state1, m1), k)"
    by (auto simp: message_block_def)
  from out have st: "st = IHTP_INCOMPLETE" and s1: "state1 = state\<lparr> ps_cursor := ?cur + e \<rparr>"
    and m1: "m1 = put (hs, c) m"
    by (auto simp: block_outcome_def Let_def split: if_splits)
  have b: "n - ?cur \<le> n' - ?cur" "?cur + (n' - ?cur) \<le> length mem" using assms cur by auto
  from header_block_resume [OF r [unfolded st] b ok, of c]
  obtain q q' where q: "parse_header_block mem ?cur (n' - ?cur) (fst (hdrs m)) (snd (hdrs m))
        (snd (hdrs m)) mx policy = Some q"
    and q': "parse_header_block mem (?cur + e) (n' - ?cur - e) hs c c mx policy = Some q'"
    and sh: "block_shifted e q q'" and e: "e \<le> n - ?cur" by auto
  obtain qs qh qc qe where qq: "q = (qs, qh, qc, qe)" by (cases q)
  obtain qs' qh' qc' qe' where qq': "q' = (qs', qh', qc', qe')" by (cases q')
  have "same_outcome config_phase (block_outcome put (state, m) q) (block_outcome put (state1, m1) q')"
    using sh assms(2) unfolding qq qq' s1 m1
    by (cases qs) (auto simp: block_shifted_def same_outcome_def block_outcome_def config_phase_def)
  moreover have "?cur + e \<le> n'" using e cur assms(3) by auto
  ultimately show ?thesis
    using q q' cur assms(2,3) s1 m1 by (simp add: message_block_def)
qed

lemma stateful_stable:
  assumes "config_ready hdrs mx n c" and "n \<le> n'" and "n' \<le> length mem"
    and "message_stateful parse_line fatal hdrs put mx policy mem n c = Some (st, c1, k)"
    and "st \<noteq> IHTP_INCOMPLETE" and "st \<noteq> IHTP_ERROR_TOO_LONG"
  shows "message_stateful parse_line fatal hdrs put mx policy mem n' c = Some (st, c1, k)"
proof (cases rule: config_cases [of c])
  case fin
  with assms(4) show ?thesis by (auto simp: message_stateful_def)
next
  case (headers state m)
  with block_stable [of mx n state m n' mem "resolve_policy policy" st c1 k] assms show ?thesis
    by (simp add: message_stateful_def message_line_def config_phase_def)
next
  case (start state m)
  let ?pol = "resolve_policy policy"
  let ?cur = "ps_cursor state"
  note ready = assms(1) [unfolded start(1)]
  have cur: "?cur \<le> n" "n \<le> length mem" "?cur + (n' - ?cur) \<le> length mem"
    using ready assms(2,3) by (auto simp: config_ready_def)
  have ext: "parse_line mem ?cur (n' - ?cur) m ?pol = Some (st', m', e')"
    if "parse_line mem ?cur (n - ?cur) m ?pol = Some (st', m', e')" "st' \<noteq> IHTP_INCOMPLETE"
      "st' \<noteq> IHTP_ERROR_TOO_LONG" for st' m' e'
    using line_extend [OF cur(3) _ that(1)] that(2,3) assms(2) by (simp add: diff_le_mono)
  from ready start(2) cur(2) show ?thesis
  proof (cases rule: line_outcome [where policy = ?pol])
    case (stop st' m')
    with assms(4) start have "st' = st"
      by (auto simp: message_stateful_def config_phase_def)
    with stop ext assms(5,6) have "message_line parse_line fatal ?pol mem n' (state, m) =
        message_line parse_line fatal ?pol mem n (state, m)"
      using start(2) cur(1) assms(2) by (auto simp: message_line_def)
    with stop assms(4) start \<open>st' = st\<close> show ?thesis
      by (auto simp: message_stateful_def config_phase_def)
  next
    case (go m' e)
    let ?c = "(state\<lparr> ps_cursor := ?cur + e, ps_phase := IHTP_PARSER_PHASE_HEADERS \<rparr>, m')"
    have line: "message_line parse_line fatal ?pol mem n' (state, m) = Some (Continue ?c)"
      using ext [OF go(4)] start(2) cur(1) assms(2) by (simp add: message_line_def)
    have "message_block hdrs put mx ?pol mem n ?c = Some (st, c1, k)"
      using assms(4) start go(1) by (simp add: message_stateful_def config_phase_def)
    from block_stable [OF line_ready [OF ready start(2) go(2,3)] _ assms(2,3) this] assms(5,6) line start
    show ?thesis by (simp add: message_stateful_def config_phase_def)
  qed
qed

lemma stateful_resume:
  assumes "config_ready hdrs mx n c" and "n \<le> n'" and "n' \<le> length mem"
    and inc: "message_stateful parse_line fatal hdrs put mx policy mem n c = Some (IHTP_INCOMPLETE, c1, k)"
  shows "\<exists>r r'. message_stateful parse_line fatal hdrs put mx policy mem n' c = Some r
      \<and> message_stateful parse_line fatal hdrs put mx policy mem n' c1 = Some r'
      \<and> same_outcome config_phase r r'"
proof (cases rule: config_cases [of c])
  case fin
  with inc show ?thesis by (elim disjE) (simp_all add: message_stateful_def)
next
  case (headers state m)
  obtain state1 m1 where c1: "c1 = (state1, m1)" by (cases c1)
  with headers block_resume [of mx n state m n' mem "resolve_policy policy" state1 m1 k] assms
  show ?thesis by (auto simp: message_stateful_def message_line_def config_phase_def)
next
  case (start state m)
  let ?pol = "resolve_policy policy"
  let ?cur = "ps_cursor state"
  obtain state1 m1 where c1: "c1 = (state1, m1)" by (cases c1)
  note ready = assms(1) [unfolded start(1)]
  have cur: "?cur \<le> n" "n \<le> length mem" "?cur + (n' - ?cur) \<le> length mem"
    using ready assms(2,3) by (auto simp: config_ready_def)
  from ready start(2) cur(2) show ?thesis
  proof (cases rule: line_outcome [where policy = ?pol])
    case (stop st' m')
    with inc start have "st' = IHTP_INCOMPLETE" "c1 = (state, m')"
      by (auto simp: message_stateful_def config_phase_def)
    with stop(3) start have "c1 = c" by simp
    moreover have "config_ready hdrs mx n' c"
      using assms(1,2) by (auto simp: config_ready_def intro: headers_ok_mono)
    ultimately show ?thesis
      using stateful_safe [OF _ assms(3), of mx c policy] by fastforce
  next
    case (go m' e)
    let ?c = "(state\<lparr> ps_cursor := ?cur + e, ps_phase := IHTP_PARSER_PHASE_HEADERS \<rparr>, m')"
    have line: "message_line parse_line fatal ?pol mem n' (state, m) = Some (Continue ?c)"
      using line_extend [OF cur(3) _ go(4)] start(2) cur(1) assms(2)
      by (simp add: message_line_def diff_le_mono)
    have "message_block hdrs put mx ?pol mem n ?c = Some (IHTP_INCOMPLETE, (state1, m1), k)"
      using inc start go(1) c1 by (simp add: message_stateful_def config_phase_def)
    from block_resume [OF line_ready [OF ready start(2) go(2,3)] _ assms(2,3) this]
    obtain r r' where r: "message_block hdrs put mx ?pol mem n' ?c = Some r"
        "message_block hdrs put mx ?pol mem n' (state1, m1) = Some r'"
        "same_outcome config_phase r r'" "ps_phase state1 = IHTP_PARSER_PHASE_HEADERS" by auto
    with line start c1 show ?thesis
      by (simp add: message_stateful_def config_phase_def message_line_def)
  qed
qed

lemma stateful_frame:
  assumes "config_ready hdrs mx n c" and "n \<le> length mem"
  shows "message_stateful parse_line fatal hdrs put mx policy (mem @ ys) n c =
         message_stateful parse_line fatal hdrs put mx policy mem n c"
proof -
  have "ub_le (message_line parse_line fatal pol mem n c) (message_line parse_line fatal pol (mem @ ys) n c)"
    for pol unfolding message_line_def by (intro ub_mono line_frame)
  moreover have "ub_le (message_block hdrs put mx pol mem n c) (message_block hdrs put mx pol (mem @ ys) n c)"
    for pol c
    using ub_le_parse_header_block
    by (auto simp: message_block_def ub_le_def split: prod.splits)
  ultimately have "ub_le (message_stateful parse_line fatal hdrs put mx policy mem n c)
      (message_stateful parse_line fatal hdrs put mx policy (mem @ ys) n c)"
    unfolding message_stateful_def by (intro ub_mono)
  with stateful_safe [OF assms, of policy] show ?thesis by (auto simp: ub_le_def)
qed

end

sublocale message_parser \<subseteq> incremental_parser
    "message_stateful parse_line fatal hdrs put mx policy" config_phase "config_ready hdrs mx"
  for mx policy
  by unfold_locales
    (blast intro: stateful_safe config_ready_mono stateful_frame stateful_resume stateful_stable
      | simp add: message_stateful_def)+


section \<open>The three parsers of the code\<close>

text \<open>The entry points return flat tuples; a configuration is a pair.\<close>

definition regroup :: "ihtp_status_t \<times> ihtp_parser_state_t \<times> 'm \<times> nat \<Rightarrow> 'm config outcome" where
  "regroup = (\<lambda>(status, state, m, n). (status, (state, m), n))"

definition request_parse ::
    "ihtp_policy_t option \<Rightarrow> mem \<Rightarrow> nat \<Rightarrow> ihtp_request_t config \<Rightarrow> ihtp_request_t config outcome ub" where
  "request_parse policy mem len = (\<lambda>(state, req).
     map_option regroup (request_stateful mem 0 len policy state req))"

definition response_parse ::
    "ihtp_policy_t option \<Rightarrow> mem \<Rightarrow> nat \<Rightarrow> ihtp_response_t config \<Rightarrow> ihtp_response_t config outcome ub" where
  "response_parse policy mem len = (\<lambda>(state, resp).
     map_option regroup (response_stateful mem 0 len policy state resp))"

definition headers_parse ::
    "nat \<Rightarrow> ihtp_policy_t option \<Rightarrow> mem \<Rightarrow> nat \<Rightarrow> header_list config \<Rightarrow> header_list config outcome ub" where
  "headers_parse max_headers policy mem len = (\<lambda>(state, hs).
     map_option regroup (headers_stateful mem 0 len max_headers policy state hs))"

definition req_hdrs :: "ihtp_request_t \<Rightarrow> header_list" where
  "req_hdrs req = (req_headers req, req_num_headers req)"

definition req_put :: "header_list \<Rightarrow> ihtp_request_t \<Rightarrow> ihtp_request_t" where
  "req_put h req = req\<lparr> req_headers := fst h, req_num_headers := snd h \<rparr>"

definition resp_hdrs :: "ihtp_response_t \<Rightarrow> header_list" where
  "resp_hdrs resp = (resp_headers resp, resp_num_headers resp)"

definition resp_put :: "header_list \<Rightarrow> ihtp_response_t \<Rightarrow> ihtp_response_t" where
  "resp_put h resp = resp\<lparr> resp_headers := fst h, resp_num_headers := snd h \<rparr>"

text \<open>A header-block parser has no start line: one that always fails stands for it.\<close>

definition no_start_line ::
    "mem \<Rightarrow> nat \<Rightarrow> nat \<Rightarrow> header_list \<Rightarrow> ihtp_policy_t option \<Rightarrow> (ihtp_status_t \<times> header_list \<times> nat) ub" where
  "no_start_line mem p n m policy = Some (IHTP_ERROR, m, 0)"

definition request_fatal :: "ihtp_status_t \<Rightarrow> bool" where
  "request_fatal st \<longleftrightarrow> st = IHTP_ERROR \<or> st = IHTP_ERROR_TOO_LONG"

definition response_fatal :: "ihtp_status_t \<Rightarrow> bool" where
  "response_fatal st \<longleftrightarrow> st = IHTP_ERROR"

lemma request_line_status_cases:
  "request_line_status policy s \<in> {IHTP_OK, IHTP_INCOMPLETE, IHTP_ERROR, IHTP_ERROR_TOO_LONG}"
  using line_end_ref_Inl [of policy s]
  by (auto simp: request_line_status_def split: sum.splits ihtp_status_t.splits)

lemma status_line_status_cases:
  "status_line_status policy s \<in> {IHTP_OK, IHTP_INCOMPLETE, IHTP_ERROR}"
  using line_end_ref_Inl [of policy s]
  by (auto simp: status_line_status_def split: sum.splits)

lemma request_line_incomplete:
  "request_line_status policy s = IHTP_INCOMPLETE \<Longrightarrow> line_end_ref policy s = Inl IHTP_INCOMPLETE"
  using line_end_ref_Inl [of policy s]
  by (auto simp: request_line_status_def split: sum.splits if_splits)

lemma request_line_ok_line:
  assumes "request_line_status policy s = IHTP_OK"
  shows "\<exists>l k. line_end_ref policy s = Inr (l, k)"
proof (cases "line_end_ref policy s")
  case (Inl st)
  with line_end_ref_Inl [OF Inl] assms show ?thesis
    by (auto simp: request_line_status_def split: if_splits)
qed auto

lemma status_line_ok_line:
  assumes "status_line_status policy s = IHTP_OK"
  shows "\<exists>l k. line_end_ref policy s = Inr (l, k)"
proof (cases "line_end_ref policy s")
  case (Inl st)
  with line_end_ref_Inl [OF Inl] assms show ?thesis
    by (auto simp: status_line_status_def)
qed auto

interpretation request: message_parser parse_request_line request_fatal req_hdrs req_put
proof unfold_locales
  show "req_hdrs (req_put x m) = x" "req_put x (req_put y m) = req_put x m" "req_put (req_hdrs m) m = m"
    for x y m by (simp_all add: req_hdrs_def req_put_def)
next
  fix p n mem m policy
  assume b: "p + n \<le> length (mem :: mem)"
  let ?s = "span mem p n"
  from parse_request_line_in [OF b, of m policy] obtain m' e where same: "same_header_part m m'"
    and r: "parse_request_line mem p n m policy = Some (request_line_status policy ?s, m', e)"
    and c: "case line_end_ref policy ?s of
              Inl st \<Rightarrow> m' = m \<and> e = 0
            | Inr (l, k) \<Rightarrow>
                if request_line_status policy ?s = IHTP_OK
                then m' = set_request_line mem p (the (request_line_ref policy (span mem p l))) m
                     \<and> e = l + k
                else e = 0" by blast
  have h: "req_hdrs m' = req_hdrs m" using same by (simp add: same_header_part_def req_hdrs_def)
  have ok: "0 < e \<and> e \<le> n" if st: "request_line_status policy ?s = IHTP_OK"
  proof -
    obtain l k where lk: "line_end_ref policy ?s = Inr (l, k)"
      using request_line_ok_line [OF st] by blast
    with line_end_ref_bounds [OF lk] c st b show ?thesis by auto
  qed
  have inc: "m' = m" if "request_line_status policy ?s = IHTP_INCOMPLETE"
    using request_line_incomplete [OF that] c by simp
  show "\<exists>st m' e. parse_request_line mem p n m policy = Some (st, m', e) \<and> req_hdrs m' = req_hdrs m
      \<and> (st = IHTP_OK \<longrightarrow> 0 < e \<and> e \<le> n) \<and> (st = IHTP_INCOMPLETE \<longrightarrow> m' = m)
      \<and> (st \<noteq> IHTP_OK \<longrightarrow> request_fatal st = (st \<noteq> IHTP_INCOMPLETE))"
    using r h ok inc request_line_status_cases [of policy ?s]
    by (intro exI [of _ "request_line_status policy ?s"] exI [of _ m'] exI [of _ e])
      (auto simp: request_fatal_def)
next
  fix p n' mem n m policy st m' e
  assume b: "p + n' \<le> length (mem :: mem)" "n \<le> n'"
    and r: "parse_request_line mem p n m policy = Some (st, m', e)"
    and st: "st \<noteq> IHTP_INCOMPLETE" "st \<noteq> IHTP_ERROR_TOO_LONG"
  have "p + n \<le> length mem" using b by simp
  from parse_request_line_in [OF this, of m policy] r
  have "request_line_status policy (span mem p n) = st" by auto
  with st have "line_end_ref policy (span mem p n) \<noteq> Inl IHTP_INCOMPLETE"
    by (auto simp: request_line_status_def split: if_splits)
  from parse_request_line_extend [OF b this, of m] r
  show "parse_request_line mem p n' m policy = Some (st, m', e)" by simp
qed (rule ub_mono)

interpretation response: message_parser parse_status_line response_fatal resp_hdrs resp_put
proof unfold_locales
  show "resp_hdrs (resp_put x m) = x" "resp_put x (resp_put y m) = resp_put x m" "resp_put (resp_hdrs m) m = m"
    for x y m by (simp_all add: resp_hdrs_def resp_put_def)
next
  fix p n mem m policy
  assume b: "p + n \<le> length (mem :: mem)"
  let ?s = "span mem p n"
  from parse_status_line_in [OF b, of m policy] obtain m' e where same: "same_resp_header_part m m'"
    and r: "parse_status_line mem p n m policy = Some (status_line_status policy ?s, m', e)"
    and c: "case line_end_ref policy ?s of
              Inl st \<Rightarrow> m' = m \<and> e = 0
            | Inr (l, k) \<Rightarrow>
                if status_line_status policy ?s = IHTP_OK
                then m' = set_status_line p (the (status_line_ref (span mem p l))) m \<and> e = l + k
                else e = 0" by blast
  have h: "resp_hdrs m' = resp_hdrs m" using same by (simp add: same_resp_header_part_def resp_hdrs_def)
  have ok: "0 < e \<and> e \<le> n" if st: "status_line_status policy ?s = IHTP_OK"
  proof -
    obtain l k where lk: "line_end_ref policy ?s = Inr (l, k)"
      using status_line_ok_line [OF st] by blast
    with line_end_ref_bounds [OF lk] c st b show ?thesis by auto
  qed
  have inc: "m' = m" if "status_line_status policy ?s = IHTP_INCOMPLETE"
    using that c by (auto simp: status_line_status_def split: sum.splits if_splits)
  show "\<exists>st m' e. parse_status_line mem p n m policy = Some (st, m', e) \<and> resp_hdrs m' = resp_hdrs m
      \<and> (st = IHTP_OK \<longrightarrow> 0 < e \<and> e \<le> n) \<and> (st = IHTP_INCOMPLETE \<longrightarrow> m' = m)
      \<and> (st \<noteq> IHTP_OK \<longrightarrow> response_fatal st = (st \<noteq> IHTP_INCOMPLETE))"
    using r h ok inc status_line_status_cases [of policy ?s]
    by (intro exI [of _ "status_line_status policy ?s"] exI [of _ m'] exI [of _ e])
      (auto simp: response_fatal_def)
next
  fix p n' mem n m policy st m' e
  assume b: "p + n' \<le> length (mem :: mem)" "n \<le> n'"
    and r: "parse_status_line mem p n m policy = Some (st, m', e)"
    and st: "st \<noteq> IHTP_INCOMPLETE" "st \<noteq> IHTP_ERROR_TOO_LONG"
  have "p + n \<le> length mem" using b by simp
  from parse_status_line_in [OF this, of m policy] r
  have "status_line_status policy (span mem p n) = st" by auto
  with st have "line_end_ref policy (span mem p n) \<noteq> Inl IHTP_INCOMPLETE"
    by (auto simp: status_line_status_def)
  from parse_status_line_extend [OF b this, of m] r
  show "parse_status_line mem p n' m policy = Some (st, m', e)" by simp
qed (rule ub_mono)

interpretation header_block: message_parser no_start_line request_fatal id "\<lambda>h _. h"
  by unfold_locales (auto simp: no_start_line_def request_fatal_def ub_le_def)

text \<open>The code's entry points are instances of the common structure.\<close>

lemma request_headers_block:
  assumes "ps_phase state = IHTP_PARSER_PHASE_HEADERS"
  shows "map_option regroup
     (do { r \<leftarrow> request_headers mem 0 len pol state req;
           case r of Return result \<Rightarrow> Some result
           | Continue (state, req) \<Rightarrow> Some (IHTP_OK, state, req, ps_cursor state) }) =
     message_block req_hdrs req_put IHTP_MAX_HEADERS pol mem len (state, req)"
proof (cases "parse_header_block mem (ps_cursor state) (size_sub len (ps_cursor state))
    (req_headers req) (req_num_headers req) (req_num_headers req) IHTP_MAX_HEADERS pol")
  case None
  with assms show ?thesis by (simp add: request_headers_def message_block_def req_hdrs_def)
next
  case (Some r)
  obtain st hs c e where "r = (st, hs, c, e)" by (cases r)
  with Some assms show ?thesis
    by (auto simp: request_headers_def message_block_def req_hdrs_def req_put_def block_outcome_def
        regroup_def Let_def)
qed

lemma request_parse_message:
  "request_parse policy mem len =
     message_stateful parse_request_line request_fatal req_hdrs req_put IHTP_MAX_HEADERS policy mem len"
proof
  fix c :: "ihtp_request_t config"
  obtain state req where c: "c = (state, req)" by (cases c)
  show "request_parse policy mem len c =
     message_stateful parse_request_line request_fatal req_hdrs req_put IHTP_MAX_HEADERS policy mem len c"
  proof (cases "ps_phase state")
    case IHTP_PARSER_PHASE_START_LINE
    show ?thesis
    proof (cases "parse_request_line mem (ps_cursor state) (size_sub len (ps_cursor state)) req (resolve_policy policy)")
      case None
      with IHTP_PARSER_PHASE_START_LINE c show ?thesis
        by (simp add: request_parse_def request_stateful_def request_start_line_def message_stateful_def
            message_line_def config_phase_def)
    next
      case (Some r)
      obtain st m e where "r = (st, m, e)" by (cases r)
      with Some IHTP_PARSER_PHASE_START_LINE c show ?thesis
        by (auto simp: request_parse_def request_stateful_def request_start_line_def message_stateful_def
            message_line_def config_phase_def request_fatal_def request_headers_block [symmetric])
          (auto simp: regroup_def)
    qed
  next
    case IHTP_PARSER_PHASE_HEADERS
    with c show ?thesis
      by (simp add: request_parse_def request_stateful_def request_start_line_def message_stateful_def
          message_line_def config_phase_def request_headers_block [symmetric])
  qed (simp_all add: c request_parse_def request_stateful_def message_stateful_def config_phase_def regroup_def)
qed

lemma response_headers_block:
  assumes "ps_phase state = IHTP_PARSER_PHASE_HEADERS"
  shows "map_option regroup
     (do { r \<leftarrow> response_headers mem 0 len pol state resp;
           case r of Return result \<Rightarrow> Some result
           | Continue (state, resp) \<Rightarrow> Some (IHTP_OK, state, resp, ps_cursor state) }) =
     message_block resp_hdrs resp_put IHTP_MAX_HEADERS pol mem len (state, resp)"
proof (cases "parse_header_block mem (ps_cursor state) (size_sub len (ps_cursor state))
    (resp_headers resp) (resp_num_headers resp) (resp_num_headers resp) IHTP_MAX_HEADERS pol")
  case None
  with assms show ?thesis by (simp add: response_headers_def message_block_def resp_hdrs_def)
next
  case (Some r)
  obtain st hs c e where "r = (st, hs, c, e)" by (cases r)
  with Some assms show ?thesis
    by (auto simp: response_headers_def message_block_def resp_hdrs_def resp_put_def block_outcome_def
        regroup_def Let_def)
qed

lemma response_parse_message:
  "response_parse policy mem len =
     message_stateful parse_status_line response_fatal resp_hdrs resp_put IHTP_MAX_HEADERS policy mem len"
proof
  fix c :: "ihtp_response_t config"
  obtain state resp where c: "c = (state, resp)" by (cases c)
  show "response_parse policy mem len c =
     message_stateful parse_status_line response_fatal resp_hdrs resp_put IHTP_MAX_HEADERS policy mem len c"
  proof (cases "ps_phase state")
    case IHTP_PARSER_PHASE_START_LINE
    show ?thesis
    proof (cases "parse_status_line mem (ps_cursor state) (size_sub len (ps_cursor state)) resp (resolve_policy policy)")
      case None
      with IHTP_PARSER_PHASE_START_LINE c show ?thesis
        by (simp add: response_parse_def response_stateful_def response_start_line_def message_stateful_def
            message_line_def config_phase_def)
    next
      case (Some r)
      obtain st m e where "r = (st, m, e)" by (cases r)
      with Some IHTP_PARSER_PHASE_START_LINE c show ?thesis
        by (auto simp: response_parse_def response_stateful_def response_start_line_def message_stateful_def
            message_line_def config_phase_def response_fatal_def response_headers_block [symmetric])
          (auto simp: regroup_def)
    qed
  next
    case IHTP_PARSER_PHASE_HEADERS
    with c show ?thesis
      by (simp add: response_parse_def response_stateful_def response_start_line_def message_stateful_def
          message_line_def config_phase_def response_headers_block [symmetric])
  qed (simp_all add: c response_parse_def response_stateful_def message_stateful_def config_phase_def regroup_def)
qed

lemma headers_parse_message:
  "headers_parse mx policy mem len =
     message_stateful no_start_line request_fatal id (\<lambda>h _. h) mx policy mem len"
proof
  fix c :: "header_list config"
  obtain state hs n where c: "c = (state, hs, n)" by (cases c)
  show "headers_parse mx policy mem len c =
     message_stateful no_start_line request_fatal id (\<lambda>h _. h) mx policy mem len c"
  proof (cases "ps_phase state")
    case IHTP_PARSER_PHASE_HEADERS
    show ?thesis
    proof (cases "parse_header_block mem (ps_cursor state) (size_sub len (ps_cursor state)) hs n n mx
        (resolve_policy policy)")
      case None
      with IHTP_PARSER_PHASE_HEADERS c show ?thesis
        by (simp add: headers_parse_def headers_stateful_def message_stateful_def message_line_def
            message_block_def config_phase_def)
    next
      case (Some r)
      obtain st hs c e where "r = (st, hs, c, e)" by (cases r)
      with Some IHTP_PARSER_PHASE_HEADERS c show ?thesis
        by (auto simp: headers_parse_def headers_stateful_def message_stateful_def message_line_def
            message_block_def config_phase_def block_outcome_def regroup_def Let_def)
    qed
  qed (simp_all add: c headers_parse_def headers_stateful_def message_stateful_def message_line_def
      no_start_line_def request_fatal_def config_phase_def regroup_def parser_state_error_def)
qed


interpretation request_inc: incremental_parser "request_parse policy" config_phase
    "config_ready req_hdrs IHTP_MAX_HEADERS" for policy
  unfolding request_parse_message by (rule request.incremental_parser_axioms)

interpretation response_inc: incremental_parser "response_parse policy" config_phase
    "config_ready resp_hdrs IHTP_MAX_HEADERS" for policy
  unfolding response_parse_message by (rule response.incremental_parser_axioms)

interpretation headers_inc: incremental_parser "headers_parse mx policy" config_phase
    "config_ready id mx" for mx policy
  unfolding headers_parse_message by (rule header_block.incremental_parser_axioms)

text \<open>The configurations a caller starts from.\<close>

definition fresh_state :: "ihtp_parser_mode_t \<Rightarrow> ihtp_parser_state_t" where
  "fresh_state mode = \<lparr> ps_mode = mode, ps_phase = initial_phase mode, ps_cursor = 0 \<rparr>"

lemma state_init_fresh: "ihtp_parser_state_init (Some s) mode = Some (fresh_state mode)"
  by (cases s) (simp add: ihtp_parser_state_init_def fresh_state_def)

lemma fresh_ready [simp]:
  "config_ready req_hdrs IHTP_MAX_HEADERS 0 (fresh_state mode, zero_request)"
  "config_ready resp_hdrs IHTP_MAX_HEADERS 0 (fresh_state mode, zero_response)"
  "length hs = mx \<Longrightarrow> config_ready id mx 0 (fresh_state mode, hs, 0)"
  by (simp_all add: config_ready_def fresh_state_def initial_phase_def req_hdrs_def resp_hdrs_def
      zero_request_def zero_response_def IHTP_MAX_HEADERS_def)

end
