(* ===== verification/Ihtp_Messages.thy ===== *)
theory Ihtp_Messages
  imports Ihtp_Incremental
begin

text \<open>
  Whole messages: what the stateless entry points of src/ihtp_parser.c accept, as a grammar of
  the bytes on the wire, and printing a message and parsing it back.
\<close>

section \<open>Start lines\<close>

lemma span_prefix: "span mem p n = xs @ ys \<Longrightarrow> p + n \<le> length mem \<Longrightarrow> span mem p (length xs) = xs"
proof -
  assume s: "span mem p n = xs @ ys" and "p + n \<le> length mem"
  then have "length (xs @ ys) = n" by (simp flip: \<open>span mem p n = xs @ ys\<close>)
  then have "length xs \<le> n" by auto
  with s show "span mem p (length xs) = xs"
    using take_span [of "length xs" mem p n] by simp
qed

lemma request_line_OK_iff:
  assumes b: "p + n \<le> length mem"
  shows "parse_request_line mem p n req policy = Some (IHTP_OK, req', e) \<longleftrightarrow>
           (\<exists>line eol rest m t v. span mem p n = line @ eol @ rest \<and> eol_ok policy line eol
              \<and> length line \<le> IHTP_MAX_REQUEST_LINE \<and> request_line_of policy line m t v
              \<and> e = length line + length eol
              \<and> req' = req\<lparr> req_method_str := Some p, req_method_len := length m,
                            req_method := method_of_bytes m, req_path := Some (p + length m + 1),
                            req_path_len := length t, req_version := v \<rparr>)"
    (is "_ \<longleftrightarrow> (\<exists>line eol rest m t v. ?G line eol rest m t v)")
proof -
  let ?s = "span mem p n"
  from parse_request_line_in [OF b, of req policy] obtain r1 e1
    where r: "parse_request_line mem p n req policy = Some (request_line_status policy ?s, r1, e1)"
    and c: "case line_end_ref policy ?s of
              Inl st \<Rightarrow> r1 = req \<and> e1 = 0
            | Inr (l, k) \<Rightarrow>
                if request_line_status policy ?s = IHTP_OK
                then r1 = set_request_line mem p (the (request_line_ref policy (span mem p l))) req
                     \<and> e1 = l + k
                else e1 = 0" by blast
  have set: "set_request_line mem p (length m, length t, v) req =
      req\<lparr> req_method_str := Some p, req_method_len := length m, req_method := method_of_bytes m,
           req_path := Some (p + length m + 1), req_path_len := length t, req_version := v \<rparr>"
    if "span mem p (length m) = m" for m t v using that by (simp add: set_request_line_def)
  have pre: "span mem p (length m) = m" and line_span: "span mem p (length line) = line"
    if "?s = line @ eol @ rest" "request_line_of policy line m t v" for line eol rest m t v
  proof -
    show "span mem p (length line) = line" using span_prefix [OF that(1) b] .
    from that obtain u where "?s = m @ u" by (auto simp: request_line_of_def)
    from span_prefix [OF this b] show "span mem p (length m) = m" .
  qed
  show ?thesis
  proof
    assume a: "parse_request_line mem p n req policy = Some (IHTP_OK, req', e)"
    with r have ok: "request_line_status policy ?s = IHTP_OK" "r1 = req'" "e1 = e" by simp_all
    obtain l k where lk: "line_end_ref policy ?s = Inr (l, k)"
      using request_line_ok_line [OF ok(1)] by blast
    then obtain line eol rest where s: "?s = line @ eol @ rest" "length line = l" "length eol = k"
      "eol_ok policy line eol" by (auto simp: line_end_ref_iff)
    have "take l ?s = line" using s by simp
    with ok(1) lk obtain x where x: "request_line_ref policy line = Some x" "l \<le> IHTP_MAX_REQUEST_LINE"
      by (auto simp: request_line_status_def split: if_splits)
    obtain i j v where xx: "x = (i, j, v)" by (cases x)
    with x obtain m t where m: "request_line_of policy line m t v" "length m = i" "length t = j"
      by (auto simp: request_line_ref_iff)
    have "span mem p l = line" using line_span [OF s(1) m(1)] s(2) by simp
    with c lk ok have "req' = set_request_line mem p x req" "e = l + k" by (simp_all add: x)
    with m s x xx set [OF pre [OF s(1) m(1)], of t v] have "?G line eol rest m t v" by simp
    then show "\<exists>line eol rest m t v. ?G line eol rest m t v" by blast
  next
    assume "\<exists>line eol rest m t v. ?G line eol rest m t v"
    then obtain line eol rest m t v where g: "?G line eol rest m t v" by blast
    then have lk: "line_end_ref policy ?s = Inr (length line, length eol)"
      by (auto intro: line_end_ref_line)
    have ref: "request_line_ref policy line = Some (length m, length t, v)"
      using g by (auto simp: request_line_ref_iff)
    have "take (length line) ?s = line" using g by simp
    with ref lk g have ok: "request_line_status policy ?s = IHTP_OK"
      by (simp add: request_line_status_def)
    have "span mem p (length line) = line" using line_span g by blast
    with c lk ok ref set [of m t v] pre [of line eol rest m t v] g
    have "r1 = req'" "e1 = e" by auto
    with r ok show "parse_request_line mem p n req policy = Some (IHTP_OK, req', e)" by simp
  qed
qed

lemma status_line_OK_iff:
  assumes b: "p + n \<le> length mem"
  shows "parse_status_line mem p n resp policy = Some (IHTP_OK, resp', e) \<longleftrightarrow>
           (\<exists>line eol rest v ds reason. span mem p n = line @ eol @ rest \<and> eol_ok policy line eol
              \<and> status_line_of line v ds reason \<and> e = length line + length eol
              \<and> resp' = resp\<lparr> resp_version := v, resp_status_code := decimal_value ds,
                              resp_reason := Some (p + 13), resp_reason_len := length reason \<rparr>)"
    (is "_ \<longleftrightarrow> (\<exists>line eol rest v ds reason. ?G line eol rest v ds reason)")
proof -
  let ?s = "span mem p n"
  from parse_status_line_in [OF b, of resp policy] obtain r1 e1
    where r: "parse_status_line mem p n resp policy = Some (status_line_status policy ?s, r1, e1)"
    and c: "case line_end_ref policy ?s of
              Inl st \<Rightarrow> r1 = resp \<and> e1 = 0
            | Inr (l, k) \<Rightarrow>
                if status_line_status policy ?s = IHTP_OK
                then r1 = set_status_line p (the (status_line_ref (span mem p l))) resp \<and> e1 = l + k
                else e1 = 0" by blast
  show ?thesis
  proof
    assume a: "parse_status_line mem p n resp policy = Some (IHTP_OK, resp', e)"
    with r have ok: "status_line_status policy ?s = IHTP_OK" "r1 = resp'" "e1 = e" by simp_all
    obtain l k where lk: "line_end_ref policy ?s = Inr (l, k)"
      using status_line_ok_line [OF ok(1)] by blast
    then obtain line eol rest where s: "?s = line @ eol @ rest" "length line = l" "length eol = k"
      "eol_ok policy line eol" by (auto simp: line_end_ref_iff)
    have "take l ?s = line" using s by simp
    with ok(1) lk obtain x where x: "status_line_ref line = Some x"
      by (auto simp: status_line_status_def split: if_splits)
    obtain v code j where xx: "x = (v, code, j)" by (cases x)
    with x obtain ds reason where m: "status_line_of line v ds reason" "code = decimal_value ds"
      "j = length reason" by (auto simp: status_line_ref_iff)
    have "span mem p l = line" using span_prefix [OF s(1) b] s(2) by simp
    with c lk ok have "resp' = set_status_line p x resp" "e = l + k" by (simp_all add: x)
    with m s xx have "?G line eol rest v ds reason" by (simp add: set_status_line_def)
    then show "\<exists>line eol rest v ds reason. ?G line eol rest v ds reason" by blast
  next
    assume "\<exists>line eol rest v ds reason. ?G line eol rest v ds reason"
    then obtain line eol rest v ds reason where g: "?G line eol rest v ds reason" by blast
    then have lk: "line_end_ref policy ?s = Inr (length line, length eol)"
      by (auto intro: line_end_ref_line)
    have ref: "status_line_ref line = Some (v, decimal_value ds, length reason)"
      using g by (auto simp: status_line_ref_iff)
    have "take (length line) ?s = line" using g by simp
    with ref lk g have ok: "status_line_status policy ?s = IHTP_OK"
      by (simp add: status_line_status_def)
    have "span mem p (length line) = line" using span_prefix [of mem p n line] g b by blast
    with c lk ok ref g have "r1 = resp'" "e1 = e" by (auto simp: set_status_line_def)
    with r ok show "parse_status_line mem p n resp policy = Some (IHTP_OK, resp', e)" by simp
  qed
qed


section \<open>A message from a fresh state\<close>

lemma request_fresh_OK_iff:
  assumes b: "p + n \<le> length mem" and "headers_ok p p IHTP_MAX_HEADERS (req_headers req) (req_num_headers req)"
  shows "request_stateful mem p n policy (fresh_state IHTP_PARSER_MODE_REQUEST) req =
             Some (IHTP_OK, st, req', k) \<longleftrightarrow>
           (\<exists>r1 e hs c e2.
              parse_request_line mem p n req (resolve_policy policy) = Some (IHTP_OK, r1, e) \<and>
              parse_header_block mem (p + e) (n - e) (req_headers req) (req_num_headers req)
                (req_num_headers req) IHTP_MAX_HEADERS (resolve_policy policy) = Some (IHTP_OK, hs, c, e2) \<and>
              req' = r1\<lparr> req_headers := hs, req_num_headers := c \<rparr> \<and> k = e + e2 \<and>
              st = \<lparr> ps_mode = IHTP_PARSER_MODE_REQUEST, ps_phase = IHTP_PARSER_PHASE_DONE,
                     ps_cursor = e + e2 \<rparr>)"
proof -
  from request.line_safe [OF b, of req "resolve_policy policy"] obtain s1 r1 e
    where r: "parse_request_line mem p n req (resolve_policy policy) = Some (s1, r1, e)"
      and h: "req_hdrs r1 = req_hdrs req" and ok: "s1 = IHTP_OK \<longrightarrow> 0 < e \<and> e \<le> n" by blast
  show ?thesis
  proof (cases "s1 = IHTP_OK")
    case False
    with r show ?thesis
      by (auto simp: request_stateful_def request_start_line_def fresh_state_def initial_phase_def)
  next
    case True
    with ok have e: "e \<le> n" "p + e + (n - e) \<le> length mem" using b by auto
    have "headers_ok p (p + e) IHTP_MAX_HEADERS (req_headers req) (req_num_headers req)"
      using assms(2) by (rule headers_ok_mono) simp
    from parse_header_block_safe [OF e(2) this, of "req_num_headers req" "resolve_policy policy"]
    obtain bs hs c e2 where blk: "parse_header_block mem (p + e) (n - e) (req_headers req)
        (req_num_headers req) (req_num_headers req) IHTP_MAX_HEADERS (resolve_policy policy) = Some (bs, hs, c, e2)"
      by fastforce
    have "req_headers r1 = req_headers req" "req_num_headers r1 = req_num_headers req"
      using h by (simp_all add: req_hdrs_def)
    with r True e blk show ?thesis
      by (cases bs) (auto simp: request_stateful_def request_start_line_def request_headers_def
          fresh_state_def initial_phase_def)
  qed
qed

lemma response_fresh_OK_iff:
  assumes b: "p + n \<le> length mem" and "headers_ok p p IHTP_MAX_HEADERS (resp_headers resp) (resp_num_headers resp)"
  shows "response_stateful mem p n policy (fresh_state IHTP_PARSER_MODE_RESPONSE) resp =
             Some (IHTP_OK, st, resp', k) \<longleftrightarrow>
           (\<exists>r1 e hs c e2.
              parse_status_line mem p n resp (resolve_policy policy) = Some (IHTP_OK, r1, e) \<and>
              parse_header_block mem (p + e) (n - e) (resp_headers resp) (resp_num_headers resp)
                (resp_num_headers resp) IHTP_MAX_HEADERS (resolve_policy policy) = Some (IHTP_OK, hs, c, e2) \<and>
              resp' = r1\<lparr> resp_headers := hs, resp_num_headers := c \<rparr> \<and> k = e + e2 \<and>
              st = \<lparr> ps_mode = IHTP_PARSER_MODE_RESPONSE, ps_phase = IHTP_PARSER_PHASE_DONE,
                     ps_cursor = e + e2 \<rparr>)"
proof -
  from response.line_safe [OF b, of resp "resolve_policy policy"] obtain s1 r1 e
    where r: "parse_status_line mem p n resp (resolve_policy policy) = Some (s1, r1, e)"
      and h: "resp_hdrs r1 = resp_hdrs resp" and ok: "s1 = IHTP_OK \<longrightarrow> 0 < e \<and> e \<le> n" by blast
  show ?thesis
  proof (cases "s1 = IHTP_OK")
    case False
    with r show ?thesis
      by (auto simp: response_stateful_def response_start_line_def fresh_state_def initial_phase_def)
  next
    case True
    with ok have e: "e \<le> n" "p + e + (n - e) \<le> length mem" using b by auto
    have "headers_ok p (p + e) IHTP_MAX_HEADERS (resp_headers resp) (resp_num_headers resp)"
      using assms(2) by (rule headers_ok_mono) simp
    from parse_header_block_safe [OF e(2) this, of "resp_num_headers resp" "resolve_policy policy"]
    obtain bs hs c e2 where blk: "parse_header_block mem (p + e) (n - e) (resp_headers resp)
        (resp_num_headers resp) (resp_num_headers resp) IHTP_MAX_HEADERS (resolve_policy policy) = Some (bs, hs, c, e2)"
      by fastforce
    have "resp_headers r1 = resp_headers resp" "resp_num_headers r1 = resp_num_headers resp"
      using h by (simp_all add: resp_hdrs_def)
    with r True e blk show ?thesis
      by (cases bs) (auto simp: response_stateful_def response_start_line_def response_headers_def
          fresh_state_def initial_phase_def)
  qed
qed

text \<open>The grammar of a request: request line, header lines, empty line, and what is recorded.\<close>

definition no_headers :: "ihtp_header_t list" where
  "no_headers = replicate IHTP_MAX_HEADERS zero_header"

definition header_section ::
    "ihtp_policy_t option \<Rightarrow> nat \<Rightarrow> byte list \<Rightarrow> ihtp_header_t list \<Rightarrow> nat \<Rightarrow> nat \<Rightarrow> bool" where
  "header_section policy q s hs c k \<longleftrightarrow>
     (\<exists>ls eol rest. s = ls @ eol @ rest \<and>
        header_lines policy IHTP_MAX_HEADERS q (no_headers, 0) ls (hs, c) \<and>
        eol_ok policy [] eol \<and> k = length ls + length eol)"

definition request_message ::
    "ihtp_policy_t option \<Rightarrow> nat \<Rightarrow> byte list \<Rightarrow> ihtp_request_t \<Rightarrow> nat \<Rightarrow> bool" where
  "request_message policy p s req k \<longleftrightarrow>
     (\<exists>line eol rest m t v hs c j.
        s = line @ eol @ rest \<and> eol_ok policy line eol \<and>
        length line \<le> IHTP_MAX_REQUEST_LINE \<and> request_line_of policy line m t v \<and>
        header_section policy (p + (length line + length eol)) rest hs c j \<and>
        k = length line + length eol + j \<and>
        req = zero_request\<lparr> req_method_str := Some p, req_method_len := length m,
                req_method := method_of_bytes m, req_path := Some (p + length m + 1),
                req_path_len := length t, req_version := v,
                req_headers := hs, req_num_headers := c \<rparr>)"

definition response_message ::
    "ihtp_policy_t option \<Rightarrow> nat \<Rightarrow> byte list \<Rightarrow> ihtp_response_t \<Rightarrow> nat \<Rightarrow> bool" where
  "response_message policy p s resp k \<longleftrightarrow>
     (\<exists>line eol rest v ds reason hs c j.
        s = line @ eol @ rest \<and> eol_ok policy line eol \<and> status_line_of line v ds reason \<and>
        header_section policy (p + (length line + length eol)) rest hs c j \<and>
        k = length line + length eol + j \<and>
        resp = zero_response\<lparr> resp_version := v, resp_status_code := decimal_value ds,
                 resp_reason := Some (p + 13), resp_reason_len := length reason,
                 resp_headers := hs, resp_num_headers := c \<rparr>)"

lemma parse_request_nonnull:
  "ihtp_parse_request undef mem (Some p) n (Some r) policy (Some b) =
     do { (status, s, req, k) \<leftarrow>
            request_stateful mem p n policy (fresh_state IHTP_PARSER_MODE_REQUEST) zero_request;
          Some (status, Some req, Some k) }"
  by (cases "request_stateful mem p n policy (fresh_state IHTP_PARSER_MODE_REQUEST) zero_request")
    (auto simp: ihtp_parse_request_def state_init_fresh ihtp_parse_request_stateful_def fresh_state_def)

lemma parse_response_nonnull:
  "ihtp_parse_response undef mem (Some p) n (Some r) policy (Some b) =
     do { (status, s, resp, k) \<leftarrow>
            response_stateful mem p n policy (fresh_state IHTP_PARSER_MODE_RESPONSE) zero_response;
          Some (status, Some resp, Some k) }"
  by (cases "response_stateful mem p n policy (fresh_state IHTP_PARSER_MODE_RESPONSE) zero_response")
    (auto simp: ihtp_parse_response_def state_init_fresh ihtp_parse_response_stateful_def fresh_state_def)

lemma length_no_headers [simp]: "length no_headers = IHTP_MAX_HEADERS"
  by (simp add: no_headers_def)

lemma zero_request_headers [simp]: "req_headers zero_request = no_headers" "req_num_headers zero_request = 0"
  by (simp_all add: zero_request_def no_headers_def)

lemma zero_response_headers [simp]: "resp_headers zero_response = no_headers" "resp_num_headers zero_response = 0"
  by (simp_all add: zero_response_def no_headers_def)

lemma header_section_iff:
  assumes "span mem p n = line @ eol @ rest" and b: "p + n \<le> length mem" and "e = length line + length eol"
  shows "parse_header_block mem (p + e) (n - e) no_headers 0 0 IHTP_MAX_HEADERS policy =
           Some (IHTP_OK, hs, c, j) \<longleftrightarrow> header_section policy (p + e) rest hs c j"
proof -
  have "e \<le> n" and "span mem (p + e) (n - e) = rest"
    using span_shift [of mem p n "line @ eol" rest] assms by simp_all
  with b header_block_ok_iff [of "p + e" "n - e" mem p IHTP_MAX_HEADERS no_headers 0 0 policy hs c j]
  show ?thesis by (simp add: header_section_def)
qed

lemma request_grammar:
  assumes b: "p + n \<le> length mem"
  shows "ihtp_parse_request undef mem (Some p) n (Some r) policy (Some bc) =
             Some (IHTP_OK, Some req, Some k) \<longleftrightarrow>
           request_message (resolve_policy policy) p (span mem p n) req k"
proof -
  let ?pol = "resolve_policy policy"
  let ?block = "\<lambda>e. parse_header_block mem (p + e) (n - e) no_headers 0 0 IHTP_MAX_HEADERS ?pol"
  have "ihtp_parse_request undef mem (Some p) n (Some r) policy (Some bc) =
             Some (IHTP_OK, Some req, Some k) \<longleftrightarrow>
      (\<exists>st. request_stateful mem p n policy (fresh_state IHTP_PARSER_MODE_REQUEST) zero_request =
         Some (IHTP_OK, st, req, k))"
    by (cases "request_stateful mem p n policy (fresh_state IHTP_PARSER_MODE_REQUEST) zero_request")
      (auto simp: parse_request_nonnull)
  also have "\<dots> \<longleftrightarrow> (\<exists>r1 e hs c j.
      parse_request_line mem p n zero_request ?pol = Some (IHTP_OK, r1, e) \<and>
      ?block e = Some (IHTP_OK, hs, c, j) \<and>
      req = r1\<lparr> req_headers := hs, req_num_headers := c \<rparr> \<and> k = e + j)"
    unfolding request_fresh_OK_iff [OF b, of zero_request policy, simplified] by blast
  also have "\<dots> \<longleftrightarrow> (\<exists>line eol rest m t v hs c j. span mem p n = line @ eol @ rest
      \<and> eol_ok ?pol line eol \<and> length line \<le> IHTP_MAX_REQUEST_LINE \<and> request_line_of ?pol line m t v
      \<and> ?block (length line + length eol) = Some (IHTP_OK, hs, c, j)
      \<and> k = length line + length eol + j
      \<and> req = zero_request\<lparr> req_method_str := Some p, req_method_len := length m,
                req_method := method_of_bytes m, req_path := Some (p + length m + 1),
                req_path_len := length t, req_version := v,
                req_headers := hs, req_num_headers := c \<rparr>)"
    unfolding request_line_OK_iff [OF b] by blast
  also have "\<dots> \<longleftrightarrow> request_message ?pol p (span mem p n) req k"
    unfolding request_message_def using header_section_iff [OF _ b refl] by (metis (no_types, lifting))
  finally show ?thesis .
qed

lemma response_grammar:
  assumes b: "p + n \<le> length mem"
  shows "ihtp_parse_response undef mem (Some p) n (Some r) policy (Some bc) =
             Some (IHTP_OK, Some resp, Some k) \<longleftrightarrow>
           response_message (resolve_policy policy) p (span mem p n) resp k"
proof -
  let ?pol = "resolve_policy policy"
  let ?block = "\<lambda>e. parse_header_block mem (p + e) (n - e) no_headers 0 0 IHTP_MAX_HEADERS ?pol"
  have "ihtp_parse_response undef mem (Some p) n (Some r) policy (Some bc) =
             Some (IHTP_OK, Some resp, Some k) \<longleftrightarrow>
      (\<exists>st. response_stateful mem p n policy (fresh_state IHTP_PARSER_MODE_RESPONSE) zero_response =
         Some (IHTP_OK, st, resp, k))"
    by (cases "response_stateful mem p n policy (fresh_state IHTP_PARSER_MODE_RESPONSE) zero_response")
      (auto simp: parse_response_nonnull)
  also have "\<dots> \<longleftrightarrow> (\<exists>r1 e hs c j.
      parse_status_line mem p n zero_response ?pol = Some (IHTP_OK, r1, e) \<and>
      ?block e = Some (IHTP_OK, hs, c, j) \<and>
      resp = r1\<lparr> resp_headers := hs, resp_num_headers := c \<rparr> \<and> k = e + j)"
    unfolding response_fresh_OK_iff [OF b, of zero_response policy, simplified] by blast
  also have "\<dots> \<longleftrightarrow> (\<exists>line eol rest v ds reason hs c j. span mem p n = line @ eol @ rest
      \<and> eol_ok ?pol line eol \<and> status_line_of line v ds reason
      \<and> ?block (length line + length eol) = Some (IHTP_OK, hs, c, j)
      \<and> k = length line + length eol + j
      \<and> resp = zero_response\<lparr> resp_version := v, resp_status_code := decimal_value ds,
                 resp_reason := Some (p + 13), resp_reason_len := length reason,
                 resp_headers := hs, resp_num_headers := c \<rparr>)"
    unfolding status_line_OK_iff [OF b] by blast
  also have "\<dots> \<longleftrightarrow> response_message ?pol p (span mem p n) resp k"
    unfolding response_message_def using header_section_iff [OF _ b refl] by (metis (no_types, lifting))
  finally show ?thesis .
qed


section \<open>Printing and parsing back\<close>

definition render_header :: "byte list \<times> byte list \<Rightarrow> byte list" where
  "render_header = (\<lambda>(name, v). name @ [COLON, SP] @ v @ [CR, LF])"

definition render_request ::
    "byte list \<Rightarrow> byte list \<Rightarrow> ihtp_http_version_t \<Rightarrow> (byte list \<times> byte list) list \<Rightarrow> byte list" where
  "render_request m t v fs =
     m @ [SP] @ t @ [SP] @ ascii ''HTTP/1.'' @ [version_byte v, CR, LF]
       @ concat (map render_header fs) @ [CR, LF]"

text \<open>The fields that can be printed: a token, and a trimmed text value that fits a line.\<close>

definition field_ok :: "byte list \<times> byte list \<Rightarrow> bool" where
  "field_ok = (\<lambda>(name, v).
     name \<noteq> [] \<and> list_all tchar name \<and> list_all text_byte v \<and> trim_ows v = v \<and>
     (v = [] \<or> \<not> ihtp_is_lws (hd v)) \<and> length name + length v + 2 \<le> IHTP_MAX_HEADER_LINE)"

fun recorded :: "nat \<Rightarrow> (byte list \<times> byte list) list \<Rightarrow> ihtp_header_t list" where
  "recorded p [] = []"
| "recorded p (f # fs) =
     field_header p (length (fst f)) (SP # snd f) # recorded (p + length (render_header f)) fs"

lemma length_recorded [simp]: "length (recorded p fs) = length fs"
  by (induction fs arbitrary: p) simp_all

lemma text_byte_not_LF: "text_byte b \<Longrightarrow> b \<noteq> LF \<and> b \<noteq> CR"
  by (auto simp: text_byte_def)

lemma trim_ows_SP: "trim_ows (SP # v) = trim_ows v"
  by (simp add: trim_ows_def ltrim_def ihtp_is_lws_def)

lemma lws_prefix_SP: "v = [] \<or> \<not> ihtp_is_lws (hd v) \<Longrightarrow> lws_prefix (SP # v) = 1"
  by (cases v) (auto simp: lws_prefix_def ihtp_is_lws_def)

lemma field_line_render:
  assumes "field_ok (name, v)"
  shows "header_line_ok policy (name @ COLON # SP # v) [CR, LF]"
    and "field_line (name @ COLON # SP # v) name (SP # v)"
proof -
  from assms have f: "name \<noteq> []" "list_all tchar name" "list_all text_byte v" "trim_ows v = v"
    "length name + length v + 2 \<le> IHTP_MAX_HEADER_LINE" by (simp_all add: field_ok_def)
  have "LF \<notin> set name" using f(2) tchar_not_special by (fastforce simp: list_all_iff)
  moreover have "LF \<notin> set v" using f(3) text_byte_not_LF by (fastforce simp: list_all_iff)
  ultimately show "header_line_ok policy (name @ COLON # SP # v) [CR, LF]"
    using f by (simp add: header_line_ok_def eol_ok_def)
  show "field_line (name @ COLON # SP # v) name (SP # v)"
    using f by (simp add: field_line_def trim_ows_SP)
qed

lemma header_lines_render:
  assumes "list_all field_ok fs" and "c + length fs \<le> mx" and "mx \<le> length hs"
  shows "header_lines policy mx p (hs, c) (concat (map render_header fs))
           (take c hs @ recorded p fs @ drop (c + length fs) hs, c + length fs)"
  using assms
proof (induction fs arbitrary: p hs c)
  case Nil
  then show ?case by (simp add: no_line)
next
  case (Cons f fs)
  obtain name v where f: "f = (name, v)" by (cases f)
  let ?line = "name @ COLON # SP # v"
  let ?h = "field_header p (length name) (SP # v)"
  let ?hs = "hs[c := ?h]"
  have c: "c < mx" "c < length hs" using Cons.prems by auto
  have ok: "header_line_ok policy ?line [CR, LF]" "field_line ?line name (SP # v)"
    using field_line_render Cons.prems(1) f by simp_all
  have p: "p + length (render_header f) = p + length ?line + length [CR, LF]"
    by (simp add: render_header_def f)
  have "take (Suc c) ?hs = take c hs @ [?h]" using c by (simp add: take_Suc_conv_app_nth)
  moreover have "drop (Suc c + length fs) ?hs = drop (Suc c + length fs) hs" by simp
  ultimately have "header_lines policy mx (p + length ?line + length [CR, LF]) (?hs, Suc c)
      (concat (map render_header fs))
      (take c hs @ recorded p (f # fs) @ drop (c + length (f # fs)) hs, c + length (f # fs))"
    using Cons.IH [of "Suc c" ?hs "p + length (render_header f)"] Cons.prems
    unfolding p by (simp add: f render_header_def)
  from a_field [OF ok c(1) this] show ?case by (simp add: render_header_def f)
qed

text \<open>What a recorded header reads back as.\<close>

definition header_text :: "mem \<Rightarrow> ihtp_header_t \<Rightarrow> byte list \<times> byte list" where
  "header_text mem h =
     (span mem (the (hdr_name h)) (hdr_name_len h), span mem (the (hdr_value h)) (hdr_value_len h))"

lemma span_mid: "p = length pre \<Longrightarrow> n = length xs \<Longrightarrow> span (pre @ xs @ post) p n = xs"
  by (simp add: span_def)

lemma recorded_text:
  assumes "list_all field_ok fs" and "p = length pre"
  shows "map (header_text (pre @ concat (map render_header fs) @ post)) (recorded p fs) = fs"
  using assms
proof (induction fs arbitrary: p pre)
  case Nil
  show ?case by simp
next
  case (Cons f fs)
  obtain name v where f: "f = (name, v)" by (cases f)
  from Cons.prems f have v: "trim_ows v = v" "v = [] \<or> \<not> ihtp_is_lws (hd v)"
    by (simp_all add: field_ok_def)
  let ?mem = "pre @ concat (map render_header (f # fs)) @ post"
  have m1: "?mem = pre @ name @ ([COLON, SP] @ v @ [CR, LF] @ concat (map render_header fs) @ post)"
    and m2: "?mem = (pre @ name @ [COLON, SP]) @ v @ ([CR, LF] @ concat (map render_header fs) @ post)"
    and m3: "?mem = (pre @ render_header f) @ concat (map render_header fs) @ post"
    by (simp_all add: render_header_def f)
  have "span ?mem p (length name) = name"
    unfolding m1 using Cons.prems(2) by (intro span_mid) simp_all
  moreover have "span ?mem (p + length name + 1 + 1) (length v) = v"
    unfolding m2 using Cons.prems(2) by (intro span_mid) simp_all
  ultimately have "header_text ?mem (field_header p (length name) (SP # v)) = (name, v)"
    unfolding header_text_def field_header_def using v
    by (simp only: ihtp_header_t.simps option.sel lws_prefix_SP trim_ows_SP)
  moreover have "map (header_text ?mem) (recorded (p + length (render_header f)) fs) = fs"
    unfolding m3 using Cons.IH [of "p + length (render_header f)" "pre @ render_header f"] Cons.prems by simp
  ultimately show ?case by (simp add: f)
qed


definition reads_back ::
    "mem \<Rightarrow> ihtp_request_t \<Rightarrow> byte list \<Rightarrow> byte list \<Rightarrow> ihtp_http_version_t \<Rightarrow>
       (byte list \<times> byte list) list \<Rightarrow> bool" where
  "reads_back mem req m t v fs \<longleftrightarrow>
     req_method req = method_of_bytes m \<and>
     span mem (the (req_method_str req)) (req_method_len req) = m \<and>
     span mem (the (req_path req)) (req_path_len req) = t \<and> req_version req = v \<and>
     req_num_headers req = length fs \<and>
     map (header_text mem) (take (req_num_headers req) (req_headers req)) = fs"

definition request_parts_ok ::
    "ihtp_policy_t option \<Rightarrow> byte list \<Rightarrow> byte list \<Rightarrow> (byte list \<times> byte list) list \<Rightarrow> bool" where
  "request_parts_ok policy m t fs \<longleftrightarrow>
     m \<noteq> [] \<and> list_all tchar m \<and> t \<noteq> [] \<and>
     list_all (target_byte (policy_flag allow_spaces_in_uri policy)) t \<and>
     length m + length t + 10 \<le> IHTP_MAX_REQUEST_LINE \<and>
     list_all field_ok fs \<and> length fs \<le> IHTP_MAX_HEADERS"

definition printed_request ::
    "nat \<Rightarrow> byte list \<Rightarrow> byte list \<Rightarrow> ihtp_http_version_t \<Rightarrow> (byte list \<times> byte list) list \<Rightarrow> ihtp_request_t" where
  "printed_request p m t v fs =
     zero_request\<lparr> req_method_str := Some p, req_method_len := length m,
       req_method := method_of_bytes m, req_path := Some (p + length m + 1),
       req_path_len := length t, req_version := v,
       req_headers := recorded (p + length m + length t + 12) fs @ drop (length fs) no_headers,
       req_num_headers := length fs \<rparr>"

lemma printed_request_message:
  assumes "request_parts_ok policy m t fs"
  shows "request_message policy p (render_request m t v fs @ rest) (printed_request p m t v fs)
           (length (render_request m t v fs))"
proof -
  let ?line = "m @ SP # t @ SP # ascii ''HTTP/1.'' @ [version_byte v]"
  let ?fields = "concat (map render_header fs)"
  have s: "render_request m t v fs @ rest = ?line @ [CR, LF] @ ?fields @ [CR, LF] @ rest"
    by (simp add: render_request_def)
  have "LF \<notin> set m" using assms tchar_not_special by (fastforce simp: request_parts_ok_def list_all_iff)
  moreover have "LF \<notin> set t"
    using assms by (fastforce simp: request_parts_ok_def list_all_iff target_byte_def)
  moreover have "LF \<notin> set (ascii ''HTTP/1.'' @ [version_byte v])" by (cases v) (simp_all add: ascii_def)
  ultimately have eol: "eol_ok policy ?line [CR, LF]" by (simp add: eol_ok_def)
  have line: "request_line_of policy ?line m t v"
    using assms by (simp add: request_line_of_def request_parts_ok_def)
  have len: "length ?line = length m + length t + 10" by simp
  have "header_lines policy IHTP_MAX_HEADERS (p + (length ?line + length [CR, LF])) (no_headers, 0) ?fields
      (recorded (p + (length ?line + length [CR, LF])) fs @ drop (length fs) no_headers, length fs)"
    using header_lines_render [of fs 0 IHTP_MAX_HEADERS no_headers policy] assms
    by (simp add: request_parts_ok_def)
  then have "header_section policy (p + (length ?line + length [CR, LF])) (?fields @ [CR, LF] @ rest)
      (recorded (p + (length ?line + length [CR, LF])) fs @ drop (length fs) no_headers) (length fs)
      (length ?fields + 2)"
    unfolding header_section_def
    by - (rule exI [where x = ?fields], rule exI [where x = "[CR, LF]"], rule exI [where x = rest],
        simp add: eol_ok_def)
  moreover have "length ?line \<le> IHTP_MAX_REQUEST_LINE"
    unfolding len using assms by (simp add: request_parts_ok_def)
  moreover have "length (render_request m t v fs) = length ?line + length [CR, LF] + (length ?fields + 2)"
    by (simp add: render_request_def)
  moreover have "printed_request p m t v fs = zero_request\<lparr> req_method_str := Some p, req_method_len := length m,
                req_method := method_of_bytes m, req_path := Some (p + length m + 1),
                req_path_len := length t, req_version := v,
                req_headers := recorded (p + (length ?line + length [CR, LF])) fs @ drop (length fs) no_headers,
                req_num_headers := length fs \<rparr>"
    unfolding printed_request_def len by (simp add: add_ac)
  ultimately show ?thesis
    unfolding request_message_def using s eol line by blast
qed

lemma printed_request_reads_back:
  assumes "request_parts_ok policy m t fs"
  shows "reads_back (render_request m t v fs @ rest) (printed_request 0 m t v fs) m t v fs"
proof -
  let ?fields = "concat (map render_header fs)"
  let ?pre = "m @ [SP] @ t @ [SP] @ ascii ''HTTP/1.'' @ [version_byte v, CR, LF]"
  define M where "M = render_request m t v fs @ rest"
  have m1: "M = [] @ m @ ([SP] @ t @ [SP] @ ascii ''HTTP/1.'' @ [version_byte v, CR, LF] @ ?fields @ [CR, LF] @ rest)"
    and m2: "M = (m @ [SP]) @ t @ ([SP] @ ascii ''HTTP/1.'' @ [version_byte v, CR, LF] @ ?fields @ [CR, LF] @ rest)"
    and m3: "M = ?pre @ ?fields @ ([CR, LF] @ rest)"
    by (simp_all add: M_def render_request_def)
  have 1: "span M 0 (length m) = m" unfolding m1 by (rule span_mid) simp_all
  have 2: "span M (0 + length m + 1) (length t) = t" unfolding m2 by (rule span_mid) simp_all
  have "0 + length m + length t + 12 = length ?pre" by simp
  moreover have "list_all field_ok fs" using assms by (simp add: request_parts_ok_def)
  ultimately have 3: "map (header_text M) (recorded (0 + length m + length t + 12) fs) = fs"
    unfolding m3 by (intro recorded_text)
  show ?thesis
    unfolding M_def [symmetric] using 1 2 3
    by (simp add: reads_back_def printed_request_def)
qed

end
