(* ===== verification/Ihtp_Semantics.thy ===== *)
theory Ihtp_Semantics
  imports Ihtp_Fields Ihtp_Messages
begin

text \<open>
  The semantics layer, src/ihtp_semantics.c: \<open>ihtp_request_apply_semantics\<close> and
  \<open>ihtp_response_apply_semantics\<close>.  Each is the loop over the recorded headers (one pass is a
  definition of its own) and the checks and assignments after it.  The local variables of the two
  functions are the record \<open>sem_locals\<close>.  The functions are evaluated to a definition on the
  list of header texts: which messages are accepted, and what is decided about the body, the
  connection and the protocol.
\<close>

section \<open>The functions\<close>

record sem_locals =
  has_te :: bool
  has_cl :: bool
  chunked :: bool
  has_host :: bool
  has_upgrade :: bool
  has_expect :: bool
  has_trailer :: bool
  connection :: connection_flags
  chunked_count :: nat
  content_length :: "64 word"

definition sem_start :: sem_locals where
  "sem_start = \<lparr> has_te = False, has_cl = False, chunked = False, has_host = False,
     has_upgrade = False, has_expect = False, has_trailer = False,
     connection = (False, False, False), chunked_count = 0, content_length = 0 \<rparr>"

text \<open>The address of a value of \<open>n\<close> bytes; a null pointer has no bytes behind it.\<close>

definition value_at :: "ptr \<Rightarrow> nat \<Rightarrow> nat ub" where
  "value_at p n = (case p of Some a \<Rightarrow> Some a | None \<Rightarrow> if n = 0 then Some 0 else None)"

text \<open>\<open>if (policy == nullptr) policy = &strict\<close>\<close>

definition policy_or_strict :: "ihtp_policy_t option \<Rightarrow> ihtp_policy_t" where
  "policy_or_strict policy = (case policy of None \<Rightarrow> IHTP_POLICY_STRICT | Some p \<Rightarrow> p)"

definition request_header ::
    "token_test \<Rightarrow> mem \<Rightarrow> ihtp_header_t \<Rightarrow> sem_locals \<times> ihtp_request_t \<Rightarrow>
       (sem_locals \<times> ihtp_request_t, ihtp_status_t \<times> ihtp_request_t) ctl ub" where
  "request_header is_token mem h = (\<lambda>(l, req).
     do { eq \<leftarrow> header_name_eq mem h (ascii ''transfer-encoding'') 17;
     if eq then
       do { v \<leftarrow> value_at (hdr_value h) (hdr_value_len h);
            r \<leftarrow> parse_transfer_encoding is_token mem v (hdr_value_len h);
            case r of
              None \<Rightarrow> Some (Return (IHTP_ERROR, req))
            | Some (header_chunked, header_chunked_count) \<Rightarrow>
                Some (Continue (l\<lparr> has_te := True, chunked := header_chunked,
                  chunked_count := chunked_count l + header_chunked_count \<rparr>, req)) }
     else do { eq \<leftarrow> header_name_eq mem h (ascii ''content-length'') 14;
     if eq then
       do { v \<leftarrow> value_at (hdr_value h) (hdr_value_len h);
            r \<leftarrow> parse_content_length mem v (hdr_value_len h);
            case r of
              None \<Rightarrow> Some (Return (IHTP_ERROR, req))
            | Some parsed_content_length \<Rightarrow>
                if has_cl l \<and> parsed_content_length \<noteq> content_length l
                then Some (Return (IHTP_ERROR, req))
                else Some (Continue (l\<lparr> has_cl := True, content_length := parsed_content_length \<rparr>, req)) }
     else do { eq \<leftarrow> header_name_eq mem h (ascii ''connection'') 10;
     if eq then
       do { v \<leftarrow> value_at (hdr_value h) (hdr_value_len h);
            r \<leftarrow> parse_connection_header is_token mem v (hdr_value_len h) (connection l);
            case r of
              None \<Rightarrow> Some (Return (IHTP_ERROR, req))
            | Some flags \<Rightarrow> Some (Continue (l\<lparr> connection := flags \<rparr>, req)) }
     else do { eq \<leftarrow> header_name_eq mem h (ascii ''upgrade'') 7;
     if eq then
       do { v \<leftarrow> value_at (hdr_value h) (hdr_value_len h);
            ok \<leftarrow> is_token mem v (hdr_value_len h);
            if \<not> ok then Some (Return (IHTP_ERROR, req))
            else Some (Continue (l\<lparr> has_upgrade := True \<rparr>, req)) }
     else do { eq \<leftarrow> header_name_eq mem h (ascii ''host'') 4;
     if eq then
       (if has_host l \<or> hdr_value_len h = 0 then Some (Return (IHTP_ERROR, req))
        else Some (Continue (l\<lparr> has_host := True \<rparr>, req)))
     else do { eq \<leftarrow> header_name_eq mem h (ascii ''expect'') 6;
     if eq then
       do { v \<leftarrow> value_at (hdr_value h) (hdr_value_len h);
            r \<leftarrow> parse_expect_header mem v (hdr_value_len h);
            case r of
              None \<Rightarrow> Some (Return (IHTP_ERROR, req))
            | Some e \<Rightarrow>
                Some (Continue (l\<lparr> has_expect := True \<rparr>, req\<lparr> req_expects_continue := e \<rparr>)) }
     else do { eq \<leftarrow> header_name_eq mem h (ascii ''trailer'') 7;
     if eq then
       do { v \<leftarrow> value_at (hdr_value h) (hdr_value_len h);
            ok \<leftarrow> parse_trailer_header is_token mem v (hdr_value_len h);
            if \<not> ok then Some (Return (IHTP_ERROR, req))
            else Some (Continue (l\<lparr> has_trailer := True \<rparr>, req)) }
     else Some (Continue (l, req)) } } } } } } })"

text \<open>\<open>for (size_t i = 0; i < num_headers; i++)\<close> over the header array.\<close>

function for_headers ::
    "(ihtp_header_t \<Rightarrow> 's \<Rightarrow> ('s, 'r) ctl ub) \<Rightarrow> ihtp_header_t list \<Rightarrow> nat \<Rightarrow> nat \<Rightarrow> 's \<Rightarrow> ('s, 'r) ctl ub" where
  "for_headers body headers num_headers i st =
     (if i < num_headers then
        do { h \<leftarrow> hdr_read headers i;
             r \<leftarrow> body h st;
             case r of
               Return result \<Rightarrow> Some (Return result)
             | Continue st \<Rightarrow> for_headers body headers num_headers (Suc i) st }
      else Some (Continue st))"
  by pat_completeness auto
termination
  by (relation "measure (\<lambda>(body, headers, num_headers, i, st). num_headers - i)") auto

declare for_headers.simps [simp del]

definition request_finish ::
    "ihtp_policy_t \<Rightarrow> sem_locals \<Rightarrow> ihtp_request_t \<Rightarrow> ihtp_status_t \<times> ihtp_request_t" where
  "request_finish policy l req =
     (if has_te l \<and> has_cl l \<and> reject_te_cl policy then (IHTP_ERROR, req)
      else if req_version req = IHTP_HTTP_11 \<and> \<not> has_host l then (IHTP_ERROR, req)
      else if chunked_count l > 1 then (IHTP_ERROR, req)
      else if has_te l \<and> \<not> chunked l then (IHTP_ERROR, req)
      else
        let (connection_close, connection_keep_alive, connection_upgrade) = connection l;
            (req, has_connection) =
              (if connection_close then (req\<lparr> req_keep_alive := False \<rparr>, True)
               else if connection_keep_alive then (req\<lparr> req_keep_alive := True \<rparr>, True)
               else (req, False));
            req =
              (if has_te l \<and> chunked l then req\<lparr> req_body_mode := IHTP_BODY_CHUNKED \<rparr>
               else if has_cl l
               then req\<lparr> req_body_mode := IHTP_BODY_FIXED, req_content_length := content_length l \<rparr>
               else req\<lparr> req_body_mode := IHTP_BODY_NONE \<rparr>)
        in if has_trailer l \<and> req_body_mode req \<noteq> IHTP_BODY_CHUNKED then (IHTP_ERROR, req)
           else
             let req = req\<lparr> req_protocol_upgrade := has_upgrade l \<and> connection_upgrade,
                            req_has_trailer_fields := has_trailer l \<rparr>;
                 req = (if \<not> has_expect l then req\<lparr> req_expects_continue := False \<rparr> else req);
                 req = (if \<not> has_connection then
                          (if req_version req = IHTP_HTTP_11 then req\<lparr> req_keep_alive := True \<rparr>
                           else req\<lparr> req_keep_alive := False \<rparr>)
                        else req)
             in (IHTP_OK, req))"

definition ihtp_request_apply_semantics ::
    "token_test \<Rightarrow> mem \<Rightarrow> ihtp_request_t option \<Rightarrow> ihtp_policy_t option \<Rightarrow>
       (ihtp_status_t \<times> ihtp_request_t option) ub" where
  "ihtp_request_apply_semantics is_token mem req policy =
     (case req of
        None \<Rightarrow> Some (IHTP_ERROR, None)
      | Some req \<Rightarrow>
          let policy = policy_or_strict policy
          in do { r \<leftarrow> for_headers (request_header is_token mem) (req_headers req) (req_num_headers req) 0
                         (sem_start, req);
                  case r of
                    Return (status, req) \<Rightarrow> Some (status, Some req)
                  | Continue (l, req) \<Rightarrow>
                      (let (status, req) = request_finish policy l req in Some (status, Some req)) })"

definition response_header ::
    "token_test \<Rightarrow> mem \<Rightarrow> ihtp_header_t \<Rightarrow> sem_locals \<Rightarrow> (sem_locals, ihtp_status_t) ctl ub" where
  "response_header is_token mem h l =
     do { eq \<leftarrow> header_name_eq mem h (ascii ''transfer-encoding'') 17;
     if eq then
       do { v \<leftarrow> value_at (hdr_value h) (hdr_value_len h);
            r \<leftarrow> parse_transfer_encoding is_token mem v (hdr_value_len h);
            case r of
              None \<Rightarrow> Some (Return IHTP_ERROR)
            | Some (header_chunked, header_chunked_count) \<Rightarrow>
                Some (Continue (l\<lparr> has_te := True, chunked := header_chunked,
                  chunked_count := chunked_count l + header_chunked_count \<rparr>)) }
     else do { eq \<leftarrow> header_name_eq mem h (ascii ''content-length'') 14;
     if eq then
       do { v \<leftarrow> value_at (hdr_value h) (hdr_value_len h);
            r \<leftarrow> parse_content_length mem v (hdr_value_len h);
            case r of
              None \<Rightarrow> Some (Return IHTP_ERROR)
            | Some parsed_content_length \<Rightarrow>
                if has_cl l \<and> parsed_content_length \<noteq> content_length l
                then Some (Return IHTP_ERROR)
                else Some (Continue (l\<lparr> has_cl := True, content_length := parsed_content_length \<rparr>)) }
     else do { eq \<leftarrow> header_name_eq mem h (ascii ''connection'') 10;
     if eq then
       do { v \<leftarrow> value_at (hdr_value h) (hdr_value_len h);
            r \<leftarrow> parse_connection_header is_token mem v (hdr_value_len h) (connection l);
            case r of
              None \<Rightarrow> Some (Return IHTP_ERROR)
            | Some flags \<Rightarrow> Some (Continue (l\<lparr> connection := flags \<rparr>)) }
     else do { eq \<leftarrow> header_name_eq mem h (ascii ''upgrade'') 7;
     if eq then
       do { v \<leftarrow> value_at (hdr_value h) (hdr_value_len h);
            ok \<leftarrow> is_token mem v (hdr_value_len h);
            if \<not> ok then Some (Return IHTP_ERROR)
            else Some (Continue (l\<lparr> has_upgrade := True \<rparr>)) }
     else do { eq \<leftarrow> header_name_eq mem h (ascii ''trailer'') 7;
     if eq then
       do { v \<leftarrow> value_at (hdr_value h) (hdr_value_len h);
            ok \<leftarrow> parse_trailer_header is_token mem v (hdr_value_len h);
            if \<not> ok then Some (Return IHTP_ERROR)
            else Some (Continue (l\<lparr> has_trailer := True \<rparr>)) }
     else Some (Continue l) } } } } }"

definition response_finish ::
    "ihtp_policy_t \<Rightarrow> sem_locals \<Rightarrow> ihtp_response_t \<Rightarrow> ihtp_status_t \<times> ihtp_response_t" where
  "response_finish policy l resp =
     (if has_te l \<and> has_cl l \<and> reject_te_cl policy then (IHTP_ERROR, resp)
      else if chunked_count l > 1 then (IHTP_ERROR, resp)
      else
        let (connection_close, connection_keep_alive, connection_upgrade) = connection l;
            (resp, has_connection) =
              (if connection_close then (resp\<lparr> resp_keep_alive := False \<rparr>, True)
               else if connection_keep_alive then (resp\<lparr> resp_keep_alive := True \<rparr>, True)
               else (resp, False));
            resp =
              (if (100 \<le> resp_status_code resp \<and> resp_status_code resp < 200) \<or>
                  resp_status_code resp = 204 \<or> resp_status_code resp = 304
               then resp\<lparr> resp_body_mode := IHTP_BODY_NONE \<rparr>
               else if has_te l \<and> chunked l then resp\<lparr> resp_body_mode := IHTP_BODY_CHUNKED \<rparr>
               else if has_cl l
               then resp\<lparr> resp_body_mode := IHTP_BODY_FIXED, resp_content_length := content_length l \<rparr>
               else resp\<lparr> resp_body_mode := IHTP_BODY_EOF \<rparr>)
        in if has_trailer l \<and> resp_body_mode resp \<noteq> IHTP_BODY_CHUNKED then (IHTP_ERROR, resp)
           else
             let resp = resp\<lparr> resp_protocol_upgrade := resp_status_code resp = 101 \<and> has_upgrade l \<and>
                                connection_upgrade \<and> \<not> connection_close,
                              resp_has_trailer_fields := has_trailer l \<rparr>;
                 (resp, has_connection) =
                   (if resp_protocol_upgrade resp then (resp\<lparr> resp_keep_alive := False \<rparr>, True)
                    else (resp, has_connection));
                 resp = (if \<not> has_connection \<and> resp_version resp = IHTP_HTTP_11 \<and>
                            resp_body_mode resp \<noteq> IHTP_BODY_EOF
                         then resp\<lparr> resp_keep_alive := True \<rparr> else resp)
             in (IHTP_OK, resp))"

definition ihtp_response_apply_semantics ::
    "token_test \<Rightarrow> mem \<Rightarrow> ihtp_response_t option \<Rightarrow> ihtp_policy_t option \<Rightarrow>
       (ihtp_status_t \<times> ihtp_response_t option) ub" where
  "ihtp_response_apply_semantics is_token mem resp policy =
     (case resp of
        None \<Rightarrow> Some (IHTP_ERROR, None)
      | Some resp \<Rightarrow>
          let policy = policy_or_strict policy
          in do { r \<leftarrow> for_headers (response_header is_token mem) (resp_headers resp)
                         (resp_num_headers resp) 0 sem_start;
                  case r of
                    Return status \<Rightarrow> Some (status, Some resp)
                  | Continue l \<Rightarrow>
                      (let (status, resp) = response_finish policy l resp in Some (status, Some resp)) })"


section \<open>The meaning of a header section\<close>

text \<open>The values of the fields with a given name, in order.\<close>

definition values_of :: "string \<Rightarrow> (byte list \<times> byte list) list \<Rightarrow> byte list list" where
  "values_of nm fs = map snd (filter (\<lambda>f. ci_eq (fst f) (ascii nm)) fs)"

definition header_fields :: "mem \<Rightarrow> ihtp_header_t list \<Rightarrow> nat \<Rightarrow> (byte list \<times> byte list) list" where
  "header_fields mem hs n = map (header_text mem) (take n hs)"

definition hdr_in :: "mem \<Rightarrow> ihtp_header_t \<Rightarrow> bool" where
  "hdr_in mem h \<longleftrightarrow> (\<exists>p v. hdr_name h = Some p \<and> p + hdr_name_len h \<le> length mem \<and>
     hdr_value h = Some v \<and> v + hdr_value_len h \<le> length mem)"

definition headers_in :: "mem \<Rightarrow> ihtp_header_t list \<Rightarrow> nat \<Rightarrow> bool" where
  "headers_in mem hs n \<longleftrightarrow> n \<le> length hs \<and> list_all (hdr_in mem) (take n hs)"

text \<open>What every message must satisfy for its header section to be accepted.\<close>

definition lengths_agree :: "byte list list \<Rightarrow> bool" where
  "lengths_agree vs \<longleftrightarrow>
     (\<forall>v\<in>set vs. content_length_ref v \<noteq> None \<and> content_length_ref v = content_length_ref (hd vs))"

definition fields_valid :: "(byte list \<times> byte list) list \<Rightarrow> bool" where
  "fields_valid fs \<longleftrightarrow>
     (\<forall>v\<in>set (values_of ''transfer-encoding'' fs). transfer_encoding_ref v \<noteq> None) \<and>
     lengths_agree (values_of ''content-length'' fs) \<and>
     (\<forall>v\<in>set (values_of ''connection'' fs). connection_ref v \<noteq> None) \<and>
     (\<forall>v\<in>set (values_of ''upgrade'' fs). list_all tchar v) \<and>
     (\<forall>v\<in>set (values_of ''trailer'' fs). list_all token_ok (list_elements v))"

definition te_chunked :: "(byte list \<times> byte list) list \<Rightarrow> bool" where
  "te_chunked fs \<longleftrightarrow> values_of ''transfer-encoding'' fs \<noteq> [] \<and>
     fst (the (transfer_encoding_ref (List.last (values_of ''transfer-encoding'' fs))))"

definition te_count :: "(byte list \<times> byte list) list \<Rightarrow> nat" where
  "te_count fs = sum_list (map (\<lambda>v. snd (the (transfer_encoding_ref v))) (values_of ''transfer-encoding'' fs))"

definition cl_value :: "(byte list \<times> byte list) list \<Rightarrow> 64 word" where
  "cl_value fs =
     (if values_of ''content-length'' fs = [] then 0
      else the (content_length_ref (List.last (values_of ''content-length'' fs))))"

definition connection_options :: "(byte list \<times> byte list) list \<Rightarrow> connection_flags" where
  "connection_options fs =
     foldl (\<lambda>fl v. or_flags fl (the (connection_ref v))) (False, False, False) (values_of ''connection'' fs)"

definition summary :: "(byte list \<times> byte list) list \<Rightarrow> sem_locals" where
  "summary fs = \<lparr> has_te = values_of ''transfer-encoding'' fs \<noteq> [],
     has_cl = values_of ''content-length'' fs \<noteq> [], chunked = te_chunked fs, has_host = False,
     has_upgrade = values_of ''upgrade'' fs \<noteq> [], has_expect = False,
     has_trailer = values_of ''trailer'' fs \<noteq> [], connection = connection_options fs,
     chunked_count = te_count fs, content_length = cl_value fs \<rparr>"

text \<open>One field, on bytes.\<close>

definition common_field :: "byte list \<times> byte list \<Rightarrow> sem_locals \<Rightarrow> sem_locals option" where
  "common_field = (\<lambda>(n, v) l.
     if ci_eq n (ascii ''transfer-encoding'') then
       map_option (\<lambda>(ch, c). l\<lparr> has_te := True, chunked := ch, chunked_count := chunked_count l + c \<rparr>)
         (transfer_encoding_ref v)
     else if ci_eq n (ascii ''content-length'') then
       (case content_length_ref v of None \<Rightarrow> None
        | Some k \<Rightarrow> if has_cl l \<and> k \<noteq> content_length l then None
                    else Some (l\<lparr> has_cl := True, content_length := k \<rparr>))
     else if ci_eq n (ascii ''connection'') then
       map_option (\<lambda>fl. l\<lparr> connection := or_flags (connection l) fl \<rparr>) (connection_ref v)
     else if ci_eq n (ascii ''upgrade'') then
       (if list_all tchar v then Some (l\<lparr> has_upgrade := True \<rparr>) else None)
     else if ci_eq n (ascii ''trailer'') then
       (if list_all token_ok (list_elements v) then Some (l\<lparr> has_trailer := True \<rparr>) else None)
     else Some l)"

definition request_field ::
    "byte list \<times> byte list \<Rightarrow> sem_locals \<times> ihtp_request_t \<Rightarrow>
       (sem_locals \<times> ihtp_request_t, ihtp_status_t \<times> ihtp_request_t) ctl" where
  "request_field f = (\<lambda>(l, req).
     if ci_eq (fst f) (ascii ''host'') then
       (if has_host l \<or> snd f = [] then Return (IHTP_ERROR, req)
        else Continue (l\<lparr> has_host := True \<rparr>, req))
     else if ci_eq (fst f) (ascii ''expect'') then
       (case expect_ref (snd f) of
          None \<Rightarrow> Return (IHTP_ERROR, req)
        | Some e \<Rightarrow> Continue (l\<lparr> has_expect := True \<rparr>, req\<lparr> req_expects_continue := e \<rparr>))
     else case common_field f l of
            None \<Rightarrow> Return (IHTP_ERROR, req)
          | Some l' \<Rightarrow> Continue (l', req))"

lemma ci_eq_names:
  "ci_eq n (ascii a) \<Longrightarrow> ci_eq n (ascii b) \<longleftrightarrow> ci_eq (ascii a) (ascii b)"
  by (simp add: ci_eq_def)

lemma names_differ [simp]:
  "\<not> ci_eq (ascii ''upgrade'') (ascii ''trailer'')" "\<not> ci_eq (ascii ''trailer'') (ascii ''upgrade'')"
  by code_simp+

lemma lengths_differ [simp]: "length a \<noteq> length b \<Longrightarrow> \<not> ci_eq (ascii a) (ascii b)"
  using ci_eq_length [of "ascii a" "ascii b"] by auto

lemma name_eq:
  "hdr_name h = Some p \<Longrightarrow> p + hdr_name_len h \<le> length mem \<Longrightarrow> length lit = m \<Longrightarrow>
     header_name_eq mem h lit m = Some (ci_eq (span mem p (hdr_name_len h)) lit)"
  using header_name_eq_in by blast

context token_scanner
begin

lemma request_header_in:
  assumes "hdr_in mem h"
  shows "request_header is_token mem h st = Some (request_field (header_text mem h) st)"
proof -
  obtain l req where st: "st = (l, req)" by (cases st)
  from assms obtain p v where h: "hdr_name h = Some p" "p + hdr_name_len h \<le> length mem"
    "hdr_value h = Some v" "v + hdr_value_len h \<le> length mem" by (auto simp: hdr_in_def)
  let ?n = "span mem p (hdr_name_len h)" and ?v = "span mem v (hdr_value_len h)"
  have ht: "header_text mem h = (?n, ?v)" using h by (simp add: header_text_def)
  have va: "value_at (hdr_value h) (hdr_value_len h) = Some v" using h by (simp add: value_at_def)
  have len: "hdr_value_len h = 0 \<longleftrightarrow> ?v = []" using h by (auto simp: span_def)
  note [simp] = name_eq [OF h(1,2)] va parse_transfer_encoding_in [OF h(4)] parse_content_length_in [OF h(4)]
    parse_connection_header_in [OF h(4)] is_token_spec [OF h(4)] parse_expect_header_in [OF h(4)]
    parse_trailer_header_in [OF h(4)] len
  consider (te) "ci_eq ?n (ascii ''transfer-encoding'')" | (cl) "ci_eq ?n (ascii ''content-length'')"
    | (conn) "ci_eq ?n (ascii ''connection'')" | (upg) "ci_eq ?n (ascii ''upgrade'')"
    | (host) "ci_eq ?n (ascii ''host'')" | (expect) "ci_eq ?n (ascii ''expect'')"
    | (trailer) "ci_eq ?n (ascii ''trailer'')"
    | (other) "\<not> ci_eq ?n (ascii ''transfer-encoding'')" "\<not> ci_eq ?n (ascii ''content-length'')"
        "\<not> ci_eq ?n (ascii ''connection'')" "\<not> ci_eq ?n (ascii ''upgrade'')"
        "\<not> ci_eq ?n (ascii ''host'')" "\<not> ci_eq ?n (ascii ''expect'')" "\<not> ci_eq ?n (ascii ''trailer'')"
    by blast
  then show ?thesis
    unfolding ht st request_header_def request_field_def common_field_def prod.case fst_conv snd_conv
    by cases (simp_all add: ci_eq_names split: option.split prod.split)
qed

lemma response_header_in:
  assumes "hdr_in mem h"
  shows "response_header is_token mem h l =
    Some (case common_field (header_text mem h) l of None \<Rightarrow> Return IHTP_ERROR | Some l' \<Rightarrow> Continue l')"
proof -
  from assms obtain p v where h: "hdr_name h = Some p" "p + hdr_name_len h \<le> length mem"
    "hdr_value h = Some v" "v + hdr_value_len h \<le> length mem" by (auto simp: hdr_in_def)
  let ?n = "span mem p (hdr_name_len h)" and ?v = "span mem v (hdr_value_len h)"
  have ht: "header_text mem h = (?n, ?v)" using h by (simp add: header_text_def)
  have va: "value_at (hdr_value h) (hdr_value_len h) = Some v" using h by (simp add: value_at_def)
  show ?thesis
    unfolding ht response_header_def common_field_def prod.case
    by (simp add: name_eq [OF h(1,2)] va parse_transfer_encoding_in [OF h(4)]
        parse_content_length_in [OF h(4)] parse_connection_header_in [OF h(4)] is_token_spec [OF h(4)]
        parse_trailer_header_in [OF h(4)] split: option.split prod.split)
qed

end

section \<open>The loop over the headers\<close>

fun run_fields :: "('f \<Rightarrow> 's \<Rightarrow> ('s, 'r) ctl) \<Rightarrow> 'f list \<Rightarrow> 's \<Rightarrow> ('s, 'r) ctl" where
  "run_fields step [] st = Continue st"
| "run_fields step (f # fs) st =
     (case step f st of Return r \<Rightarrow> Return r | Continue st' \<Rightarrow> run_fields step fs st')"

lemma for_headers_in:
  assumes hs: "headers_in mem hs n" and "i \<le> n"
    and step: "\<And>h st. hdr_in mem h \<Longrightarrow> body h st = Some (step (header_text mem h) st)"
  shows "for_headers body hs n i st = Some (run_fields step (drop i (header_fields mem hs n)) st)"
  using assms(2)
proof (induction "n - i" arbitrary: i st)
  case 0
  then show ?case by (subst for_headers.simps) (simp add: header_fields_def)
next
  case (Suc k)
  then have i: "i < n" by simp
  with hs have len: "i < length hs" by (simp add: headers_in_def)
  have "hdr_in mem (take n hs ! i)"
    using hs i len unfolding headers_in_def list_all_length by (metis length_take min_less_iff_conj)
  then have h: "hdr_in mem (hs ! i)" using i by simp
  have d: "drop i (header_fields mem hs n) = header_text mem (hs ! i) # drop (Suc i) (header_fields mem hs n)"
    using i len by (simp add: header_fields_def Cons_nth_drop_Suc [symmetric])
  have IH: "for_headers body hs n (Suc i) st' = Some (run_fields step (drop (Suc i) (header_fields mem hs n)) st')" for st'
    using Suc.hyps i by simp
  from i len h d show ?case
    by (subst for_headers.simps) (simp add: hdr_read_def step IH split: ctl.split)
qed

lemma values_of_single [simp]:
  "values_of nm [f] = (if ci_eq (fst f) (ascii nm) then [snd f] else [])"
  by (simp add: values_of_def)

lemma values_of_Nil [simp]: "values_of nm [] = []"
  by (simp add: values_of_def)

lemma values_of_append [simp]: "values_of nm (fs @ gs) = values_of nm fs @ values_of nm gs"
  by (simp add: values_of_def)

lemma lengths_agree_iff: "lengths_agree vs \<longleftrightarrow> (\<exists>n. \<forall>v\<in>set vs. content_length_ref v = Some n)"
  by (cases vs) (auto simp: lengths_agree_def)

lemmas fields_valid_iff = fields_valid_def [unfolded lengths_agree_iff]

lemma fields_valid_prefix: "fields_valid (fs @ gs) \<Longrightarrow> fields_valid fs"
  by (auto simp: fields_valid_iff)

lemma cl_value_valid:
  "fields_valid fs \<Longrightarrow> v \<in> set (values_of ''content-length'' fs) \<Longrightarrow>
     content_length_ref v = Some (cl_value fs)"
  by (force simp: fields_valid_iff cl_value_def)

lemmas summary_defs = summary_def fields_valid_iff te_chunked_def te_count_def cl_value_def
  connection_options_def

lemma values_of_other: "\<not> ci_eq (fst f) (ascii nm) \<Longrightarrow> values_of nm (fs @ [f]) = values_of nm fs"
  by simp

lemma values_of_same: "ci_eq (fst f) (ascii nm) \<Longrightarrow> values_of nm (fs @ [f]) = values_of nm fs @ [snd f]"
  by simp

text \<open>The five names are different, so a field changes one part of the summary.\<close>

lemma step_te:
  assumes "ci_eq (fst f) (ascii ''transfer-encoding'')" and "fields_valid fs"
  shows "fields_valid (fs @ [f]) \<longleftrightarrow> transfer_encoding_ref (snd f) \<noteq> None"
    and "summary (fs @ [f]) = (summary fs)\<lparr> has_te := True,
           chunked := fst (the (transfer_encoding_ref (snd f))),
           chunked_count := chunked_count (summary fs) + snd (the (transfer_encoding_ref (snd f))) \<rparr>"
proof -
  have ne: "\<not> ci_eq (fst f) (ascii ''content-length'')" "\<not> ci_eq (fst f) (ascii ''connection'')"
    "\<not> ci_eq (fst f) (ascii ''upgrade'')" "\<not> ci_eq (fst f) (ascii ''trailer'')"
    by (simp_all add: ci_eq_names [OF assms(1)])
  show "fields_valid (fs @ [f]) \<longleftrightarrow> transfer_encoding_ref (snd f) \<noteq> None"
    using assms(2) unfolding fields_valid_iff values_of_same [OF assms(1)] values_of_other [OF ne(1)]
      values_of_other [OF ne(2)] values_of_other [OF ne(3)] values_of_other [OF ne(4)]
    by (simp del: not_None_eq)
  show "summary (fs @ [f]) = (summary fs)\<lparr> has_te := True,
           chunked := fst (the (transfer_encoding_ref (snd f))),
           chunked_count := chunked_count (summary fs) + snd (the (transfer_encoding_ref (snd f))) \<rparr>"
    unfolding summary_def te_chunked_def te_count_def cl_value_def connection_options_def
      values_of_same [OF assms(1)] values_of_other [OF ne(1)] values_of_other [OF ne(2)]
      values_of_other [OF ne(3)] values_of_other [OF ne(4)]
    by simp
qed

lemma step_cl:
  assumes "ci_eq (fst f) (ascii ''content-length'')" and "fields_valid fs"
  shows "fields_valid (fs @ [f]) \<longleftrightarrow> content_length_ref (snd f) \<noteq> None \<and>
           (has_cl (summary fs) \<longrightarrow> content_length_ref (snd f) = Some (content_length (summary fs)))"
    and "summary (fs @ [f]) = (summary fs)\<lparr> has_cl := True, content_length := the (content_length_ref (snd f)) \<rparr>"
proof -
  have ne: "\<not> ci_eq (fst f) (ascii ''transfer-encoding'')" "\<not> ci_eq (fst f) (ascii ''connection'')"
    "\<not> ci_eq (fst f) (ascii ''upgrade'')" "\<not> ci_eq (fst f) (ascii ''trailer'')"
    by (simp_all add: ci_eq_names [OF assms(1)])
  let ?C = "values_of ''content-length'' fs"
  have same: "(\<exists>n. \<forall>v\<in>set (?C @ [snd f]). content_length_ref v = Some n) \<longleftrightarrow>
      content_length_ref (snd f) \<noteq> None \<and> (?C \<noteq> [] \<longrightarrow> content_length_ref (snd f) = Some (cl_value fs))"
  proof (cases "?C = []")
    case True
    then show ?thesis by simp
  next
    case False
    then have "List.last ?C \<in> set ?C" by simp
    with cl_value_valid [OF assms(2)] False show ?thesis by (auto simp del: last_in_set)
  qed
  show "fields_valid (fs @ [f]) \<longleftrightarrow> content_length_ref (snd f) \<noteq> None \<and>
           (has_cl (summary fs) \<longrightarrow> content_length_ref (snd f) = Some (content_length (summary fs)))"
    using assms(2) unfolding fields_valid_iff values_of_same [OF assms(1)] values_of_other [OF ne(1)]
      values_of_other [OF ne(2)] values_of_other [OF ne(3)] values_of_other [OF ne(4)] same
    by (simp add: summary_def del: not_None_eq)
  show "summary (fs @ [f]) = (summary fs)\<lparr> has_cl := True, content_length := the (content_length_ref (snd f)) \<rparr>"
    unfolding summary_def te_chunked_def te_count_def cl_value_def connection_options_def
      values_of_same [OF assms(1)] values_of_other [OF ne(1)] values_of_other [OF ne(2)]
      values_of_other [OF ne(3)] values_of_other [OF ne(4)]
    by simp
qed

lemma step_connection:
  assumes "ci_eq (fst f) (ascii ''connection'')" and "fields_valid fs"
  shows "fields_valid (fs @ [f]) \<longleftrightarrow> connection_ref (snd f) \<noteq> None"
    and "summary (fs @ [f]) =
           (summary fs)\<lparr> connection := or_flags (connection (summary fs)) (the (connection_ref (snd f))) \<rparr>"
proof -
  have ne: "\<not> ci_eq (fst f) (ascii ''transfer-encoding'')" "\<not> ci_eq (fst f) (ascii ''content-length'')"
    "\<not> ci_eq (fst f) (ascii ''upgrade'')" "\<not> ci_eq (fst f) (ascii ''trailer'')"
    by (simp_all add: ci_eq_names [OF assms(1)])
  show "fields_valid (fs @ [f]) \<longleftrightarrow> connection_ref (snd f) \<noteq> None"
    using assms(2) unfolding fields_valid_iff values_of_same [OF assms(1)] values_of_other [OF ne(1)]
      values_of_other [OF ne(2)] values_of_other [OF ne(3)] values_of_other [OF ne(4)]
    by (simp del: not_None_eq)
  show "summary (fs @ [f]) =
           (summary fs)\<lparr> connection := or_flags (connection (summary fs)) (the (connection_ref (snd f))) \<rparr>"
    unfolding summary_def te_chunked_def te_count_def cl_value_def connection_options_def
      values_of_same [OF assms(1)] values_of_other [OF ne(1)] values_of_other [OF ne(2)]
      values_of_other [OF ne(3)] values_of_other [OF ne(4)]
    by simp
qed

lemma step_upgrade:
  assumes "ci_eq (fst f) (ascii ''upgrade'')" and "fields_valid fs"
  shows "fields_valid (fs @ [f]) \<longleftrightarrow> list_all tchar (snd f)"
    and "summary (fs @ [f]) = (summary fs)\<lparr> has_upgrade := True \<rparr>"
proof -
  have ne: "\<not> ci_eq (fst f) (ascii ''transfer-encoding'')" "\<not> ci_eq (fst f) (ascii ''content-length'')"
    "\<not> ci_eq (fst f) (ascii ''connection'')" "\<not> ci_eq (fst f) (ascii ''trailer'')"
    by (simp_all add: ci_eq_names [OF assms(1)])
  show "fields_valid (fs @ [f]) \<longleftrightarrow> list_all tchar (snd f)"
    using assms(2) unfolding fields_valid_iff values_of_same [OF assms(1)] values_of_other [OF ne(1)]
      values_of_other [OF ne(2)] values_of_other [OF ne(3)] values_of_other [OF ne(4)]
    by (simp del: not_None_eq)
  show "summary (fs @ [f]) = (summary fs)\<lparr> has_upgrade := True \<rparr>"
    unfolding summary_def te_chunked_def te_count_def cl_value_def connection_options_def
      values_of_same [OF assms(1)] values_of_other [OF ne(1)] values_of_other [OF ne(2)]
      values_of_other [OF ne(3)] values_of_other [OF ne(4)]
    by simp
qed

lemma step_trailer:
  assumes "ci_eq (fst f) (ascii ''trailer'')" and "fields_valid fs"
  shows "fields_valid (fs @ [f]) \<longleftrightarrow> list_all token_ok (list_elements (snd f))"
    and "summary (fs @ [f]) = (summary fs)\<lparr> has_trailer := True \<rparr>"
proof -
  have ne: "\<not> ci_eq (fst f) (ascii ''transfer-encoding'')" "\<not> ci_eq (fst f) (ascii ''content-length'')"
    "\<not> ci_eq (fst f) (ascii ''connection'')" "\<not> ci_eq (fst f) (ascii ''upgrade'')"
    by (simp_all add: ci_eq_names [OF assms(1)])
  show "fields_valid (fs @ [f]) \<longleftrightarrow> list_all token_ok (list_elements (snd f))"
    using assms(2) unfolding fields_valid_iff values_of_same [OF assms(1)] values_of_other [OF ne(1)]
      values_of_other [OF ne(2)] values_of_other [OF ne(3)] values_of_other [OF ne(4)]
    by (simp del: not_None_eq)
  show "summary (fs @ [f]) = (summary fs)\<lparr> has_trailer := True \<rparr>"
    unfolding summary_def te_chunked_def te_count_def cl_value_def connection_options_def
      values_of_same [OF assms(1)] values_of_other [OF ne(1)] values_of_other [OF ne(2)]
      values_of_other [OF ne(3)] values_of_other [OF ne(4)]
    by simp
qed

lemma step_other:
  assumes "\<not> ci_eq (fst f) (ascii ''transfer-encoding'')" "\<not> ci_eq (fst f) (ascii ''content-length'')"
    "\<not> ci_eq (fst f) (ascii ''connection'')" "\<not> ci_eq (fst f) (ascii ''upgrade'')"
    "\<not> ci_eq (fst f) (ascii ''trailer'')"
  shows "fields_valid (fs @ [f]) = fields_valid fs" and "summary (fs @ [f]) = summary fs"
  unfolding fields_valid_iff summary_def te_chunked_def te_count_def cl_value_def connection_options_def
    values_of_other [OF assms(1)] values_of_other [OF assms(2)] values_of_other [OF assms(3)]
    values_of_other [OF assms(4)] values_of_other [OF assms(5)]
  by (rule refl)+

lemma common_field_step:
  assumes "fields_valid fs"
  shows "common_field f (summary fs) =
           (if fields_valid (fs @ [f]) then Some (summary (fs @ [f])) else None)"
proof -
  consider (te) "ci_eq (fst f) (ascii ''transfer-encoding'')" | (cl) "ci_eq (fst f) (ascii ''content-length'')"
    | (conn) "ci_eq (fst f) (ascii ''connection'')" | (upg) "ci_eq (fst f) (ascii ''upgrade'')"
    | (trailer) "ci_eq (fst f) (ascii ''trailer'')"
    | (other) "\<not> ci_eq (fst f) (ascii ''transfer-encoding'')" "\<not> ci_eq (fst f) (ascii ''content-length'')"
        "\<not> ci_eq (fst f) (ascii ''connection'')" "\<not> ci_eq (fst f) (ascii ''upgrade'')"
        "\<not> ci_eq (fst f) (ascii ''trailer'')"
    by blast
  then show ?thesis
  proof cases
    case te
    then show ?thesis unfolding step_te [OF te assms] common_field_def
      by (cases f; cases "transfer_encoding_ref (snd f)") (simp_all split: prod.split)
  next
    case cl
    then show ?thesis unfolding step_cl [OF cl assms] common_field_def
      by (cases f; cases "content_length_ref (snd f)") (simp_all add: ci_eq_names)
  next
    case conn
    then show ?thesis unfolding step_connection [OF conn assms] common_field_def
      by (cases f; cases "connection_ref (snd f)") (simp_all add: ci_eq_names)
  next
    case upg
    then show ?thesis unfolding step_upgrade [OF upg assms] common_field_def
      by (cases f) (simp add: ci_eq_names)
  next
    case trailer
    then show ?thesis unfolding step_trailer [OF trailer assms] common_field_def
      by (cases f) (simp add: ci_eq_names)
  next
    case other
    then show ?thesis unfolding step_other [OF other] common_field_def using assms
      by (cases f) simp
  qed
qed

section \<open>Requests\<close>

definition request_valid :: "(byte list \<times> byte list) list \<Rightarrow> bool" where
  "request_valid fs \<longleftrightarrow>
     fields_valid fs \<and> length (values_of ''host'' fs) \<le> 1 \<and> [] \<notin> set (values_of ''host'' fs) \<and>
     (\<forall>v\<in>set (values_of ''expect'' fs). expect_ref v \<noteq> None)"

definition request_summary :: "(byte list \<times> byte list) list \<Rightarrow> sem_locals" where
  "request_summary fs =
     (summary fs)\<lparr> has_host := values_of ''host'' fs \<noteq> [], has_expect := values_of ''expect'' fs \<noteq> [] \<rparr>"

definition with_expect :: "(byte list \<times> byte list) list \<Rightarrow> ihtp_request_t \<Rightarrow> ihtp_request_t" where
  "with_expect fs req =
     (if values_of ''expect'' fs = [] then req
      else req\<lparr> req_expects_continue := the (expect_ref (List.last (values_of ''expect'' fs))) \<rparr>)"

lemma request_valid_prefix: "request_valid (fs @ gs) \<Longrightarrow> request_valid fs"
  by (auto simp: request_valid_def dest: fields_valid_prefix)

lemma common_field_frame:
  "common_field f (l\<lparr> has_host := a, has_expect := b \<rparr>) =
     map_option (\<lambda>l. l\<lparr> has_host := a, has_expect := b \<rparr>) (common_field f l)"
  by (cases f; cases l) (auto simp: common_field_def map_option_case split: option.split prod.split)

lemma request_field_step:
  assumes "request_valid fs"
  shows "request_field f (request_summary fs, with_expect fs req) =
           (if request_valid (fs @ [f]) then Continue (request_summary (fs @ [f]), with_expect (fs @ [f]) req)
            else Return (IHTP_ERROR, with_expect fs req))"
proof -
  obtain n v where f: "f = (n, v)" by (cases f)
  have fv: "fields_valid fs" using assms by (simp add: request_valid_def)
  consider (host) "ci_eq n (ascii ''host'')" | (expect) "ci_eq n (ascii ''expect'')"
    | (other) "\<not> ci_eq n (ascii ''host'')" "\<not> ci_eq n (ascii ''expect'')" by blast
  then show ?thesis
  proof cases
    case host
    have "summary (fs @ [f]) = summary fs" "fields_valid (fs @ [f])"
      using step_other [of f fs] fv by (simp_all add: ci_eq_names [OF host] f)
    with host f assms show ?thesis
      by (auto simp: request_field_def request_summary_def with_expect_def request_valid_def ci_eq_names
          summary_def)
  next
    case expect
    have "summary (fs @ [f]) = summary fs" "fields_valid (fs @ [f])"
      using step_other [of f fs] fv by (simp_all add: ci_eq_names [OF expect] f)
    with expect f assms show ?thesis
      by (auto simp: request_field_def request_summary_def with_expect_def request_valid_def ci_eq_names
          summary_def split: option.split)
  next
    case other
    with f assms common_field_step [OF fv, of f] show ?thesis
      by (auto simp: request_field_def request_summary_def with_expect_def request_valid_def
          common_field_frame)
  qed
qed

lemma run_request_fields:
  assumes "request_valid pre"
  shows "(case run_fields request_field fs (request_summary pre, with_expect pre req) of
            Continue (l, req') \<Rightarrow> request_valid (pre @ fs) \<and> l = request_summary (pre @ fs) \<and>
              req' = with_expect (pre @ fs) req
          | Return (st, req') \<Rightarrow> \<not> request_valid (pre @ fs) \<and> st = IHTP_ERROR)"
  using assms
proof (induction fs arbitrary: pre)
  case Nil
  then show ?case by simp
next
  case (Cons f fs)
  show ?case
  proof (cases "request_valid (pre @ [f])")
    case True
    have app: "pre @ f # fs = (pre @ [f]) @ fs" by simp
    show ?thesis
      unfolding app using Cons.IH [OF True] True
      by (simp only: request_field_step [OF Cons.prems] run_fields.simps if_True ctl.case)
  next
    case False
    then have "\<not> request_valid (pre @ f # fs)" using request_valid_prefix [of "pre @ [f]" fs] by auto
    with False Cons.prems show ?thesis by (simp add: request_field_step)
  qed
qed

text \<open>Which requests are accepted, and what is decided about them.\<close>

definition request_accepted ::
    "ihtp_policy_t \<Rightarrow> ihtp_http_version_t \<Rightarrow> (byte list \<times> byte list) list \<Rightarrow> bool" where
  "request_accepted policy version fs \<longleftrightarrow>
     request_valid fs \<and>
     \<not> (reject_te_cl policy \<and> values_of ''transfer-encoding'' fs \<noteq> [] \<and> values_of ''content-length'' fs \<noteq> []) \<and>
     (version = IHTP_HTTP_11 \<longrightarrow> values_of ''host'' fs \<noteq> []) \<and>
     te_count fs \<le> 1 \<and>
     (values_of ''transfer-encoding'' fs \<noteq> [] \<longrightarrow> te_chunked fs) \<and>
     (values_of ''trailer'' fs \<noteq> [] \<longrightarrow> values_of ''transfer-encoding'' fs \<noteq> [])"

definition keeps_alive :: "connection_flags \<Rightarrow> bool \<Rightarrow> bool" where
  "keeps_alive = (\<lambda>(close, keep_alive, upgrade) default. if close then False else if keep_alive then True else default)"

definition request_decision ::
    "(byte list \<times> byte list) list \<Rightarrow> ihtp_request_t \<Rightarrow> ihtp_request_t" where
  "request_decision fs req =
     req\<lparr> req_body_mode :=
            (if values_of ''transfer-encoding'' fs \<noteq> [] then IHTP_BODY_CHUNKED
             else if values_of ''content-length'' fs \<noteq> [] then IHTP_BODY_FIXED else IHTP_BODY_NONE),
          req_content_length :=
            (if values_of ''transfer-encoding'' fs = [] \<and> values_of ''content-length'' fs \<noteq> []
             then cl_value fs else req_content_length req),
          req_keep_alive := keeps_alive (connection_options fs) (req_version req = IHTP_HTTP_11),
          req_protocol_upgrade := (values_of ''upgrade'' fs \<noteq> [] \<and> snd (snd (connection_options fs))),
          req_expects_continue :=
            (values_of ''expect'' fs \<noteq> [] \<and> the (expect_ref (List.last (values_of ''expect'' fs)))),
          req_has_trailer_fields := values_of ''trailer'' fs \<noteq> [] \<rparr>"

lemma te_chunked_te: "te_chunked fs \<Longrightarrow> values_of ''transfer-encoding'' fs \<noteq> []"
  by (simp add: te_chunked_def)

lemma with_expect_simps [simp]:
  "req_version (with_expect fs req) = req_version req"
  by (simp add: with_expect_def)

lemma request_finish_in:
  assumes "request_valid fs"
  shows "\<exists>req'. request_finish policy (request_summary fs) (with_expect fs req) =
           (if request_accepted policy (req_version req) fs then IHTP_OK else IHTP_ERROR, req') \<and>
         (request_accepted policy (req_version req) fs \<longrightarrow> req' = request_decision fs req)"
proof -
  obtain close ka upg where c: "connection_options fs = (close, ka, upg)" by (cases "connection_options fs")
  have s: "request_summary fs = \<lparr> has_te = values_of ''transfer-encoding'' fs \<noteq> [],
     has_cl = values_of ''content-length'' fs \<noteq> [], chunked = te_chunked fs,
     has_host = values_of ''host'' fs \<noteq> [],
     has_upgrade = values_of ''upgrade'' fs \<noteq> [], has_expect = values_of ''expect'' fs \<noteq> [],
     has_trailer = values_of ''trailer'' fs \<noteq> [], connection = (close, ka, upg),
     chunked_count = te_count fs, content_length = cl_value fs \<rparr>"
    by (simp add: request_summary_def summary_def c)
  show ?thesis
  proof (cases "reject_te_cl policy \<and> values_of ''transfer-encoding'' fs \<noteq> [] \<and> values_of ''content-length'' fs \<noteq> []
      \<or> req_version req = IHTP_HTTP_11 \<and> values_of ''host'' fs = [] \<or> te_count fs > 1
      \<or> values_of ''transfer-encoding'' fs \<noteq> [] \<and> \<not> te_chunked fs")
    case True
    then show ?thesis unfolding s request_finish_def request_accepted_def by auto
  next
    case False
    then have acc: "request_accepted policy (req_version req) fs \<longleftrightarrow>
        (values_of ''trailer'' fs \<noteq> [] \<longrightarrow> values_of ''transfer-encoding'' fs \<noteq> [])"
      using assms by (auto simp: request_accepted_def)
    define T where "T = values_of ''transfer-encoding'' fs"
    define C where "C = values_of ''content-length'' fs"
    define E where "E = values_of ''expect'' fs"
    define R where "R = values_of ''trailer'' fs"
    have chunked: "te_chunked fs \<longleftrightarrow> T \<noteq> []" using False te_chunked_te [of fs] by (auto simp: T_def)
    show ?thesis
      unfolding acc request_decision_def c s request_finish_def with_expect_def keeps_alive_def chunked
        T_def [symmetric] C_def [symmetric] E_def [symmetric] R_def [symmetric]
      using False [folded T_def C_def]
      by (cases T; cases C; cases E; cases R; cases close; cases ka;
          cases "req_version req = IHTP_HTTP_11"; simp add: Let_def)
  qed
qed

context token_scanner
begin

lemma request_semantics:
  fixes policy :: "ihtp_policy_t option"
  assumes "headers_in mem (req_headers req) (req_num_headers req)"
  defines "fs \<equiv> header_fields mem (req_headers req) (req_num_headers req)"
  defines "pol \<equiv> policy_or_strict policy"
  shows "\<exists>req'. ihtp_request_apply_semantics is_token mem (Some req) policy =
           Some (if request_accepted pol (req_version req) fs then IHTP_OK else IHTP_ERROR, Some req') \<and>
         (request_accepted pol (req_version req) fs \<longrightarrow> req' = request_decision fs req)"
proof -
  have v: "request_valid []" by (simp add: request_valid_def fields_valid_iff)
  have st: "(sem_start, req) = (request_summary [], with_expect [] req)"
    by (simp add: sem_start_def request_summary_def summary_def with_expect_def te_chunked_def te_count_def
        cl_value_def connection_options_def)
  have loop: "for_headers (request_header is_token mem) (req_headers req) (req_num_headers req) 0 (sem_start, req) =
      Some (run_fields request_field fs (sem_start, req))"
    using for_headers_in [OF assms(1), of 0 "request_header is_token mem" request_field] request_header_in
    by (simp add: fs_def)
  note run = run_request_fields [OF v, of fs req, folded st, simplified]
  show ?thesis
  proof (cases "run_fields request_field fs (sem_start, req)")
    case (Return r)
    with run have "\<not> request_valid fs" "fst r = IHTP_ERROR" by (auto split: prod.splits)
    with Return loop show ?thesis
      by (cases r) (simp add: ihtp_request_apply_semantics_def request_accepted_def)
  next
    case (Continue s)
    with run have "request_valid fs" "s = (request_summary fs, with_expect fs req)"
      by (auto split: prod.splits)
    with Continue loop request_finish_in [of fs pol req] show ?thesis
      by (auto simp: ihtp_request_apply_semantics_def pol_def Let_def)
  qed
qed

end

section \<open>Responses\<close>

lemma run_response_fields:
  assumes "fields_valid pre"
  shows "run_fields (\<lambda>f l. case common_field f l of None \<Rightarrow> Return IHTP_ERROR | Some l' \<Rightarrow> Continue l')
           fs (summary pre) =
         (if fields_valid (pre @ fs) then Continue (summary (pre @ fs)) else Return IHTP_ERROR)"
  using assms
proof (induction fs arbitrary: pre)
  case Nil
  then show ?case by simp
next
  case (Cons f fs)
  have app: "pre @ f # fs = (pre @ [f]) @ fs" by simp
  show ?case
  proof (cases "fields_valid (pre @ [f])")
    case True
    show ?thesis unfolding app using Cons.IH [OF True] True Cons.prems
      by (simp only: run_fields.simps common_field_step [OF Cons.prems] if_True option.case ctl.case)
  next
    case False
    then have "\<not> fields_valid (pre @ f # fs)" unfolding app using fields_valid_prefix by blast
    with False show ?thesis by (simp only: run_fields.simps common_field_step [OF Cons.prems] if_False option.case ctl.case)
  qed
qed

definition no_body_status :: "int \<Rightarrow> bool" where
  "no_body_status code \<longleftrightarrow> 100 \<le> code \<and> code < 200 \<or> code = 204 \<or> code = 304"

definition response_mode :: "int \<Rightarrow> (byte list \<times> byte list) list \<Rightarrow> ihtp_body_mode_t" where
  "response_mode code fs =
     (if no_body_status code then IHTP_BODY_NONE
      else if te_chunked fs then IHTP_BODY_CHUNKED
      else if values_of ''content-length'' fs \<noteq> [] then IHTP_BODY_FIXED
      else IHTP_BODY_EOF)"

definition response_accepted ::
    "ihtp_policy_t \<Rightarrow> int \<Rightarrow> (byte list \<times> byte list) list \<Rightarrow> bool" where
  "response_accepted policy code fs \<longleftrightarrow>
     fields_valid fs \<and>
     \<not> (reject_te_cl policy \<and> values_of ''transfer-encoding'' fs \<noteq> [] \<and> values_of ''content-length'' fs \<noteq> []) \<and>
     te_count fs \<le> 1 \<and>
     (values_of ''trailer'' fs \<noteq> [] \<longrightarrow> response_mode code fs = IHTP_BODY_CHUNKED)"

definition switches_protocol :: "int \<Rightarrow> (byte list \<times> byte list) list \<Rightarrow> bool" where
  "switches_protocol code fs \<longleftrightarrow>
     code = 101 \<and> values_of ''upgrade'' fs \<noteq> [] \<and> snd (snd (connection_options fs)) \<and>
     \<not> fst (connection_options fs)"

definition response_decision ::
    "(byte list \<times> byte list) list \<Rightarrow> ihtp_response_t \<Rightarrow> ihtp_response_t" where
  "response_decision fs resp =
     (let mode = response_mode (resp_status_code resp) fs;
          switch = switches_protocol (resp_status_code resp) fs
      in resp\<lparr> resp_body_mode := mode,
          resp_content_length :=
            (if mode = IHTP_BODY_FIXED then cl_value fs else resp_content_length resp),
          resp_keep_alive :=
            (if switch then False
             else keeps_alive (connection_options fs)
               (if resp_version resp = IHTP_HTTP_11 \<and> mode \<noteq> IHTP_BODY_EOF then True
                else resp_keep_alive resp)),
          resp_protocol_upgrade := switch,
          resp_has_trailer_fields := values_of ''trailer'' fs \<noteq> [] \<rparr>)"

lemma response_finish_in:
  assumes "fields_valid fs"
  shows "\<exists>resp'. response_finish policy (summary fs) resp =
           (if response_accepted policy (resp_status_code resp) fs then IHTP_OK else IHTP_ERROR, resp') \<and>
         (response_accepted policy (resp_status_code resp) fs \<longrightarrow> resp' = response_decision fs resp)"
proof -
  obtain close ka upg where c: "connection_options fs = (close, ka, upg)" by (cases "connection_options fs")
  define T where "T = values_of ''transfer-encoding'' fs"
  define C where "C = values_of ''content-length'' fs"
  define R where "R = values_of ''trailer'' fs"
  define B where "B = no_body_status (resp_status_code resp)"
  have nb: "100 \<le> resp_status_code resp \<and> resp_status_code resp < 200 \<or>
      resp_status_code resp = 204 \<or> resp_status_code resp = 304 \<longleftrightarrow> B"
    by (simp add: B_def no_body_status_def)
  have B: "resp_status_code resp = 101 \<longrightarrow> B" by (simp add: B_def no_body_status_def)
  have ch: "te_chunked fs \<Longrightarrow> T \<noteq> []" using te_chunked_te [of fs] by (simp add: T_def)
  note folds = T_def [symmetric] C_def [symmetric] R_def [symmetric] B_def [symmetric] nb
  show ?thesis
  proof (cases "reject_te_cl policy \<and> T \<noteq> [] \<and> C \<noteq> [] \<or> te_count fs > 1")
    case True
    then show ?thesis
      unfolding response_accepted_def summary_def response_finish_def folds
      by (cases T; cases C; cases "reject_te_cl policy"; simp)
  next
    case False
    then have acc: "response_accepted policy (resp_status_code resp) fs \<longleftrightarrow>
        (R \<noteq> [] \<longrightarrow> response_mode (resp_status_code resp) fs = IHTP_BODY_CHUNKED)"
      using assms by (auto simp: response_accepted_def T_def C_def R_def)
    have neg: "(has_te (summary fs) \<and> has_cl (summary fs) \<and> reject_te_cl policy) = False"
      "(chunked_count (summary fs) > 1) = False"
      using False by (auto simp: summary_def T_def C_def)
    have te: "(has_te (summary fs) \<and> chunked (summary fs)) = te_chunked fs"
      using te_chunked_te [of fs] by (auto simp: summary_def)
    show ?thesis
      unfolding acc response_finish_def neg te if_False
      unfolding response_decision_def switches_protocol_def keeps_alive_def response_mode_def c summary_def folds
      using B
      by (cases B; cases "te_chunked fs"; cases C; cases R; cases close; cases ka;
          cases "resp_version resp = IHTP_HTTP_11"; simp add: Let_def c nb)
  qed
qed

context token_scanner
begin

lemma response_semantics:
  fixes policy :: "ihtp_policy_t option"
  assumes "headers_in mem (resp_headers resp) (resp_num_headers resp)"
  defines "fs \<equiv> header_fields mem (resp_headers resp) (resp_num_headers resp)"
  defines "pol \<equiv> policy_or_strict policy"
  shows "\<exists>resp'. ihtp_response_apply_semantics is_token mem (Some resp) policy =
           Some (if response_accepted pol (resp_status_code resp) fs then IHTP_OK else IHTP_ERROR, Some resp') \<and>
         (response_accepted pol (resp_status_code resp) fs \<longrightarrow> resp' = response_decision fs resp)"
proof -
  have v: "fields_valid []" by (simp add: fields_valid_iff)
  have st: "sem_start = summary []" by (simp add: sem_start_def summary_defs)
  have "for_headers (response_header is_token mem) (resp_headers resp) (resp_num_headers resp) 0 sem_start =
      Some (if fields_valid fs then Continue (summary fs) else Return IHTP_ERROR)"
    using for_headers_in [OF assms(1), of 0 "response_header is_token mem", OF _ response_header_in]
      run_response_fields [OF v, of fs]
    by (simp add: fs_def st)
  with response_finish_in [of fs pol resp] show ?thesis
    by (cases "fields_valid fs")
      (auto simp: ihtp_response_apply_semantics_def response_accepted_def pol_def Let_def)
qed

end

section \<open>The codings of a message\<close>

definition codings :: "(byte list \<times> byte list) list \<Rightarrow> byte list list" where
  "codings fs = concat (map list_elements (values_of ''transfer-encoding'' fs))"

lemma codings_Nil_iff: "codings fs = [] \<longleftrightarrow> values_of ''transfer-encoding'' fs = []"
  by (cases "values_of ''transfer-encoding'' fs") (simp_all add: codings_def)

lemma te_ref_valid:
  "transfer_encoding_ref v \<noteq> None \<Longrightarrow>
     transfer_encoding_ref v =
       Some (is_chunked (List.last (list_elements v)), length (filter is_chunked (list_elements v)))"
  by (auto simp: transfer_encoding_ref_def split: if_splits)

lemma te_count_codings:
  assumes "fields_valid fs"
  shows "te_count fs = length (filter is_chunked (codings fs))"
proof -
  have "sum_list (map (\<lambda>v. snd (the (transfer_encoding_ref v))) vs) =
      length (filter is_chunked (concat (map list_elements vs)))"
    if "\<forall>v\<in>set vs. transfer_encoding_ref v \<noteq> None" for vs
    using that by (induction vs) (simp_all add: te_ref_valid del: not_None_eq)
  with assms show ?thesis by (simp add: te_count_def codings_def fields_valid_iff del: not_None_eq)
qed

lemma te_chunked_codings:
  assumes "fields_valid fs"
  shows "te_chunked fs \<longleftrightarrow> codings fs \<noteq> [] \<and> is_chunked (List.last (codings fs))"
proof (cases "values_of ''transfer-encoding'' fs" rule: rev_cases)
  case Nil
  then show ?thesis by (simp add: te_chunked_def codings_def)
next
  case (snoc vs v)
  then have "transfer_encoding_ref v \<noteq> None"
    using assms by (simp add: fields_valid_iff del: not_None_eq)
  then show ?thesis using te_ref_valid [of v] by (simp add: te_chunked_def codings_def snoc)
qed

text \<open>The chunked coding is applied once, last.\<close>

definition chunked_last :: "byte list list \<Rightarrow> bool" where
  "chunked_last cs \<longleftrightarrow> (\<exists>ds d. cs = ds @ [d] \<and> is_chunked d \<and> (\<forall>x\<in>set ds. \<not> is_chunked x))"

lemma chunked_last_iff:
  assumes "fields_valid fs" and "te_count fs \<le> 1"
  shows "te_chunked fs \<longleftrightarrow> chunked_last (codings fs)"
  using assms
  by (cases "codings fs" rule: rev_cases)
    (auto simp: te_chunked_codings te_count_codings chunked_last_def filter_empty_conv)

section \<open>From the parser to the semantics layer\<close>

lemma headers_in_ok: "headers_ok lo hi mx hs c \<Longrightarrow> hi \<le> length mem \<Longrightarrow> headers_in mem hs c"
  by (fastforce simp: headers_ok_def headers_in_def hdr_within_def hdr_in_def list_all_length)

lemma block_headers_in:
  assumes "parse_header_block mem p n no_headers 0 0 IHTP_MAX_HEADERS policy = Some (IHTP_OK, hs, c, e)"
    and "p + n \<le> length mem"
  shows "headers_in mem hs c"
  using parse_header_block_safe [of p n mem p IHTP_MAX_HEADERS no_headers 0 0 policy] assms
  by (auto simp: block_result_ok_def intro!: headers_in_ok [of p "p + e" IHTP_MAX_HEADERS])

lemma parsed_request_headers:
  assumes "ihtp_parse_request undef mem (Some p) n (Some r) policy (Some b) = Some (IHTP_OK, Some req, Some k)"
    and "p + n \<le> length mem"
  shows "headers_in mem (req_headers req) (req_num_headers req)"
proof -
  from assms obtain st where
    "request_stateful mem p n policy (fresh_state IHTP_PARSER_MODE_REQUEST) zero_request = Some (IHTP_OK, st, req, k)"
    by (cases "request_stateful mem p n policy (fresh_state IHTP_PARSER_MODE_REQUEST) zero_request")
      (auto simp: parse_request_nonnull)
  with request_fresh_OK_iff [OF assms(2), of zero_request policy] obtain r1 e hs c j where
    l: "parse_request_line mem p n zero_request (resolve_policy policy) = Some (IHTP_OK, r1, e)"
    and b: "parse_header_block mem (p + e) (n - e) no_headers 0 0 IHTP_MAX_HEADERS (resolve_policy policy) =
        Some (IHTP_OK, hs, c, j)" and "req = r1\<lparr> req_headers := hs, req_num_headers := c \<rparr>"
    by fastforce
  moreover have "e \<le> n" using l request_line_OK_iff [OF assms(2)] assms(2)
    by (auto dest: arg_cong [where f = length])
  ultimately show ?thesis using block_headers_in [OF b] assms(2) by simp
qed

lemma parsed_response_headers:
  assumes "ihtp_parse_response undef mem (Some p) n (Some r) policy (Some b) = Some (IHTP_OK, Some resp, Some k)"
    and "p + n \<le> length mem"
  shows "headers_in mem (resp_headers resp) (resp_num_headers resp)"
proof -
  from assms obtain st where
    "response_stateful mem p n policy (fresh_state IHTP_PARSER_MODE_RESPONSE) zero_response = Some (IHTP_OK, st, resp, k)"
    by (cases "response_stateful mem p n policy (fresh_state IHTP_PARSER_MODE_RESPONSE) zero_response")
      (auto simp: parse_response_nonnull)
  with response_fresh_OK_iff [OF assms(2), of zero_response policy] obtain r1 e hs c j where
    l: "parse_status_line mem p n zero_response (resolve_policy policy) = Some (IHTP_OK, r1, e)"
    and b: "parse_header_block mem (p + e) (n - e) no_headers 0 0 IHTP_MAX_HEADERS (resolve_policy policy) =
        Some (IHTP_OK, hs, c, j)" and "resp = r1\<lparr> resp_headers := hs, resp_num_headers := c \<rparr>"
    by fastforce
  moreover have "e \<le> n" using l status_line_OK_iff [OF assms(2)] assms(2)
    by (auto dest: arg_cong [where f = length])
  ultimately show ?thesis using block_headers_in [OF b] assms(2) by simp
qed

lemma printed_fields:
  "reads_back mem req m t v fs \<Longrightarrow> header_fields mem (req_headers req) (req_num_headers req) = fs"
  unfolding reads_back_def header_fields_def by blast

text \<open>Every dispatch table the library can select provides the token test the layer relies on.\<close>

lemma dispatched_token_scanner:
  "cmpestri_documented cmpestri \<Longrightarrow> token_scanner (vt_is_token (ihtp_scanner_select_vtable flags cmpestri level))"
  by (rule scanner_backend.axioms(1) [OF select_vtable_backend])

context token_scanner
begin

lemma request_semantics_run:
  assumes "headers_in mem (req_headers req) (req_num_headers req)"
  shows "ihtp_request_apply_semantics is_token mem (Some req) policy =
    Some (case run_fields request_field (header_fields mem (req_headers req) (req_num_headers req)) (sem_start, req) of
            Return (status, req) \<Rightarrow> (status, Some req)
          | Continue (l, req) \<Rightarrow> let (status, req) = request_finish (policy_or_strict policy) l req in (status, Some req))"
  using for_headers_in [OF assms(1), of 0 "request_header is_token mem" request_field, OF _ request_header_in]
  by (simp add: ihtp_request_apply_semantics_def split: ctl.split prod.split)

lemma response_semantics_run:
  assumes "headers_in mem (resp_headers resp) (resp_num_headers resp)"
  shows "ihtp_response_apply_semantics is_token mem (Some resp) policy =
    Some (case run_fields (\<lambda>f l. case common_field f l of None \<Rightarrow> Return IHTP_ERROR | Some l' \<Rightarrow> Continue l')
                 (header_fields mem (resp_headers resp) (resp_num_headers resp)) sem_start of
            Return status \<Rightarrow> (status, Some resp)
          | Continue l \<Rightarrow> let (status, resp) = response_finish (policy_or_strict policy) l resp in (status, Some resp))"
  using for_headers_in [OF assms(1), of 0 "response_header is_token mem", OF _ response_header_in]
  by (simp add: ihtp_response_apply_semantics_def split: ctl.split prod.split)

end

text \<open>A printed request: parsed, and decided by the fields that were printed.\<close>

lemma printed_request_decided:
  fixes v :: ihtp_http_version_t
  assumes "cmpestri_documented cmpestri" and "request_parts_ok (resolve_policy policy) m t fs"
  shows "\<exists>req req'. ihtp_parse_request undef (render_request m t v fs @ rest) (Some 0)
               (length (render_request m t v fs @ rest)) (Some r) policy (Some b) =
             Some (IHTP_OK, Some req, Some (length (render_request m t v fs))) \<and>
           ihtp_request_apply_semantics (vt_is_token (ihtp_scanner_select_vtable flags cmpestri level))
             (render_request m t v fs @ rest) (Some req) policy =
               Some (if request_accepted (policy_or_strict policy) v fs then IHTP_OK else IHTP_ERROR, Some req') \<and>
           (request_accepted (policy_or_strict policy) v fs \<longrightarrow> req' = request_decision fs req)"
proof -
  let ?req = "printed_request 0 m t v fs"
  have ok: "ihtp_parse_request undef (render_request m t v fs @ rest) (Some 0)
      (length (render_request m t v fs @ rest)) (Some r) policy (Some b) =
      Some (IHTP_OK, Some ?req, Some (length (render_request m t v fs)))"
    using printed_request_message [OF assms(2), of 0 v rest] by (simp add: request_grammar)
  have rb: "reads_back (render_request m t v fs @ rest) ?req m t v fs"
    using printed_request_reads_back [OF assms(2), of v rest] .
  then have "req_version ?req = v" by (simp add: reads_back_def)
  with token_scanner.request_semantics [OF dispatched_token_scanner [OF assms(1)]
      parsed_request_headers [OF ok], of flags level policy] printed_fields [OF rb] ok
  show ?thesis by auto
qed

end
