(* ===== verification/Ihtp_Body.thy ===== *)
theory Ihtp_Body
  imports Ihtp_Types
begin

text \<open>
  The body decoders of src/ihtp_body_decoder.c.  The chunked decoder rewrites the caller's buffer
  in place: the loop keeps a read position \<open>src\<close> and a write position \<open>dst\<close>, and one pass of its
  switch is a definition per case.  Its state is a \<open>char\<close> that the caller could set to anything;
  on a value without a case the C loop never ends, so the loop is a partial function and \<open>None\<close>
  also stands for not returning.  The decoder is refined to an automaton that reads one byte at a
  time and emits payload bytes.
\<close>

section \<open>Decoder objects\<close>

definition CHUNK_SIZE :: int where "CHUNK_SIZE = 0"
definition CHUNK_EXT :: int where "CHUNK_EXT = 1"
definition CHUNK_SIZE_LF :: int where "CHUNK_SIZE_LF = 2"
definition CHUNK_DATA :: int where "CHUNK_DATA = 3"
definition CHUNK_DATA_CR :: int where "CHUNK_DATA_CR = 4"
definition CHUNK_DATA_LF :: int where "CHUNK_DATA_LF = 5"
definition CHUNK_TRAILER :: int where "CHUNK_TRAILER = 6"
definition CHUNK_DONE :: int where "CHUNK_DONE = 7"

definition TRAILER_LINE_START :: int where "TRAILER_LINE_START = 0"
definition TRAILER_DONE_LF :: int where "TRAILER_DONE_LF = 1"
definition TRAILER_LINE :: int where "TRAILER_LINE = 2"
definition TRAILER_LINE_LF :: int where "TRAILER_LINE_LF = 3"

lemmas chunk_states = CHUNK_SIZE_def CHUNK_EXT_def CHUNK_SIZE_LF_def CHUNK_DATA_def CHUNK_DATA_CR_def
  CHUNK_DATA_LF_def CHUNK_TRAILER_def CHUNK_DONE_def TRAILER_LINE_START_def TRAILER_DONE_LF_def
  TRAILER_LINE_def TRAILER_LINE_LF_def

record ihtp_chunked_decoder_t =
  bytes_left_in_chunk :: "64 word"
  chunk_total_decoded :: "64 word"
  hex_count :: int
  chunk_state :: int
  consume_trailer :: bool

record ihtp_fixed_decoder_t =
  remaining :: "64 word"
  fixed_total_decoded :: "64 word"

section \<open>The chunked decoder\<close>

definition ihtp_hex_digit_to_u64 :: "byte \<Rightarrow> 64 word" where
  "ihtp_hex_digit_to_u64 c =
     (if 0x30 \<le> c \<and> c \<le> 0x39 then ucast c - 0x30
      else if 0x61 \<le> c \<and> c \<le> 0x66 then (ucast c - 0x61) + 10
      else (ucast c - 0x41) + 10)"

text \<open>\<open>(ihtp_status_t) n\<close> for a \<open>size_t\<close>: the low 32 bits, read as an \<open>int\<close>.\<close>

definition size_as_status :: "nat \<Rightarrow> int" where
  "size_as_status n = sint (word_of_nat n :: 32 word)"

text \<open>
  The loop state \<open>(decoder, mem, src, dst)\<close>, and a result: the returned value, the decoder, the
  memory and \<open>*bufsz\<close>.  An error leaves \<open>*bufsz\<close> as it was.
\<close>

type_synonym chunk_pos = "ihtp_chunked_decoder_t \<times> mem \<times> nat \<times> nat"
type_synonym chunk_result = "int \<times> ihtp_chunked_decoder_t \<times> mem \<times> nat"

definition chunk_error :: "nat \<Rightarrow> chunk_pos \<Rightarrow> (chunk_pos, chunk_result) ctl ub" where
  "chunk_error avail = (\<lambda>(d, mem, src, dst). Some (Return (status_code IHTP_ERROR, d, mem, avail)))"

definition chunk_finish :: "nat \<Rightarrow> nat \<Rightarrow> chunk_pos \<Rightarrow> (chunk_pos, chunk_result) ctl ub" where
  "chunk_finish buf avail = (\<lambda>(d, mem, src, dst).
     do { mem \<leftarrow> (if src < avail then c_memmove mem (buf + dst) (buf + src) (avail - src) else Some mem);
          Some (Return (size_as_status (avail - src), d, mem, dst)) })"

definition chunk_size_case :: "nat \<Rightarrow> nat \<Rightarrow> chunk_pos \<Rightarrow> (chunk_pos, chunk_result) ctl ub" where
  "chunk_size_case buf avail = (\<lambda>(d, mem, src, dst).
     do { c \<leftarrow> rd mem (buf + src);
          if (0x30 \<le> c \<and> c \<le> 0x39) \<or> (0x61 \<le> c \<and> c \<le> 0x66) \<or> (0x41 \<le> c \<and> c \<le> 0x46) then
            (let digit = ihtp_hex_digit_to_u64 c
             in if hex_count d \<ge> 16 then chunk_error avail (d, mem, src, dst)
                else Some (Continue
                  (d\<lparr> bytes_left_in_chunk := bytes_left_in_chunk d * 16 + digit,
                      hex_count := hex_count d + 1 \<rparr>, mem, Suc src, dst)))
          else if c = SEMI then Some (Continue (d\<lparr> chunk_state := CHUNK_EXT \<rparr>, mem, Suc src, dst))
          else if c = CR then
            (if hex_count d = 0 then chunk_error avail (d, mem, src, dst)
             else Some (Continue (d\<lparr> chunk_state := CHUNK_SIZE_LF \<rparr>, mem, Suc src, dst)))
          else chunk_error avail (d, mem, src, dst) })"

definition chunk_ext_case :: "nat \<Rightarrow> nat \<Rightarrow> chunk_pos \<Rightarrow> (chunk_pos, chunk_result) ctl ub" where
  "chunk_ext_case buf avail = (\<lambda>(d, mem, src, dst).
     do { c \<leftarrow> rd mem (buf + src);
          if c = CR then Some (Continue (d\<lparr> chunk_state := CHUNK_SIZE_LF \<rparr>, mem, Suc src, dst))
          else if c = LF then chunk_error avail (d, mem, src, dst)
          else Some (Continue (d, mem, Suc src, dst)) })"

definition chunk_size_lf_case :: "nat \<Rightarrow> nat \<Rightarrow> chunk_pos \<Rightarrow> (chunk_pos, chunk_result) ctl ub" where
  "chunk_size_lf_case buf avail = (\<lambda>(d, mem, src, dst).
     do { c \<leftarrow> rd mem (buf + src);
          if c \<noteq> LF then chunk_error avail (d, mem, src, dst)
          else if bytes_left_in_chunk d = 0 then
            (if consume_trailer d then
               Some (Continue (d\<lparr> hex_count := TRAILER_LINE_START, chunk_state := CHUNK_TRAILER \<rparr>,
                               mem, Suc src, dst))
             else chunk_finish buf avail (d\<lparr> chunk_state := CHUNK_DONE \<rparr>, mem, Suc src, dst))
          else Some (Continue (d\<lparr> chunk_state := CHUNK_DATA \<rparr>, mem, Suc src, dst)) })"

definition chunk_data_case :: "nat \<Rightarrow> nat \<Rightarrow> chunk_pos \<Rightarrow> (chunk_pos, chunk_result) ctl ub" where
  "chunk_data_case buf avail = (\<lambda>(d, mem, src, dst).
     let to_copy = avail - src;
         to_copy = (if to_copy > unat (bytes_left_in_chunk d) then unat (bytes_left_in_chunk d) else to_copy)
     in do { mem \<leftarrow> c_memmove mem (buf + dst) (buf + src) to_copy;
             let d = d\<lparr> bytes_left_in_chunk := bytes_left_in_chunk d - word_of_nat to_copy,
                        chunk_total_decoded := chunk_total_decoded d + word_of_nat to_copy \<rparr>;
             let d = (if bytes_left_in_chunk d = 0 then d\<lparr> chunk_state := CHUNK_DATA_CR \<rparr> else d);
             Some (Continue (d, mem, src + to_copy, dst + to_copy)) })"

definition chunk_data_cr_case :: "nat \<Rightarrow> nat \<Rightarrow> chunk_pos \<Rightarrow> (chunk_pos, chunk_result) ctl ub" where
  "chunk_data_cr_case buf avail = (\<lambda>(d, mem, src, dst).
     do { c \<leftarrow> rd mem (buf + src);
          if c \<noteq> CR then chunk_error avail (d, mem, src, dst)
          else Some (Continue (d\<lparr> chunk_state := CHUNK_DATA_LF \<rparr>, mem, Suc src, dst)) })"

definition chunk_data_lf_case :: "nat \<Rightarrow> nat \<Rightarrow> chunk_pos \<Rightarrow> (chunk_pos, chunk_result) ctl ub" where
  "chunk_data_lf_case buf avail = (\<lambda>(d, mem, src, dst).
     do { c \<leftarrow> rd mem (buf + src);
          if c \<noteq> LF then chunk_error avail (d, mem, src, dst)
          else Some (Continue (d\<lparr> hex_count := 0, bytes_left_in_chunk := 0, chunk_state := CHUNK_SIZE \<rparr>,
                               mem, Suc src, dst)) })"

definition chunk_trailer_case :: "nat \<Rightarrow> nat \<Rightarrow> chunk_pos \<Rightarrow> (chunk_pos, chunk_result) ctl ub" where
  "chunk_trailer_case buf avail = (\<lambda>(d, mem, src, dst).
     if hex_count d = TRAILER_LINE_START then
       do { c \<leftarrow> rd mem (buf + src);
            if c = CR then Some (Continue (d\<lparr> hex_count := TRAILER_DONE_LF \<rparr>, mem, Suc src, dst))
            else if c = LF then chunk_error avail (d, mem, src, dst)
            else Some (Continue (d\<lparr> hex_count := TRAILER_LINE \<rparr>, mem, Suc src, dst)) }
     else if hex_count d = TRAILER_DONE_LF then
       do { c \<leftarrow> rd mem (buf + src);
            if c \<noteq> LF then chunk_error avail (d, mem, src, dst)
            else chunk_finish buf avail (d\<lparr> chunk_state := CHUNK_DONE \<rparr>, mem, Suc src, dst) }
     else if hex_count d = TRAILER_LINE then
       do { c \<leftarrow> rd mem (buf + src);
            if c = CR then Some (Continue (d\<lparr> hex_count := TRAILER_LINE_LF \<rparr>, mem, Suc src, dst))
            else if c = LF then chunk_error avail (d, mem, src, dst)
            else Some (Continue (d, mem, Suc src, dst)) }
     else if hex_count d = TRAILER_LINE_LF then
       do { c \<leftarrow> rd mem (buf + src);
            if c \<noteq> LF then chunk_error avail (d, mem, src, dst)
            else Some (Continue (d\<lparr> hex_count := TRAILER_LINE_START \<rparr>, mem, Suc src, dst)) }
     else chunk_error avail (d, mem, src, dst))"

text \<open>The switch; a state without a case goes round the loop unchanged.\<close>

definition chunk_step :: "nat \<Rightarrow> nat \<Rightarrow> chunk_pos \<Rightarrow> (chunk_pos, chunk_result) ctl ub" where
  "chunk_step buf avail pos =
     (let s = chunk_state (fst pos) in
      if s = CHUNK_SIZE then chunk_size_case buf avail pos
      else if s = CHUNK_EXT then chunk_ext_case buf avail pos
      else if s = CHUNK_SIZE_LF then chunk_size_lf_case buf avail pos
      else if s = CHUNK_DATA then chunk_data_case buf avail pos
      else if s = CHUNK_DATA_CR then chunk_data_cr_case buf avail pos
      else if s = CHUNK_DATA_LF then chunk_data_lf_case buf avail pos
      else if s = CHUNK_TRAILER then chunk_trailer_case buf avail pos
      else if s = CHUNK_DONE then chunk_finish buf avail pos
      else Some (Continue pos))"

partial_function (option) chunk_loop :: "nat \<Rightarrow> nat \<Rightarrow> chunk_pos \<Rightarrow> chunk_result ub" where
  "chunk_loop buf avail pos =
     (case pos of (d, mem, src, dst) \<Rightarrow>
        if src < avail then
          do { r \<leftarrow> chunk_step buf avail (d, mem, src, dst);
               case r of Return result \<Rightarrow> Some result | Continue pos' \<Rightarrow> chunk_loop buf avail pos' }
        else Some (status_code IHTP_INCOMPLETE, d, mem, dst))"

definition ihtp_decode_chunked ::
    "ihtp_chunked_decoder_t option \<Rightarrow> mem \<Rightarrow> ptr \<Rightarrow> nat option \<Rightarrow>
       (int \<times> ihtp_chunked_decoder_t option \<times> mem \<times> nat option) ub" where
  "ihtp_decode_chunked decoder mem buf bufsz =
     (case (decoder, buf, bufsz) of
        (Some d, Some b, Some avail) \<Rightarrow>
          do { (status, d', mem', n) \<leftarrow> chunk_loop b avail (d, mem, 0, 0);
               Some (status, Some d', mem', Some n) }
      | _ \<Rightarrow> Some (status_code IHTP_ERROR, decoder, mem, bufsz))"

section \<open>The fixed-length decoder\<close>

definition ihtp_fixed_decoder_init ::
    "ihtp_fixed_decoder_t option \<Rightarrow> 64 word \<Rightarrow> ihtp_fixed_decoder_t option" where
  "ihtp_fixed_decoder_init decoder content_length =
     map_option (\<lambda>d. d\<lparr> remaining := content_length, fixed_total_decoded := 0 \<rparr>) decoder"

definition ihtp_decode_fixed ::
    "ihtp_fixed_decoder_t option \<Rightarrow> nat \<Rightarrow> ihtp_status_t \<times> ihtp_fixed_decoder_t option" where
  "ihtp_decode_fixed decoder len =
     (case decoder of
        None \<Rightarrow> (IHTP_ERROR, None)
      | Some d \<Rightarrow>
          if len > unat (remaining d) then (IHTP_ERROR, Some d)
          else
            let d = d\<lparr> remaining := remaining d - word_of_nat len,
                       fixed_total_decoded := fixed_total_decoded d + word_of_nat len \<rparr>
            in if remaining d = 0 then (IHTP_OK, Some d) else (IHTP_INCOMPLETE, Some d))"


section \<open>The decoder as a byte automaton\<close>

datatype 'd outcome = Failed | Incomplete 'd "byte list" | Done 'd "byte list" "byte list"

fun emit :: "byte list \<Rightarrow> 'd outcome \<Rightarrow> 'd outcome" where
  "emit out Failed = Failed"
| "emit out (Incomplete d out') = Incomplete d (out @ out')"
| "emit out (Done d out' rest) = Done d (out @ out') rest"

lemma emit_Nil [simp]: "emit [] r = r"
  by (cases r) simp_all

lemma emit_emit [simp]: "emit a (emit b r) = emit (a @ b) r"
  by (cases r) simp_all

definition is_hex :: "byte \<Rightarrow> bool" where
  "is_hex c \<longleftrightarrow> (0x30 \<le> c \<and> c \<le> 0x39) \<or> (0x61 \<le> c \<and> c \<le> 0x66) \<or> (0x41 \<le> c \<and> c \<le> 0x46)"

text \<open>One byte: the decoder after it and the payload it yields; \<open>None\<close> is an error.\<close>

definition chunk_byte :: "ihtp_chunked_decoder_t \<Rightarrow> byte \<Rightarrow> (ihtp_chunked_decoder_t \<times> byte list) option" where
  "chunk_byte d c =
     (let s = chunk_state d in
      if s = CHUNK_SIZE then
        (if is_hex c then
           (if hex_count d \<ge> 16 then None
            else Some (d\<lparr> bytes_left_in_chunk := bytes_left_in_chunk d * 16 + ihtp_hex_digit_to_u64 c,
                          hex_count := hex_count d + 1 \<rparr>, []))
         else if c = SEMI then Some (d\<lparr> chunk_state := CHUNK_EXT \<rparr>, [])
         else if c = CR \<and> hex_count d \<noteq> 0 then Some (d\<lparr> chunk_state := CHUNK_SIZE_LF \<rparr>, [])
         else None)
      else if s = CHUNK_EXT then
        (if c = CR then Some (d\<lparr> chunk_state := CHUNK_SIZE_LF \<rparr>, [])
         else if c = LF then None else Some (d, []))
      else if s = CHUNK_SIZE_LF then
        (if c \<noteq> LF then None
         else if bytes_left_in_chunk d \<noteq> 0 then Some (d\<lparr> chunk_state := CHUNK_DATA \<rparr>, [])
         else if consume_trailer d
         then Some (d\<lparr> hex_count := TRAILER_LINE_START, chunk_state := CHUNK_TRAILER \<rparr>, [])
         else Some (d\<lparr> chunk_state := CHUNK_DONE \<rparr>, []))
      else if s = CHUNK_DATA then
        (let d = d\<lparr> bytes_left_in_chunk := bytes_left_in_chunk d - 1,
                    chunk_total_decoded := chunk_total_decoded d + 1 \<rparr>
         in Some (if bytes_left_in_chunk d = 0 then d\<lparr> chunk_state := CHUNK_DATA_CR \<rparr> else d, [c]))
      else if s = CHUNK_DATA_CR then
        (if c = CR then Some (d\<lparr> chunk_state := CHUNK_DATA_LF \<rparr>, []) else None)
      else if s = CHUNK_DATA_LF then
        (if c = LF then Some (d\<lparr> hex_count := 0, bytes_left_in_chunk := 0, chunk_state := CHUNK_SIZE \<rparr>, [])
         else None)
      else if s = CHUNK_TRAILER then
        (if hex_count d = TRAILER_LINE_START then
           (if c = CR then Some (d\<lparr> hex_count := TRAILER_DONE_LF \<rparr>, [])
            else if c = LF then None else Some (d\<lparr> hex_count := TRAILER_LINE \<rparr>, []))
         else if hex_count d = TRAILER_DONE_LF then
           (if c = LF then Some (d\<lparr> chunk_state := CHUNK_DONE \<rparr>, []) else None)
         else if hex_count d = TRAILER_LINE then
           (if c = CR then Some (d\<lparr> hex_count := TRAILER_LINE_LF \<rparr>, [])
            else if c = LF then None else Some (d, []))
         else if hex_count d = TRAILER_LINE_LF then
           (if c = LF then Some (d\<lparr> hex_count := TRAILER_LINE_START \<rparr>, []) else None)
         else None)
      else None)"

fun chunk_bytes :: "ihtp_chunked_decoder_t \<Rightarrow> byte list \<Rightarrow> ihtp_chunked_decoder_t outcome" where
  "chunk_bytes d [] = Incomplete d []"
| "chunk_bytes d (c # s) =
     (if chunk_state d = CHUNK_DONE then Done d [] (c # s)
      else case chunk_byte d c of
        None \<Rightarrow> Failed
      | Some (d', out) \<Rightarrow>
          if chunk_state d' = CHUNK_DONE then Done d' out s else emit out (chunk_bytes d' s))"

text \<open>
  The invariant of a decoder that started zero-initialised: a state with a case, a pending byte
  in \<open>CHUNK_DATA\<close>, and at most sixteen digits whose value fits.
\<close>

definition decoder_ok :: "ihtp_chunked_decoder_t \<Rightarrow> bool" where
  "decoder_ok d \<longleftrightarrow>
     0 \<le> chunk_state d \<and> chunk_state d \<le> 7 \<and>
     (chunk_state d = CHUNK_DATA \<longrightarrow> bytes_left_in_chunk d \<noteq> 0) \<and>
     (chunk_state d = CHUNK_SIZE \<longrightarrow>
        0 \<le> hex_count d \<and> hex_count d \<le> 16 \<and> uint (bytes_left_in_chunk d) < 16 ^ nat (hex_count d)) \<and>
     (chunk_state d = CHUNK_TRAILER \<longrightarrow> 0 \<le> hex_count d \<and> hex_count d \<le> 3)"

definition zero_decoder :: "bool \<Rightarrow> ihtp_chunked_decoder_t" where
  "zero_decoder trailer =
     \<lparr> bytes_left_in_chunk = 0, chunk_total_decoded = 0, hex_count = 0, chunk_state = CHUNK_SIZE,
       consume_trailer = trailer \<rparr>"

lemma zero_decoder_ok [simp]: "decoder_ok (zero_decoder trailer)"
  by (simp add: decoder_ok_def zero_decoder_def chunk_states)

lemma decoder_ok_state_cases:
  assumes "decoder_ok d"
  obtains "chunk_state d = CHUNK_SIZE" | "chunk_state d = CHUNK_EXT" | "chunk_state d = CHUNK_SIZE_LF"
    | "chunk_state d = CHUNK_DATA" | "chunk_state d = CHUNK_DATA_CR" | "chunk_state d = CHUNK_DATA_LF"
    | "chunk_state d = CHUNK_TRAILER" | "chunk_state d = CHUNK_DONE"
  using assms by (force simp: decoder_ok_def chunk_states)

definition hex_digit :: "byte \<Rightarrow> int" where
  "hex_digit c =
     (if 0x30 \<le> c \<and> c \<le> 0x39 then uint c - 0x30
      else if 0x61 \<le> c \<and> c \<le> 0x66 then uint c - 0x57 else uint c - 0x37)"

lemma hex_digit_range: "is_hex c \<Longrightarrow> 0 \<le> hex_digit c \<and> hex_digit c < 16"
  by (auto simp: is_hex_def hex_digit_def word_le_def)

lemma hex_digit_value: "is_hex c \<Longrightarrow> uint (ihtp_hex_digit_to_u64 c) = hex_digit c"
proof -
  assume h: "is_hex c"
  have "ihtp_hex_digit_to_u64 c = word_of_int (hex_digit c)"
    unfolding ihtp_hex_digit_to_u64_def hex_digit_def ucast_eq by (simp add: wi_hom_syms)
  with hex_digit_range [OF h] show ?thesis by (simp add: uint_word_of_int)
qed

text \<open>What a call leaves behind, given what the automaton says.\<close>

definition chunk_post ::
    "nat \<Rightarrow> nat \<Rightarrow> mem \<Rightarrow> nat \<Rightarrow> ihtp_chunked_decoder_t outcome \<Rightarrow> chunk_result \<Rightarrow> bool" where
  "chunk_post buf avail mem dst r = (\<lambda>(st, d', mem', n).
     length mem' = length mem \<and> take (buf + dst) mem' = take (buf + dst) mem \<and>
     drop (buf + avail) mem' = drop (buf + avail) mem \<and>
     (case r of
        Failed \<Rightarrow> st = status_code IHTP_ERROR \<and> n = avail \<and> decoder_ok d'
      | Incomplete d1 out \<Rightarrow> st = status_code IHTP_INCOMPLETE \<and> d' = d1 \<and> n = dst + length out \<and>
          span mem' (buf + dst) (length out) = out
      | Done d1 out rest \<Rightarrow> st = size_as_status (length rest) \<and> d' = d1 \<and> n = dst + length out \<and>
          span mem' (buf + dst) (length out + length rest) = out @ rest \<and>
          drop (buf + dst + length out + length rest) mem' = drop (buf + dst + length out + length rest) mem))"

text \<open>A move towards the front of the buffer.\<close>

lemma memmove_front:
  assumes "dst \<le> src" and "src + n \<le> avail" and "buf + avail \<le> length mem"
  shows "\<exists>mem'. c_memmove mem (buf + dst) (buf + src) n = Some mem' \<and> length mem' = length mem \<and>
           take (buf + dst) mem' = take (buf + dst) mem \<and>
           span mem' (buf + dst) n = span mem (buf + src) n \<and>
           (\<forall>k. dst + n \<le> k \<longrightarrow> drop (buf + k) mem' = drop (buf + k) mem)"
proof -
  let ?m = "take (buf + dst) mem @ span mem (buf + src) n @ drop (buf + dst + n) mem"
  have "c_memmove mem (buf + dst) (buf + src) n = Some ?m" using assms by (simp add: c_memmove_def)
  moreover have "length ?m = length mem" using assms by simp
  moreover have "take (buf + dst) ?m = take (buf + dst) mem" using assms by simp
  moreover have "span ?m (buf + dst) n = span mem (buf + src) n" using assms by (simp add: span_def)
  moreover have "drop (buf + k) ?m = drop (buf + k) mem" if "dst + n \<le> k" for k
    using that assms by (simp add: add.commute)
  ultimately show ?thesis by blast
qed

lemma chunk_post_emit:
  assumes post: "chunk_post buf avail mem1 (dst + length xs) r res"
    and "length mem1 = length mem" and "take (buf + dst) mem1 = take (buf + dst) mem"
    and "\<forall>k. dst + length xs \<le> k \<longrightarrow> drop (buf + k) mem1 = drop (buf + k) mem"
    and "span mem1 (buf + dst) (length xs) = xs" and "dst + length xs \<le> avail"
  shows "chunk_post buf avail mem dst (emit xs r) res"
proof -
  obtain st d' mem' n where res: "res = (st, d', mem', n)" by (cases res)
  have len: "length mem' = length mem1" and tk: "take (buf + (dst + length xs)) mem' = take (buf + (dst + length xs)) mem1"
    and dr: "drop (buf + avail) mem' = drop (buf + avail) mem1"
    using post by (simp_all add: res chunk_post_def)
  have xs: "span mem' (buf + dst) (length xs) = xs"
    using assms(5) arg_cong [OF tk, of "drop (buf + dst)"] by (simp add: span_def drop_take add_ac)
  have tk2: "take (buf + dst) mem' = take (buf + dst) mem"
    using arg_cong [OF tk, of "take (buf + dst)"] assms(3) by simp
  have sp: "span mem' (buf + dst) (length xs + k) = xs @ span mem' (buf + (dst + length xs)) k" for k
    using span_append [of mem' "buf + dst" "length xs" k] xs by (simp add: add.assoc)
  have beyond: "drop (buf + (dst + (length xs + k))) mem1 = drop (buf + (dst + (length xs + k))) mem" for k
    using assms(4) by simp
  have "drop (buf + avail) mem1 = drop (buf + avail) mem" using assms(4,6) by simp
  then show ?thesis
    using post assms(2) len dr tk2 sp beyond unfolding res chunk_post_def
    by (cases r) (simp_all add: add.assoc)
qed

lemma chunk_finish_in:
  assumes "dst \<le> src" and "src \<le> avail" and "buf + avail \<le> length mem"
  shows "\<exists>res. chunk_finish buf avail (d, mem, src, dst) = Some (Return res) \<and>
           chunk_post buf avail mem dst (Done d [] (span mem (buf + src) (avail - src))) res"
proof (cases "src < avail")
  case False
  with assms show ?thesis by (simp add: chunk_finish_def chunk_post_def)
next
  case True
  from memmove_front [of dst src "avail - src" avail buf mem] assms obtain mem'
    where m: "c_memmove mem (buf + dst) (buf + src) (avail - src) = Some mem'" "length mem' = length mem"
      "take (buf + dst) mem' = take (buf + dst) mem"
      "span mem' (buf + dst) (avail - src) = span mem (buf + src) (avail - src)"
      "\<forall>k. dst + (avail - src) \<le> k \<longrightarrow> drop (buf + k) mem' = drop (buf + k) mem" by auto
  have "drop (buf + avail) mem' = drop (buf + avail) mem" using m(5) assms by simp
  moreover have "drop (buf + dst + (avail - src)) mem' = drop (buf + dst + (avail - src)) mem"
    using m(5) by (simp add: add.assoc)
  ultimately show ?thesis using m(1-4) True assms by (simp add: chunk_finish_def chunk_post_def)
qed

text \<open>The cases that read one byte.\<close>

lemma chunk_step_byte:
  assumes "decoder_ok d" and "chunk_state d \<noteq> CHUNK_DATA" and "chunk_state d \<noteq> CHUNK_DONE"
    and "rd mem (buf + src) = Some c"
  shows "chunk_step buf avail (d, mem, src, dst) =
           (case chunk_byte d c of
              None \<Rightarrow> Some (Return (status_code IHTP_ERROR, d, mem, avail))
            | Some (d', out) \<Rightarrow>
                if chunk_state d' = CHUNK_DONE then chunk_finish buf avail (d', mem, Suc src, dst)
                else Some (Continue (d', mem, Suc src, dst)))
         \<and> (\<forall>d' out. chunk_byte d c = Some (d', out) \<longrightarrow> out = [])"
  using assms(1)
proof (cases rule: decoder_ok_state_cases)
  case 1
  with assms(4) show ?thesis
    by (auto simp: chunk_step_def chunk_size_case_def chunk_byte_def is_hex_def chunk_error_def chunk_states Let_def)
next
  case 2
  with assms(4) show ?thesis
    by (auto simp: chunk_step_def chunk_ext_case_def chunk_byte_def chunk_error_def chunk_states Let_def)
next
  case 3
  with assms(4) show ?thesis
    by (auto simp: chunk_step_def chunk_size_lf_case_def chunk_byte_def chunk_error_def chunk_states Let_def)
next
  case 5
  with assms(4) show ?thesis
    by (auto simp: chunk_step_def chunk_data_cr_case_def chunk_byte_def chunk_error_def chunk_states Let_def)
next
  case 6
  with assms(4) show ?thesis
    by (auto simp: chunk_step_def chunk_data_lf_case_def chunk_byte_def chunk_error_def chunk_states Let_def)
next
  case 7
  with assms(4) show ?thesis
    by (auto simp: chunk_step_def chunk_trailer_case_def chunk_byte_def chunk_error_def chunk_states Let_def)
qed (use assms in simp_all)

text \<open>The case that copies.\<close>

definition data_after :: "ihtp_chunked_decoder_t \<Rightarrow> nat \<Rightarrow> ihtp_chunked_decoder_t" where
  "data_after d n =
     (let d = d\<lparr> bytes_left_in_chunk := bytes_left_in_chunk d - word_of_nat n,
                 chunk_total_decoded := chunk_total_decoded d + word_of_nat n \<rparr>
      in if bytes_left_in_chunk d = 0 then d\<lparr> chunk_state := CHUNK_DATA_CR \<rparr> else d)"

lemma data_run:
  assumes "chunk_state d = CHUNK_DATA" and "xs \<noteq> []" and "length xs \<le> unat (bytes_left_in_chunk d)"
  shows "chunk_bytes d (xs @ s) = emit xs (chunk_bytes (data_after d (length xs)) s)"
  using assms
proof (induction xs arbitrary: d)
  case Nil
  then show ?case by simp
next
  case (Cons x xs)
  let ?d = "data_after d 1"
  have st: "chunk_state d \<noteq> CHUNK_DONE" using Cons.prems(1) by (simp add: chunk_states)
  have byte: "chunk_byte d x = Some (?d, [x])"
    using Cons.prems(1) by (simp add: chunk_byte_def data_after_def chunk_states Let_def)
  have st1: "chunk_state ?d \<noteq> CHUNK_DONE"
    using Cons.prems(1) by (simp add: data_after_def chunk_states Let_def)
  have one: "chunk_bytes d ((x # xs) @ s) = emit [x] (chunk_bytes ?d (xs @ s))"
    using st byte st1 by simp
  show ?case
  proof (cases "xs = []")
    case True
    with one show ?thesis by simp
  next
    case False
    have left: "unat (bytes_left_in_chunk d - 1) = unat (bytes_left_in_chunk d) - 1"
      using Cons.prems(3) by (intro unat_minus_one) auto
    have ne: "bytes_left_in_chunk d - 1 \<noteq> 0"
    proof
      assume "bytes_left_in_chunk d - 1 = 0"
      with left have "unat (bytes_left_in_chunk d) \<le> 1" by simp
      moreover have "0 < length xs" using False by simp
      ultimately show False using Cons.prems(3) unfolding list.size by linarith
    qed
    have d: "chunk_state ?d = CHUNK_DATA" "bytes_left_in_chunk ?d = bytes_left_in_chunk d - 1"
      using ne Cons.prems(1) by (simp_all add: data_after_def Let_def)
    have after: "data_after ?d (length xs) = data_after d (length (x # xs))"
      using ne by (simp add: data_after_def Let_def algebra_simps)
    have "chunk_bytes ?d (xs @ s) = emit xs (chunk_bytes (data_after ?d (length xs)) s)"
      using Cons.prems(3) left d False by (intro Cons.IH) auto
    with one after show ?thesis by simp
  qed
qed

section \<open>The invariant is kept\<close>

lemma size_step:
  assumes "uint left < 16 ^ nat h" and "0 \<le> h" and "h < 16" and "is_hex c"
  shows "uint (left * 16 + ihtp_hex_digit_to_u64 c :: 64 word) = 16 * uint left + hex_digit c"
    and "16 * uint left + hex_digit c < 16 ^ nat (h + 1)"
proof -
  have "nat (h + 1) = Suc (nat h)" using assms(2) by simp
  then show lt: "16 * uint left + hex_digit c < 16 ^ nat (h + 1)"
    using assms(1) hex_digit_range [OF assms(4)] by simp
  have "nat (h + 1) \<le> 16" using assms(3) by simp
  then have "(16 :: int) ^ nat (h + 1) \<le> 16 ^ 16" by (rule power_increasing) simp
  with lt have b: "16 * uint left + hex_digit c < 2 ^ 64" by simp
  have "left * 16 + ihtp_hex_digit_to_u64 c =
      word_of_int (16 * uint left + uint (ihtp_hex_digit_to_u64 c))" by simp
  then have "left * 16 + ihtp_hex_digit_to_u64 c = word_of_int (16 * uint left + hex_digit c)"
    by (simp only: hex_digit_value [OF assms(4)])
  then have "uint (left * 16 + ihtp_hex_digit_to_u64 c) = (16 * uint left + hex_digit c) mod 2 ^ LENGTH(64)"
    by (simp only: uint_word_of_int)
  also have "\<dots> = 16 * uint left + hex_digit c"
    using b hex_digit_range [OF assms(4)] by (intro mod_pos_pos_trivial) simp_all
  finally show "uint (left * 16 + ihtp_hex_digit_to_u64 c) = 16 * uint left + hex_digit c" .
qed

lemma chunk_byte_ok:
  assumes "decoder_ok d" and "chunk_byte d c = Some (d', out)"
  shows "decoder_ok d'"
  using assms(1)
proof (cases rule: decoder_ok_state_cases)
  case 1
  then have h: "0 \<le> hex_count d" "uint (bytes_left_in_chunk d) < 16 ^ nat (hex_count d)"
    using assms(1) by (simp_all add: decoder_ok_def)
  show ?thesis
  proof (cases "is_hex c")
    case True
    with 1 assms(2) have "hex_count d < 16" by (simp add: chunk_byte_def split: if_splits)
    with size_step [OF h(2,1) this True] True 1 assms(2) h(1) show ?thesis
      by (auto simp: chunk_byte_def decoder_ok_def chunk_states)
  next
    case False
    with 1 assms(2) show ?thesis
      by (auto simp: chunk_byte_def decoder_ok_def chunk_states Let_def split: if_splits)
  qed
next
  case 4
  with assms(2) show ?thesis
    by (auto simp: chunk_byte_def decoder_ok_def chunk_states Let_def split: if_splits)
next
  case 7
  with assms show ?thesis
    by (auto simp: chunk_byte_def decoder_ok_def chunk_states Let_def split: if_splits)
qed (use assms in \<open>auto simp: chunk_byte_def decoder_ok_def chunk_states Let_def split: if_splits\<close>)

lemma data_after_ok: "decoder_ok d \<Longrightarrow> chunk_state d = CHUNK_DATA \<Longrightarrow> decoder_ok (data_after d n)"
  by (auto simp: data_after_def decoder_ok_def chunk_states Let_def)

section \<open>The code refines the automaton\<close>

lemma chunk_loop_done:
  "\<not> src < avail \<Longrightarrow> chunk_loop buf avail (d, mem, src, dst) = Some (status_code IHTP_INCOMPLETE, d, mem, dst)"
  by (simp add: chunk_loop.simps)

lemma chunk_loop_continue:
  "src < avail \<Longrightarrow> chunk_step buf avail (d, mem, src, dst) = Some (Continue pos) \<Longrightarrow>
     chunk_loop buf avail (d, mem, src, dst) = chunk_loop buf avail pos"
  by (subst chunk_loop.simps) simp

lemma chunk_loop_return:
  "src < avail \<Longrightarrow> chunk_step buf avail (d, mem, src, dst) = Some (Return r) \<Longrightarrow>
     chunk_loop buf avail (d, mem, src, dst) = Some r"
  by (subst chunk_loop.simps) simp

lemma data_step:
  assumes "chunk_state d = CHUNK_DATA" and "dst \<le> src" and "src < avail" and "buf + avail \<le> length mem"
  defines "n \<equiv> min (avail - src) (unat (bytes_left_in_chunk d))"
  shows "\<exists>mem'. chunk_step buf avail (d, mem, src, dst) = Some (Continue (data_after d n, mem', src + n, dst + n)) \<and>
           length mem' = length mem \<and> take (buf + dst) mem' = take (buf + dst) mem \<and>
           span mem' (buf + dst) n = span mem (buf + src) n \<and>
           (\<forall>k. dst + n \<le> k \<longrightarrow> drop (buf + k) mem' = drop (buf + k) mem)"
proof -
  have "src + n \<le> avail" using assms by simp
  from memmove_front [OF assms(2) this assms(4)] obtain mem' where m: "c_memmove mem (buf + dst) (buf + src) n = Some mem'"
    "length mem' = length mem" "take (buf + dst) mem' = take (buf + dst) mem"
    "span mem' (buf + dst) n = span mem (buf + src) n"
    "\<forall>k. dst + n \<le> k \<longrightarrow> drop (buf + k) mem' = drop (buf + k) mem" by blast
  have n: "(if avail - src > unat (bytes_left_in_chunk d) then unat (bytes_left_in_chunk d) else avail - src) = n"
    by (simp add: n_def)
  have "chunk_data_case buf avail (d, mem, src, dst) = Some (Continue (data_after d n, mem', src + n, dst + n))"
    unfolding chunk_data_case_def prod.case Let_def n m(1) data_after_def by simp
  then have "chunk_step buf avail (d, mem, src, dst) = Some (Continue (data_after d n, mem', src + n, dst + n))"
    using assms(1) by (simp add: chunk_step_def chunk_states)
  with m show ?thesis by blast
qed

lemma chunk_loop_in:
  assumes "decoder_ok d" and "dst \<le> src" and "src \<le> avail" and "buf + avail \<le> length mem"
  shows "\<exists>res. chunk_loop buf avail (d, mem, src, dst) = Some res \<and>
           chunk_post buf avail mem dst (chunk_bytes d (span mem (buf + src) (avail - src))) res"
  using assms
proof (induction "avail - src" arbitrary: d mem src dst rule: less_induct)
  case less
  show ?case
  proof (cases "src < avail")
    case False
    with less.prems show ?thesis by (simp add: chunk_loop_done chunk_post_def)
  next
    case True
    let ?c = "mem ! (buf + src)" and ?s = "span mem (buf + Suc src) (avail - Suc src)"
    have "avail - src = Suc (avail - Suc src)" using True by simp
    then have s: "span mem (buf + src) (avail - src) = ?c # ?s"
      using True less.prems by (simp add: span_Suc)
    have rd: "rd mem (buf + src) = Some ?c" using True less.prems by (simp add: rd_in)
    consider (finished) "chunk_state d = CHUNK_DONE" | (data) "chunk_state d = CHUNK_DATA"
      | (byte) "chunk_state d \<noteq> CHUNK_DONE" "chunk_state d \<noteq> CHUNK_DATA" by blast
    then show ?thesis
    proof cases
      case finished
      from chunk_finish_in [of dst src avail buf mem d] less.prems True obtain res where
        "chunk_finish buf avail (d, mem, src, dst) = Some (Return res)"
        "chunk_post buf avail mem dst (Done d [] (span mem (buf + src) (avail - src))) res" by auto
      with finished True show ?thesis
        by (auto simp: chunk_loop_return chunk_step_def chunk_states s)
    next
      case data
      define N where "N = min (avail - src) (unat (bytes_left_in_chunk d))"
      define xs where "xs = span mem (buf + src) N"
      have left: "bytes_left_in_chunk d \<noteq> 0" using less.prems(1) data by (simp add: decoder_ok_def)
      then have n: "0 < N" "N \<le> avail - src" "N \<le> unat (bytes_left_in_chunk d)"
        using True by (simp_all add: N_def unat_gt_0)
      from data_step [OF data less.prems(2) True less.prems(4), folded N_def, folded xs_def] obtain mem1 where
        st: "chunk_step buf avail (d, mem, src, dst) = Some (Continue (data_after d N, mem1, src + N, dst + N))"
        and m: "length mem1 = length mem" "take (buf + dst) mem1 = take (buf + dst) mem"
          "span mem1 (buf + dst) N = xs"
          "\<forall>k. dst + N \<le> k \<longrightarrow> drop (buf + k) mem1 = drop (buf + k) mem" by blast
      have xs: "length xs = N" using less.prems n by (simp add: xs_def)
      have "avail - src = N + (avail - (src + N))" using n(2) True by linarith
      then have split: "span mem (buf + src) (avail - src) = xs @ span mem (buf + (src + N)) (avail - (src + N))"
        using span_append [of mem "buf + src" N "avail - (src + N)"] by (simp only: add.assoc xs_def)
      have rest: "span mem1 (buf + (src + N)) (avail - (src + N)) = span mem (buf + (src + N)) (avail - (src + N))"
        using m(4) less.prems(2) by (simp add: span_def)
      have "avail - (src + N) < avail - src" using n(1) True by linarith
      moreover have "src + N \<le> avail" using n(2) True by linarith
      ultimately obtain res where res: "chunk_loop buf avail (data_after d N, mem1, src + N, dst + N) = Some res"
        and post: "chunk_post buf avail mem1 (dst + N)
          (chunk_bytes (data_after d N) (span mem (buf + (src + N)) (avail - (src + N)))) res"
        using less.hyps [of "src + N" "data_after d N" "dst + N" mem1, unfolded rest]
          data_after_ok [OF less.prems(1) data, of N] m(1) less.prems(2,4) by auto
      have run: "chunk_bytes d (span mem (buf + src) (avail - src)) =
          emit xs (chunk_bytes (data_after d N) (span mem (buf + (src + N)) (avail - (src + N))))"
        unfolding split using data_run [OF data, of xs] xs n by (metis length_greater_0_conv)
      have "chunk_post buf avail mem dst (chunk_bytes d (span mem (buf + src) (avail - src))) res"
        unfolding run
        using chunk_post_emit [of buf avail mem1 dst xs _ res mem] post m xs n(2) less.prems(2,3,4) by simp
      with chunk_loop_continue [OF True st] res show ?thesis by simp
    next
      case byte
      note step = chunk_step_byte [OF less.prems(1) byte(2,1) rd, of avail dst]
      show ?thesis
      proof (cases "chunk_byte d ?c")
        case None
        with step byte(1) True s less.prems(1) show ?thesis
          by (simp add: chunk_loop_return chunk_post_def)
      next
        case (Some r)
        then obtain d1 where r: "chunk_byte d ?c = Some (d1, [])" using step by (cases r) auto
        show ?thesis
        proof (cases "chunk_state d1 = CHUNK_DONE")
          case True
          from chunk_finish_in [of dst "Suc src" avail buf mem d1] less.prems \<open>src < avail\<close> obtain res where
            "chunk_finish buf avail (d1, mem, Suc src, dst) = Some (Return res)"
            "chunk_post buf avail mem dst (Done d1 [] ?s) res" by auto
          with step r True \<open>src < avail\<close> byte(1) s show ?thesis by (auto simp: chunk_loop_return)
        next
          case False
          have "avail - Suc src < avail - src" using \<open>src < avail\<close> by linarith
          from less.hyps [OF this chunk_byte_ok [OF less.prems(1) r], of dst mem] less.prems \<open>src < avail\<close>
          obtain res where "chunk_loop buf avail (d1, mem, Suc src, dst) = Some res"
            "chunk_post buf avail mem dst (chunk_bytes d1 ?s) res" by auto
          with step r False \<open>src < avail\<close> byte(1) s show ?thesis by (auto simp: chunk_loop_continue)
        qed
      qed
    qed
  qed
qed

text \<open>A call on a buffer: the automaton's outcome, as the caller sees it.\<close>

lemma decode_chunked_refines:
  assumes "decoder_ok d" and "b + avail \<le> length mem"
  shows "\<exists>st d' mem' n. ihtp_decode_chunked (Some d) mem (Some b) (Some avail) = Some (st, Some d', mem', Some n) \<and>
           chunk_post b avail mem 0 (chunk_bytes d (span mem b avail)) (st, d', mem', n)"
  using chunk_loop_in [OF assms(1), of 0 0 avail b mem] assms(2)
  by (auto simp: ihtp_decode_chunked_def)

section \<open>Which calls return\<close>

definition has_case :: "ihtp_chunked_decoder_t \<Rightarrow> bool" where
  "has_case d \<longleftrightarrow> 0 \<le> chunk_state d \<and> chunk_state d \<le> 7"

lemma decoder_ok_has_case: "decoder_ok d \<Longrightarrow> has_case d"
  by (simp add: decoder_ok_def has_case_def)

text \<open>
  A pass consumes a byte, except that a decoder in \<open>CHUNK_DATA\<close> with nothing pending, which only a
  caller can produce, takes one pass to leave that state.
\<close>

fun chunk_left :: "nat \<Rightarrow> chunk_pos \<Rightarrow> nat" where
  "chunk_left avail (d, mem, src, dst) =
     2 * (avail - src) + (if chunk_state d = CHUNK_DATA \<and> bytes_left_in_chunk d = 0 then 1 else 0)"

fun pos_in :: "nat \<Rightarrow> nat \<Rightarrow> chunk_pos \<Rightarrow> bool" where
  "pos_in buf avail (d, mem, src, dst) \<longleftrightarrow>
     has_case d \<and> dst \<le> src \<and> src \<le> avail \<and> buf + avail \<le> length mem"

definition chunk_progress :: "nat \<Rightarrow> nat \<Rightarrow> chunk_pos \<Rightarrow> (chunk_pos, chunk_result) ctl ub \<Rightarrow> bool" where
  "chunk_progress buf avail pos r =
     (case r of
        None \<Rightarrow> False
      | Some (Return _) \<Rightarrow> True
      | Some (Continue pos') \<Rightarrow> pos_in buf avail pos' \<and> chunk_left avail pos' < chunk_left avail pos)"

lemma chunk_progress_simps [simp]:
  "chunk_progress buf avail pos (Some (Return r))"
  "chunk_progress buf avail pos (Some (Continue pos')) \<longleftrightarrow>
     pos_in buf avail pos' \<and> chunk_left avail pos' < chunk_left avail pos"
  "chunk_progress buf avail pos (chunk_error avail pos2)"
  by (auto simp: chunk_progress_def chunk_error_def split: prod.splits)

lemma chunk_progress_finish:
  "dst \<le> src \<Longrightarrow> src \<le> avail \<Longrightarrow> buf + avail \<le> length mem \<Longrightarrow>
     chunk_progress buf avail pos (chunk_finish buf avail (d, mem, src, dst))"
  using chunk_finish_in [of dst src avail buf mem d] by (auto simp: chunk_progress_def)

lemma chunk_step_progress:
  assumes "pos_in buf avail (d, mem, src, dst)" and "src < avail"
  shows "chunk_progress buf avail (d, mem, src, dst) (chunk_step buf avail (d, mem, src, dst))"
proof -
  obtain c where rd: "rd mem (buf + src) = Some c" using assms by (simp add: rd_in)
  have "chunk_state d \<in> {0, 1, 2, 3, 4, 5, 6, 7}" using assms(1) by (auto simp: has_case_def)
  then consider (size) "chunk_state d = CHUNK_SIZE" | (ext) "chunk_state d = CHUNK_EXT"
    | (size_lf) "chunk_state d = CHUNK_SIZE_LF" | (data) "chunk_state d = CHUNK_DATA"
    | (data_cr) "chunk_state d = CHUNK_DATA_CR" | (data_lf) "chunk_state d = CHUNK_DATA_LF"
    | (trailer) "chunk_state d = CHUNK_TRAILER" | (final) "chunk_state d = CHUNK_DONE"
    unfolding chunk_states by auto
  then show ?thesis
  proof cases
    case data
    define n where "n = min (avail - src) (unat (bytes_left_in_chunk d))"
    from data_step [OF data, of dst src avail buf mem] assms obtain mem' where
      st: "chunk_step buf avail (d, mem, src, dst) = Some (Continue (data_after d n, mem', src + n, dst + n))"
      and len: "length mem' = length mem" unfolding n_def by auto
    have in_state: "has_case (data_after d n)"
      using data by (simp add: data_after_def has_case_def chunk_states Let_def)
    have zero: "chunk_state (data_after d n) = CHUNK_DATA \<longrightarrow> bytes_left_in_chunk (data_after d n) \<noteq> 0"
      by (simp add: data_after_def chunk_states Let_def)
    have "n \<le> avail - src" by (simp add: n_def)
    moreover have "n = 0 \<longleftrightarrow> bytes_left_in_chunk d = 0" using assms(2) by (auto simp: n_def min_def unat_eq_zero)
    ultimately show ?thesis using st len in_state zero assms data by (cases "n = 0") auto
  qed (use assms rd in \<open>auto simp: chunk_step_def chunk_size_case_def chunk_ext_case_def chunk_size_lf_case_def
         chunk_data_cr_case_def chunk_data_lf_case_def chunk_trailer_case_def has_case_def chunk_states
         Let_def chunk_progress_finish\<close>)
qed

lemma chunk_loop_returns: "pos_in buf avail pos \<Longrightarrow> \<exists>r. chunk_loop buf avail pos = Some r"
proof (induction "chunk_left avail pos" arbitrary: pos rule: less_induct)
  case less
  obtain d mem src dst where pos: "pos = (d, mem, src, dst)" by (cases pos)
  show ?case
  proof (cases "src < avail")
    case True
    from chunk_step_progress [OF less.prems [unfolded pos] True]
    consider r where "chunk_step buf avail pos = Some (Return r)"
      | pos' where "chunk_step buf avail pos = Some (Continue pos')" "pos_in buf avail pos'"
          "chunk_left avail pos' < chunk_left avail pos"
      unfolding pos chunk_progress_def by (auto split: option.splits ctl.splits)
    then show ?thesis
    proof cases
      case 1
      with True chunk_loop_return show ?thesis unfolding pos by blast
    next
      case 2
      from less.hyps [OF 2(3,2)] 2(1) True show ?thesis by (simp add: pos chunk_loop_continue)
    qed
  qed (simp add: pos chunk_loop_done)
qed

lemma chunk_loop_stuck:
  assumes "\<not> has_case d" and "src < avail"
  shows "chunk_loop buf avail (d, mem, src, dst) = None"
proof -
  have step: "chunk_step buf avail (d, mem, src, dst) = Some (Continue (d, mem, src, dst))"
    using assms(1) by (auto simp: chunk_step_def has_case_def chunk_states Let_def)
  let ?P = "\<lambda>b a pos r. \<not> (b = buf \<and> a = avail \<and> pos = (d, mem, src, dst))"
  have never: "?P b a pos r" if "chunk_loop b a pos = Some r" for b a pos r
  proof (rule chunk_loop.raw_induct [where P = ?P, OF _ that])
    fix loop b a pos r
    assume ih: "\<And>b a pos r. loop b a pos = Some r \<Longrightarrow> ?P b a pos r"
      and body: "(case pos of (d, mem, src, dst) \<Rightarrow>
          if src < a then do { r \<leftarrow> chunk_step b a (d, mem, src, dst);
               case r of Return result \<Rightarrow> Some result | Continue pos' \<Rightarrow> loop b a pos' }
          else Some (status_code IHTP_INCOMPLETE, d, mem, dst)) = Some r"
    show "?P b a pos r"
    proof
      assume "b = buf \<and> a = avail \<and> pos = (d, mem, src, dst)"
      with body step assms(2) have "loop buf avail (d, mem, src, dst) = Some r" by simp
      from ih [OF this] show False by simp
    qed
  qed
  show ?thesis using never [of buf avail "(d, mem, src, dst)"] by (metis not_None_eq)
qed

lemma decode_chunked_returns_iff:
  assumes "b + avail \<le> length mem"
  shows "(\<exists>r. ihtp_decode_chunked (Some d) mem (Some b) (Some avail) = Some r) \<longleftrightarrow> has_case d \<or> avail = 0"
proof (cases "has_case d \<or> avail = 0")
  case True
  then have "\<exists>r. chunk_loop b avail (d, mem, 0, 0) = Some r"
    using chunk_loop_returns [of b avail "(d, mem, 0, 0)"] assms by (auto simp: chunk_loop_done)
  with True show ?thesis by (auto simp: ihtp_decode_chunked_def)
next
  case False
  with chunk_loop_stuck [of d 0 avail b mem 0] show ?thesis by (simp add: ihtp_decode_chunked_def)
qed

end
