(* ===== verification/Ihtp_Chunked.thy ===== *)
theory Ihtp_Chunked
  imports Ihtp_Body
begin

text \<open>
  The language of the chunked decoder: feeding it in fragments, the chunked bodies it accepts
  (an invariant of the automaton gives soundness, runs over complete chunks give completeness),
  and encoding a body.  The locale \<open>stream_decoder\<close> is the contract of a decoder that may be
  called on successive fragments; both decoders of the code are interpretations of it.
\<close>

section \<open>Decoders of a stream\<close>

fun feed_decoder :: "('d \<Rightarrow> byte list \<Rightarrow> 'd outcome) \<Rightarrow> 'd \<Rightarrow> byte list list \<Rightarrow> 'd outcome" where
  "feed_decoder decode d [] = Incomplete d []"
| "feed_decoder decode d (x # xs) =
     (case decode d x of
        Incomplete d' out \<Rightarrow> emit out (feed_decoder decode d' xs)
      | Failed \<Rightarrow> Failed
      | Done d' out rest \<Rightarrow> Done d' out rest)"

text \<open>An outcome without the bytes behind the body.\<close>

fun payload :: "'d outcome \<Rightarrow> 'd outcome" where
  "payload (Done d out rest) = Done d out []"
| "payload r = r"

lemma emit_eq_Incomplete: "emit out r = Incomplete d o' \<longleftrightarrow> (\<exists>o2. r = Incomplete d o2 \<and> o' = out @ o2)"
  by (cases r) auto

lemma emit_eq_Failed: "emit out r = Failed \<longleftrightarrow> r = Failed"
  by (cases r) auto

lemma emit_eq_Done: "emit out r = Done d o' rest \<longleftrightarrow> (\<exists>o2. r = Done d o2 rest \<and> o' = out @ o2)"
  by (cases r) auto

lemma payload_emit: "payload (emit out r) = emit out (payload r)"
  by (cases r) simp_all

locale stream_decoder =
  fixes decode :: "'d \<Rightarrow> byte list \<Rightarrow> 'd outcome"
  assumes resume: "decode d s = Incomplete d' out \<Longrightarrow> decode d (s @ t) = emit out (decode d' t)"
begin

text \<open>
  Every outcome of feeding is the outcome of one call on the fragments used, and every shorter
  prefix was incomplete.
\<close>

lemma feed_prefix:
  assumes "xs \<noteq> []"
  shows "\<exists>m. 0 < m \<and> m \<le> length xs \<and> feed_decoder decode d xs = decode d (concat (take m xs)) \<and>
           (m < length xs \<longrightarrow> (\<forall>d' out. feed_decoder decode d xs \<noteq> Incomplete d' out)) \<and>
           (\<forall>k. 0 < k \<and> k < m \<longrightarrow> (\<exists>d' out. decode d (concat (take k xs)) = Incomplete d' out))"
  using assms
proof (induction xs arbitrary: d)
  case Nil
  then show ?case by simp
next
  case (Cons x xs)
  show ?case
  proof (cases "decode d x")
    case (Incomplete d' out)
    show ?thesis
    proof (cases "xs = []")
      case True
      with Incomplete show ?thesis by (intro exI [of _ 1]) simp
    next
      case False
      from Cons.IH [OF this, of d'] obtain m where m: "0 < m" "m \<le> length xs"
        "feed_decoder decode d' xs = decode d' (concat (take m xs))"
        "m < length xs \<longrightarrow> (\<forall>d2 out. feed_decoder decode d' xs \<noteq> Incomplete d2 out)"
        "\<forall>k. 0 < k \<and> k < m \<longrightarrow> (\<exists>d2 out. decode d' (concat (take k xs)) = Incomplete d2 out)" by blast
      have "\<exists>d2 out. decode d (concat (take k (x # xs))) = Incomplete d2 out" if "0 < k" "k < Suc m" for k
      proof (cases "k = 1")
        case True
        with Incomplete show ?thesis by simp
      next
        case False
        with that obtain k' where k: "k = Suc k'" "0 < k'" "k' < m" by (cases k) auto
        with m(5) obtain d2 o2 where "decode d' (concat (take k' xs)) = Incomplete d2 o2" by blast
        with resume [OF Incomplete, of "concat (take k' xs)"] k show ?thesis by simp
      qed
      with resume [OF Incomplete, of "concat (take m xs)"] m Incomplete show ?thesis
        by (intro exI [of _ "Suc m"]) (auto simp: emit_eq_Incomplete)
    qed
  qed (intro exI [of _ 1]; simp)+
qed

end

locale final_decoder = stream_decoder +
  assumes failed: "decode d s = Failed \<Longrightarrow> decode d (s @ t) = Failed"
    and finished: "decode d s = Done d' out rest \<Longrightarrow> decode d (s @ t) = Done d' out (rest @ t)"
    and empty: "decode d [] = Incomplete d []"
begin

lemma feed_done:
  "feed_decoder decode d xs = Done d' p rest \<Longrightarrow> \<exists>later. decode d (concat xs) = Done d' p (rest @ later)"
proof (induction xs arbitrary: d p)
  case (Cons x xs)
  show ?case
  proof (cases "decode d x")
    case (Incomplete d1 out)
    with Cons.prems obtain p1 where "feed_decoder decode d1 xs = Done d' p1 rest" "p = out @ p1"
      by (auto simp: emit_eq_Done)
    with Cons.IH [of d1 p1] resume [OF Incomplete, of "concat xs"] show ?thesis by auto
  next
    case (Done d1 out r)
    with Cons.prems finished [OF Done, of "concat xs"] show ?thesis by auto
  qed (use Cons.prems in simp)
qed simp

lemma feed_whole: "payload (feed_decoder decode d xs) = payload (decode d (concat xs))"
proof (induction xs arbitrary: d)
  case Nil
  then show ?case by (simp add: empty)
next
  case (Cons x xs)
  show ?case
  proof (cases "decode d x")
    case Failed
    with failed [OF Failed, of "concat xs"] show ?thesis by simp
  next
    case (Incomplete d' out)
    with resume [OF Incomplete, of "concat xs"] Cons.IH [of d'] show ?thesis by (simp add: payload_emit)
  next
    case (Done d' out rest)
    with finished [OF Done, of "concat xs"] show ?thesis by simp
  qed
qed

end

section \<open>The chunked decoder as a stream decoder\<close>

lemma chunk_bytes_append:
  "chunk_bytes d (s @ t) =
     (case chunk_bytes d s of
        Failed \<Rightarrow> Failed
      | Incomplete d' out \<Rightarrow> emit out (chunk_bytes d' t)
      | Done d' out rest \<Rightarrow> Done d' out (rest @ t))"
proof (induction s arbitrary: d)
  case Nil
  then show ?case by simp
next
  case (Cons c s)
  show ?case
  proof (cases "chunk_state d = CHUNK_DONE \<or> chunk_byte d c = None")
    case True
    then show ?thesis by auto
  next
    case False
    then obtain d' out where "chunk_byte d c = Some (d', out)" by auto
    with False Cons.IH [of d'] show ?thesis by (cases "chunk_bytes d' s") simp_all
  qed
qed

interpretation chunked: final_decoder chunk_bytes
  by unfold_locales (simp_all add: chunk_bytes_append)

section \<open>The chunked grammar\<close>

text \<open>
  What stands on a size line: at most sixteen digits, then the end of the line or an extension.
  The code lets the digits be missing before an extension.
\<close>

definition line_text :: "byte list \<Rightarrow> bool" where
  "line_text xs \<longleftrightarrow> list_all (\<lambda>c. c \<noteq> CR \<and> c \<noteq> LF) xs"

definition size_line :: "byte list \<Rightarrow> byte list \<Rightarrow> bool" where
  "size_line ds ext \<longleftrightarrow>
     list_all is_hex ds \<and> length ds \<le> 16 \<and>
     (case ext of [] \<Rightarrow> ds \<noteq> [] | c # e \<Rightarrow> c = SEMI \<and> line_text e)"

definition hex_value :: "byte list \<Rightarrow> int" where
  "hex_value ds = foldl (\<lambda>v c. 16 * v + hex_digit c) 0 ds"

inductive data_chunks :: "byte list \<Rightarrow> byte list \<Rightarrow> bool" where
  chunks_Nil: "data_chunks [] []"
| chunks_snoc: "data_chunks w p \<Longrightarrow> size_line ds ext \<Longrightarrow> hex_value ds = int (length xs) \<Longrightarrow> xs \<noteq> [] \<Longrightarrow>
     data_chunks (w @ ds @ ext @ [CR, LF] @ xs @ [CR, LF]) (p @ xs)"

text \<open>All chunks and the size line of the last, empty one.\<close>

inductive all_chunks :: "byte list \<Rightarrow> byte list \<Rightarrow> bool" where
  "data_chunks w p \<Longrightarrow> size_line ds ext \<Longrightarrow> hex_value ds = 0 \<Longrightarrow> all_chunks (w @ ds @ ext @ [CR, LF]) p"

inductive trailer_lines :: "byte list \<Rightarrow> bool" where
  trailer_lines_Nil: "trailer_lines []"
| trailer_lines_snoc: "trailer_lines w \<Longrightarrow> line_text l \<Longrightarrow> l \<noteq> [] \<Longrightarrow> trailer_lines (w @ l @ [CR, LF])"

inductive chunked_body :: "bool \<Rightarrow> byte list \<Rightarrow> byte list \<Rightarrow> bool" where
  chunked_body_plain: "all_chunks w p \<Longrightarrow> chunked_body False w p"
| chunked_body_trailer: "all_chunks w p \<Longrightarrow> trailer_lines t \<Longrightarrow> chunked_body True (w @ t @ [CR, LF]) p"

inductive_simps chunked_body_False: "chunked_body False w p"
inductive_simps chunked_body_True: "chunked_body True w p"

lemma line_text_simps [simp]:
  "line_text []" "line_text (c # xs) \<longleftrightarrow> c \<noteq> CR \<and> c \<noteq> LF \<and> line_text xs"
  "line_text (xs @ ys) \<longleftrightarrow> line_text xs \<and> line_text ys"
  by (simp_all add: line_text_def)

lemma hex_value_Nil [simp]: "hex_value [] = 0"
  by (simp add: hex_value_def)

lemma hex_value_snoc [simp]: "hex_value (ds @ [c]) = 16 * hex_value ds + hex_digit c"
  by (simp add: hex_value_def)

lemma hex_value_range: "list_all is_hex ds \<Longrightarrow> 0 \<le> hex_value ds \<and> hex_value ds < 16 ^ length ds"
proof (induction ds rule: rev_induct)
  case (snoc c ds)
  then show ?case using hex_digit_range [of c] by auto
qed simp

section \<open>Soundness\<close>

text \<open>
  The bytes read so far, the payload they gave and the decoder: one rule per state of the
  machine.
\<close>

inductive read_so_far :: "byte list \<Rightarrow> byte list \<Rightarrow> ihtp_chunked_decoder_t \<Rightarrow> bool" where
  in_size: "data_chunks w p \<Longrightarrow> list_all is_hex ds \<Longrightarrow> length ds \<le> 16 \<Longrightarrow> hex_count d = int (length ds) \<Longrightarrow>
     uint (bytes_left_in_chunk d) = hex_value ds \<Longrightarrow> chunk_state d = CHUNK_SIZE \<Longrightarrow> read_so_far (w @ ds) p d"
| in_ext: "data_chunks w p \<Longrightarrow> size_line ds (SEMI # e) \<Longrightarrow> uint (bytes_left_in_chunk d) = hex_value ds \<Longrightarrow>
     chunk_state d = CHUNK_EXT \<Longrightarrow> read_so_far (w @ ds @ SEMI # e) p d"
| in_size_lf: "data_chunks w p \<Longrightarrow> size_line ds ext \<Longrightarrow> uint (bytes_left_in_chunk d) = hex_value ds \<Longrightarrow>
     chunk_state d = CHUNK_SIZE_LF \<Longrightarrow> read_so_far (w @ ds @ ext @ [CR]) p d"
| in_data: "data_chunks w p \<Longrightarrow> size_line ds ext \<Longrightarrow> int (length xs) + uint (bytes_left_in_chunk d) = hex_value ds \<Longrightarrow>
     bytes_left_in_chunk d \<noteq> 0 \<Longrightarrow> chunk_state d = CHUNK_DATA \<Longrightarrow>
     read_so_far (w @ ds @ ext @ [CR, LF] @ xs) (p @ xs) d"
| in_data_cr: "data_chunks w p \<Longrightarrow> size_line ds ext \<Longrightarrow> hex_value ds = int (length xs) \<Longrightarrow> xs \<noteq> [] \<Longrightarrow>
     chunk_state d = CHUNK_DATA_CR \<Longrightarrow> read_so_far (w @ ds @ ext @ [CR, LF] @ xs) (p @ xs) d"
| in_data_lf: "data_chunks w p \<Longrightarrow> size_line ds ext \<Longrightarrow> hex_value ds = int (length xs) \<Longrightarrow> xs \<noteq> [] \<Longrightarrow>
     chunk_state d = CHUNK_DATA_LF \<Longrightarrow> read_so_far (w @ ds @ ext @ [CR, LF] @ xs @ [CR]) (p @ xs) d"
| at_trailer: "all_chunks w p \<Longrightarrow> trailer_lines t \<Longrightarrow> consume_trailer d \<Longrightarrow>
     chunk_state d = CHUNK_TRAILER \<Longrightarrow> hex_count d = TRAILER_LINE_START \<Longrightarrow> read_so_far (w @ t) p d"
| at_trailer_end: "all_chunks w p \<Longrightarrow> trailer_lines t \<Longrightarrow> consume_trailer d \<Longrightarrow>
     chunk_state d = CHUNK_TRAILER \<Longrightarrow> hex_count d = TRAILER_DONE_LF \<Longrightarrow> read_so_far (w @ t @ [CR]) p d"
| in_trailer_line: "all_chunks w p \<Longrightarrow> trailer_lines t \<Longrightarrow> line_text l \<Longrightarrow> l \<noteq> [] \<Longrightarrow> consume_trailer d \<Longrightarrow>
     chunk_state d = CHUNK_TRAILER \<Longrightarrow> hex_count d = TRAILER_LINE \<Longrightarrow> read_so_far (w @ t @ l) p d"
| at_trailer_line_end: "all_chunks w p \<Longrightarrow> trailer_lines t \<Longrightarrow> line_text l \<Longrightarrow> l \<noteq> [] \<Longrightarrow> consume_trailer d \<Longrightarrow>
     chunk_state d = CHUNK_TRAILER \<Longrightarrow> hex_count d = TRAILER_LINE_LF \<Longrightarrow> read_so_far (w @ t @ l @ [CR]) p d"
| at_end: "chunked_body (consume_trailer d) w p \<Longrightarrow> chunk_state d = CHUNK_DONE \<Longrightarrow> read_so_far w p d"

lemma read_start: "read_so_far [] [] (zero_decoder ct)"
  using in_size [OF chunks_Nil, of "[]" "zero_decoder ct"] by (simp add: zero_decoder_def)

text \<open>Bytes are appended to the text read so far; the rules in the form a step leaves.\<close>

lemma is_hex_uint_left:
  assumes "list_all is_hex ds" and "length ds < 16" and "is_hex c" and "uint left = hex_value ds"
  shows "uint (left * 16 + ihtp_hex_digit_to_u64 c :: 64 word) = hex_value (ds @ [c])"
  using size_step [of left "int (length ds)" c] hex_value_range [OF assms(1)] assms by simp

lemma read_step:
  assumes "read_so_far w p d" and "chunk_byte d c = Some (d', out)"
  shows "read_so_far (w @ [c]) (p @ out) d'"
  using assms
proof (cases rule: read_so_far.cases)
  case (in_size v ds)
  show ?thesis
  proof (cases "is_hex c")
    case True
    with in_size assms(2) have len: "length ds < 16" and out: "out = []" and
      d': "d' = d\<lparr> bytes_left_in_chunk := bytes_left_in_chunk d * 16 + ihtp_hex_digit_to_u64 c,
                    hex_count := hex_count d + 1 \<rparr>"
      by (auto simp: chunk_byte_def split: if_splits)
    from is_hex_uint_left [OF in_size(3) len True in_size(6)] in_size len True
    have "read_so_far (v @ (ds @ [c])) p d'"
      by (intro read_so_far.in_size) (simp_all add: d')
    with in_size(1) out show ?thesis by simp
  next
    case False
    with in_size assms(2) consider "c = SEMI" "d' = d\<lparr> chunk_state := CHUNK_EXT \<rparr>" "out = []"
      | "c = CR" "hex_count d \<noteq> 0" "d' = d\<lparr> chunk_state := CHUNK_SIZE_LF \<rparr>" "out = []"
      by (auto simp: chunk_byte_def split: if_splits)
    then show ?thesis
    proof cases
      case 1
      with in_size in_ext [of v p ds "[]" d'] show ?thesis by (simp add: size_line_def)
    next
      case 2
      with in_size in_size_lf [of v p ds "[]" d'] show ?thesis by (simp add: size_line_def)
    qed
  qed
next
  case (in_ext v ds e)
  from in_ext assms(2) consider "c = CR" "d' = d\<lparr> chunk_state := CHUNK_SIZE_LF \<rparr>" "out = []"
    | "c \<noteq> CR" "c \<noteq> LF" "d' = d" "out = []"
    by (auto simp: chunk_byte_def chunk_states split: if_splits)
  then show ?thesis
  proof cases
    case 1
    with in_ext in_size_lf [of v p ds "SEMI # e" d'] show ?thesis by simp
  next
    case 2
    with in_ext read_so_far.in_ext [of v p ds "e @ [c]" d'] show ?thesis by (simp add: size_line_def)
  qed
next
  case (in_size_lf v ds ext)
  have c: "c = LF" using in_size_lf assms(2) by (simp add: chunk_byte_def chunk_states split: if_splits)
  show ?thesis
  proof (cases "bytes_left_in_chunk d = 0")
    case True
    then have all: "all_chunks (v @ ds @ ext @ [CR, LF]) p"
      using in_size_lf by (intro all_chunks.intros) simp_all
    show ?thesis
    proof (cases "consume_trailer d")
      case t: True
      with in_size_lf True assms(2) at_trailer [OF all trailer_lines_Nil, of d'] c show ?thesis
        by (auto simp: chunk_byte_def chunk_states)
    next
      case False
      with in_size_lf True assms(2) at_end [of d' "v @ ds @ ext @ [CR, LF]" p] chunked_body_plain [OF all] c
      show ?thesis by (auto simp: chunk_byte_def chunk_states)
    qed
  next
    case False
    with in_size_lf assms(2) in_data [of v p ds ext "[]" d'] c show ?thesis
      by (auto simp: chunk_byte_def chunk_states)
  qed
next
  case (in_data v q ds ext xs)
  define e where "e = d\<lparr> bytes_left_in_chunk := bytes_left_in_chunk d - 1,
                          chunk_total_decoded := chunk_total_decoded d + 1 \<rparr>"
  have left: "uint (bytes_left_in_chunk d - 1) = uint (bytes_left_in_chunk d) - 1"
  proof -
    have "uint (1 :: 64 word) \<le> uint (bytes_left_in_chunk d)"
      using in_data(6) by (simp add: word_neq_0_conv word_less_def)
    then have "uint (bytes_left_in_chunk d - 1) = uint (bytes_left_in_chunk d) - uint (1 :: 64 word)"
      by (simp only: uint_sub_lem)
    then show ?thesis by simp
  qed
  have r: "d' = (if bytes_left_in_chunk e = 0 then e\<lparr> chunk_state := CHUNK_DATA_CR \<rparr> else e)" "out = [c]"
    using in_data(7) assms(2) by (auto simp: chunk_byte_def chunk_states Let_def e_def split: if_splits)
  show ?thesis
  proof (cases "bytes_left_in_chunk d - 1 = 0")
    case True
    with left have "uint (bytes_left_in_chunk d) = 1" by simp
    with r in_data True in_data_cr [of v q ds ext "xs @ [c]" d'] show ?thesis by (simp add: e_def)
  next
    case False
    with r in_data left read_so_far.in_data [of v q ds ext "xs @ [c]" d'] show ?thesis by (simp add: e_def)
  qed
next
  case (in_data_cr v q ds ext xs)
  with assms(2) in_data_lf [of v q ds ext xs d'] show ?thesis
    by (auto simp: chunk_byte_def chunk_states split: if_splits)
next
  case (in_data_lf v q ds ext xs)
  with assms(2) in_size [OF chunks_snoc, of v q ds ext xs "[]" d'] show ?thesis
    by (auto simp: chunk_byte_def chunk_states split: if_splits)
next
  case (at_trailer v t)
  with assms(2) at_trailer_end [of v p t d'] in_trailer_line [of v p t "[c]" d'] show ?thesis
    by (auto simp: chunk_byte_def chunk_states split: if_splits)
next
  case (at_trailer_end v t)
  with assms(2) at_end [of d' "v @ t @ [CR, LF]" p] chunked_body_trailer [of v p t] show ?thesis
    by (auto simp: chunk_byte_def chunk_states split: if_splits)
next
  case (in_trailer_line v t l)
  with assms(2) at_trailer_line_end [of v p t l d'] read_so_far.in_trailer_line [of v p t "l @ [c]" d'] show ?thesis
    by (auto simp: chunk_byte_def chunk_states split: if_splits)
next
  case (at_trailer_line_end v t l)
  with assms(2) at_trailer [of v p "t @ l @ [CR, LF]" d'] trailer_lines_snoc [of t l] show ?thesis
    by (auto simp: chunk_byte_def chunk_states split: if_splits)
next
  case at_end
  with assms(2) show ?thesis by (simp add: chunk_byte_def chunk_states)
qed

lemma chunk_byte_total:
  "chunk_byte d c = Some (d', out) \<Longrightarrow> consume_trailer d' = consume_trailer d \<and>
     chunk_total_decoded d' = chunk_total_decoded d + word_of_nat (length out)"
  by (auto simp: chunk_byte_def Let_def split: if_splits)

text \<open>What the automaton has read at every outcome.\<close>

lemma read_run:
  assumes "read_so_far w p d"
  shows "case chunk_bytes d s of
           Failed \<Rightarrow> True
         | Incomplete d' out \<Rightarrow> read_so_far (w @ s) (p @ out) d' \<and> (s \<noteq> [] \<longrightarrow> chunk_state d' \<noteq> CHUNK_DONE)
         | Done d' out rest \<Rightarrow> \<exists>v. s = v @ rest \<and> read_so_far (w @ v) (p @ out) d' \<and> chunk_state d' = CHUNK_DONE"
  using assms
proof (induction s arbitrary: w p d)
  case Nil
  then show ?case by simp
next
  case (Cons c s)
  show ?case
  proof (cases "chunk_state d = CHUNK_DONE \<or> chunk_byte d c = None")
    case True
    with Cons.prems show ?thesis by auto
  next
    case False
    then obtain d' out where b: "chunk_byte d c = Some (d', out)" by auto
    note read_step [OF Cons.prems b]
    note ih = Cons.IH [OF this]
    show ?thesis
    proof (cases "chunk_state d' = CHUNK_DONE")
      case True
      with False b \<open>read_so_far (w @ [c]) (p @ out) d'\<close> show ?thesis
        by (auto intro!: exI [of _ "[c]"])
    next
      case f: False
      show ?thesis
      proof (cases "chunk_bytes d' s")
        case (Incomplete d2 o2)
        with ih f False b show ?thesis by (cases s) auto
      next
        case (Done d2 o2 rest)
        with ih obtain v where "s = v @ rest" "read_so_far (w @ c # v) (p @ out @ o2) d2" "chunk_state d2 = CHUNK_DONE"
          by auto
        with Done f False b show ?thesis by (auto intro!: exI [of _ "c # v"])
      qed (use False b f in simp)
    qed
  qed
qed

lemma run_total:
  "(case chunk_bytes d s of
      Failed \<Rightarrow> True
    | Incomplete d' out \<Rightarrow> chunk_total_decoded d' = chunk_total_decoded d + word_of_nat (length out) \<and>
        consume_trailer d' = consume_trailer d
    | Done d' out rest \<Rightarrow> chunk_total_decoded d' = chunk_total_decoded d + word_of_nat (length out) \<and>
        consume_trailer d' = consume_trailer d)"
proof (induction s arbitrary: d)
  case Nil
  then show ?case by simp
next
  case (Cons c s)
  show ?case
  proof (cases "chunk_byte d c")
    case (Some r)
    then obtain d' out where b: "chunk_byte d c = Some (d', out)" by (cases r) auto
    from chunk_byte_total [OF b] Cons.IH [of d'] b show ?thesis
      by (cases "chunk_bytes d' s") auto
  qed simp
qed

lemma done_inv: "read_so_far w p d \<Longrightarrow> chunk_state d = CHUNK_DONE \<Longrightarrow> chunked_body (consume_trailer d) w p"
  by (cases rule: read_so_far.cases) (auto simp: chunk_states)

lemma chunked_sound:
  assumes "chunk_bytes (zero_decoder ct) s = Done d p rest"
  shows "\<exists>w. s = w @ rest \<and> chunked_body ct w p"
  using read_run [OF read_start [of ct], of s] run_total [of "zero_decoder ct" s] assms
  by (auto simp: zero_decoder_def dest!: done_inv)

section \<open>Completeness\<close>

text \<open>A run over \<open>xs\<close> that does not finish the body.\<close>

definition runs :: "ihtp_chunked_decoder_t \<Rightarrow> byte list \<Rightarrow> byte list \<Rightarrow> ihtp_chunked_decoder_t \<Rightarrow> bool" where
  "runs d xs out d' \<longleftrightarrow> (\<forall>s. chunk_bytes d (xs @ s) = emit out (chunk_bytes d' s))"

lemma runs_Nil: "runs d [] [] d"
  by (simp add: runs_def)

lemma runs_append: "runs d xs out d1 \<Longrightarrow> runs d1 ys out1 d2 \<Longrightarrow> runs d (xs @ ys) (out @ out1) d2"
  by (simp add: runs_def)

lemma runs_byte:
  "chunk_byte d c = Some (d', out) \<Longrightarrow> chunk_state d \<noteq> CHUNK_DONE \<Longrightarrow> chunk_state d' \<noteq> CHUNK_DONE \<Longrightarrow>
     runs d [c] out d'"
  by (simp add: runs_def)

text \<open>The decoder at the start of a chunk.\<close>

definition at_chunk :: "bool \<Rightarrow> 64 word \<Rightarrow> ihtp_chunked_decoder_t" where
  "at_chunk ct tot =
     \<lparr> bytes_left_in_chunk = 0, chunk_total_decoded = tot, hex_count = 0, chunk_state = CHUNK_SIZE,
       consume_trailer = ct \<rparr>"

lemma zero_decoder_at_chunk: "zero_decoder ct = at_chunk ct 0"
  by (simp add: zero_decoder_def at_chunk_def)

lemma runs_digits:
  assumes "list_all is_hex ds" and "length ds \<le> 16"
  shows "\<exists>left. uint left = hex_value ds \<and>
           runs (at_chunk ct tot) ds []
             (at_chunk ct tot \<lparr> bytes_left_in_chunk := left, hex_count := int (length ds) \<rparr>)"
  using assms
proof (induction ds rule: rev_induct)
  case Nil
  then show ?case by (intro exI [of _ 0]) (simp add: runs_Nil at_chunk_def)
next
  case (snoc c ds)
  then obtain left where left: "uint left = hex_value ds" and
    run: "runs (at_chunk ct tot) ds []
            (at_chunk ct tot \<lparr> bytes_left_in_chunk := left, hex_count := int (length ds) \<rparr>)" by auto
  let ?left = "left * 16 + ihtp_hex_digit_to_u64 c"
  have v: "uint ?left = hex_value (ds @ [c])"
    using is_hex_uint_left [of ds c left] left snoc.prems by simp
  have "runs (at_chunk ct tot \<lparr> bytes_left_in_chunk := left, hex_count := int (length ds) \<rparr>) [c] []
          (at_chunk ct tot \<lparr> bytes_left_in_chunk := ?left, hex_count := int (length (ds @ [c])) \<rparr>)"
    using snoc.prems by (intro runs_byte) (simp_all add: chunk_byte_def at_chunk_def chunk_states)
  from runs_append [OF run this] v show ?case by auto
qed

lemma runs_ext:
  assumes "line_text e" and "chunk_state d = CHUNK_EXT"
  shows "runs d e [] d"
  using assms
proof (induction e)
  case (Cons c e)
  then have "runs d [c] [] d" by (intro runs_byte) (simp_all add: chunk_byte_def chunk_states)
  from runs_append [OF this, of e "[]" d] Cons show ?case by simp
qed (simp add: runs_Nil)

lemma runs_size_line:
  assumes "size_line ds ext"
  shows "\<exists>left h. uint left = hex_value ds \<and>
           runs (at_chunk ct tot) (ds @ ext @ [CR]) []
             (at_chunk ct tot \<lparr> bytes_left_in_chunk := left, hex_count := h, chunk_state := CHUNK_SIZE_LF \<rparr>)"
proof -
  from assms have ds: "list_all is_hex ds" "length ds \<le> 16" by (simp_all add: size_line_def)
  from runs_digits [OF this, of ct tot] obtain left where left: "uint left = hex_value ds" and
    run: "runs (at_chunk ct tot) ds []
            (at_chunk ct tot \<lparr> bytes_left_in_chunk := left, hex_count := int (length ds) \<rparr>)" by auto
  let ?d = "at_chunk ct tot \<lparr> bytes_left_in_chunk := left, hex_count := int (length ds) \<rparr>"
  have cr: "runs (?d\<lparr> chunk_state := s \<rparr>) [CR] [] (?d\<lparr> chunk_state := CHUNK_SIZE_LF \<rparr>)"
    if "s = CHUNK_EXT \<or> s = CHUNK_SIZE \<and> ds \<noteq> []" for s
    using that by (intro runs_byte) (auto simp: chunk_byte_def at_chunk_def chunk_states is_hex_def)
  have "runs ?d (ext @ [CR]) [] (?d\<lparr> chunk_state := CHUNK_SIZE_LF \<rparr>)"
  proof (cases ext)
    case Nil
    with assms cr [of CHUNK_SIZE] show ?thesis by (simp add: size_line_def at_chunk_def)
  next
    case (Cons c e)
    with assms have c: "c = SEMI" and e: "line_text e" by (simp_all add: size_line_def)
    have "runs ?d [SEMI] [] (?d\<lparr> chunk_state := CHUNK_EXT \<rparr>)"
      by (intro runs_byte) (simp_all add: chunk_byte_def at_chunk_def chunk_states is_hex_def)
    from runs_append [OF this runs_append [OF runs_ext [OF e] cr [of CHUNK_EXT]]] c Cons
    show ?thesis by simp
  qed
  from runs_append [OF run this] left show ?thesis by auto
qed

lemma runs_data:
  assumes "chunk_state d = CHUNK_DATA" and "unat (bytes_left_in_chunk d) = length xs" and "xs \<noteq> []"
  shows "runs d xs xs (data_after d (length xs))"
  using data_run [OF assms(1,3)] assms(2) by (simp add: runs_def)

lemma runs_chunk:
  assumes "size_line ds ext" and "hex_value ds = int (length xs)" and "xs \<noteq> []"
  shows "runs (at_chunk ct tot) (ds @ ext @ [CR, LF] @ xs @ [CR, LF]) xs
           (at_chunk ct (tot + word_of_nat (length xs)))"
proof -
  from runs_size_line [OF assms(1), of ct tot] obtain left h where left: "uint left = hex_value ds" and
    line: "runs (at_chunk ct tot) (ds @ ext @ [CR]) []
       (at_chunk ct tot \<lparr> bytes_left_in_chunk := left, hex_count := h, chunk_state := CHUNK_SIZE_LF \<rparr>)" by blast
  have n: "unat left = length xs" using left assms(2) by (simp add: unat_eq_nat_uint)
  then have nz: "left \<noteq> 0" using assms(3) by auto
  have w: "word_of_nat (length xs) = left" by (simp flip: n)
  let ?d = "\<lambda>s l t. at_chunk ct t \<lparr> bytes_left_in_chunk := l, hex_count := h, chunk_state := s \<rparr>"
  let ?t = "tot + word_of_nat (length xs)"
  have lf: "runs (?d CHUNK_SIZE_LF left tot) [LF] [] (?d CHUNK_DATA left tot)"
    using nz by (intro runs_byte) (simp_all add: chunk_byte_def at_chunk_def chunk_states)
  have data: "runs (?d CHUNK_DATA left tot) xs xs (?d CHUNK_DATA_CR 0 ?t)"
    using runs_data [of "?d CHUNK_DATA left tot" xs] n assms(3) w by (simp add: data_after_def at_chunk_def)
  have cr: "runs (?d CHUNK_DATA_CR 0 ?t) [CR] [] (?d CHUNK_DATA_LF 0 ?t)"
    by (intro runs_byte) (simp_all add: chunk_byte_def at_chunk_def chunk_states)
  have lf2: "runs (?d CHUNK_DATA_LF 0 ?t) [LF] [] (at_chunk ct ?t)"
    by (intro runs_byte) (simp_all add: chunk_byte_def at_chunk_def chunk_states)
  show ?thesis
    using runs_append [OF line runs_append [OF lf runs_append [OF data runs_append [OF cr lf2]]]] by simp
qed

lemma runs_chunks: "data_chunks w p \<Longrightarrow> runs (at_chunk ct tot) w p (at_chunk ct (tot + word_of_nat (length p)))"
proof (induction rule: data_chunks.induct)
  case chunks_Nil
  then show ?case by (simp add: runs_Nil)
next
  case (chunks_snoc w p ds ext xs)
  from runs_append [OF chunks_snoc.IH runs_chunk [OF chunks_snoc(2-4), of ct "tot + word_of_nat (length p)"]]
  show ?case by (simp add: add.assoc)
qed

lemma runs_trailer_line:
  assumes "line_text l" and "l \<noteq> []" and "chunk_state d = CHUNK_TRAILER" and "hex_count d = TRAILER_LINE_START"
  shows "runs d (l @ [CR, LF]) [] d"
proof -
  let ?d = "\<lambda>h. d\<lparr> hex_count := h \<rparr>"
  have line: "runs (?d TRAILER_LINE) xs [] (?d TRAILER_LINE)" if "line_text xs" for xs
    using that
  proof (induction xs)
    case (Cons c xs)
    then have "runs (?d TRAILER_LINE) [c] [] (?d TRAILER_LINE)"
      using assms(3) by (intro runs_byte) (simp_all add: chunk_byte_def chunk_states)
    from runs_append [OF this, of xs "[]"] Cons show ?case by simp
  qed (simp add: runs_Nil)
  obtain c xs where l: "l = c # xs" using assms(2) by (cases l) auto
  have start: "runs d [c] [] (?d TRAILER_LINE)"
    using assms l by (intro runs_byte) (simp_all add: chunk_byte_def chunk_states)
  have cr: "runs (?d TRAILER_LINE) [CR] [] (?d TRAILER_LINE_LF)"
    using assms by (intro runs_byte) (simp_all add: chunk_byte_def chunk_states)
  have lf: "runs (?d TRAILER_LINE_LF) [LF] [] d"
    using assms by (intro runs_byte) (simp_all add: chunk_byte_def chunk_states)
  show ?thesis
    using runs_append [OF start runs_append [OF line [of xs] runs_append [OF cr lf]]] assms(1) l by simp
qed

lemma runs_trailer_lines:
  "trailer_lines t \<Longrightarrow> chunk_state d = CHUNK_TRAILER \<Longrightarrow> hex_count d = TRAILER_LINE_START \<Longrightarrow> runs d t [] d"
proof (induction rule: trailer_lines.induct)
  case trailer_lines_Nil
  then show ?case by (simp add: runs_Nil)
next
  case (trailer_lines_snoc w l)
  from runs_append [OF trailer_lines_snoc.IH runs_trailer_line] trailer_lines_snoc show ?case by simp
qed

lemma run_last_size:
  assumes "all_chunks w p"
  shows "\<exists>h. \<forall>s. chunk_bytes (at_chunk ct tot) (w @ s) =
           emit p (chunk_bytes (at_chunk ct (tot + word_of_nat (length p))
                                \<lparr> hex_count := h, chunk_state := CHUNK_SIZE_LF \<rparr>) (LF # drop (length w) (w @ s)))"
  using assms
proof cases
  case (1 v ds ext)
  note runs_size_line [OF 1(3), of ct "tot + word_of_nat (length p)"]
  then obtain left h where left: "uint left = hex_value ds" and
    line: "runs (at_chunk ct (tot + word_of_nat (length p))) (ds @ ext @ [CR]) []
       (at_chunk ct (tot + word_of_nat (length p))
          \<lparr> bytes_left_in_chunk := left, hex_count := h, chunk_state := CHUNK_SIZE_LF \<rparr>)" by blast
  from left 1(4) have "left = 0" by (simp add: uint_0_iff)
  with runs_append [OF runs_chunks [OF 1(2), of ct tot] line] 1(1) show ?thesis
    by (intro exI [of _ h]) (simp add: runs_def at_chunk_def)
qed

lemma chunked_complete:
  assumes "chunked_body ct w p"
  shows "\<exists>d. \<forall>rest. chunk_bytes (at_chunk ct tot) (w @ rest) = Done d p rest"
  using assms
proof cases
  case chunked_body_plain
  from run_last_size [OF chunked_body_plain(2), of False tot] obtain h where
    "\<forall>s. chunk_bytes (at_chunk False tot) (w @ s) =
       emit p (chunk_bytes (at_chunk False (tot + word_of_nat (length p))
                            \<lparr> hex_count := h, chunk_state := CHUNK_SIZE_LF \<rparr>) (LF # s))" by auto
  with chunked_body_plain(1) show ?thesis by (simp add: chunk_byte_def at_chunk_def chunk_states)
next
  case (chunked_body_trailer v t)
  let ?d = "at_chunk True (tot + word_of_nat (length p))"
  from run_last_size [OF chunked_body_trailer(3), of True tot] obtain h where
    v: "\<forall>s. chunk_bytes (at_chunk True tot) (v @ s) =
       emit p (chunk_bytes (?d\<lparr> hex_count := h, chunk_state := CHUNK_SIZE_LF \<rparr>) (LF # s))" by auto
  have lf: "runs (?d\<lparr> hex_count := h, chunk_state := CHUNK_SIZE_LF \<rparr>) [LF] []
      (?d\<lparr> hex_count := TRAILER_LINE_START, chunk_state := CHUNK_TRAILER \<rparr>)"
    by (intro runs_byte) (simp_all add: chunk_byte_def at_chunk_def chunk_states)
  have t: "runs (?d\<lparr> hex_count := TRAILER_LINE_START, chunk_state := CHUNK_TRAILER \<rparr>) t []
      (?d\<lparr> hex_count := TRAILER_LINE_START, chunk_state := CHUNK_TRAILER \<rparr>)"
    using chunked_body_trailer(4) by (rule runs_trailer_lines) simp_all
  have cr: "runs (?d\<lparr> hex_count := TRAILER_LINE_START, chunk_state := CHUNK_TRAILER \<rparr>) [CR] []
      (?d\<lparr> hex_count := TRAILER_DONE_LF, chunk_state := CHUNK_TRAILER \<rparr>)"
    by (intro runs_byte) (simp_all add: chunk_byte_def at_chunk_def chunk_states)
  have tail: "chunk_bytes (?d\<lparr> hex_count := h, chunk_state := CHUNK_SIZE_LF \<rparr>) ([LF] @ t @ [CR] @ s) =
      chunk_bytes (?d\<lparr> hex_count := TRAILER_DONE_LF, chunk_state := CHUNK_TRAILER \<rparr>) s" for s
    using runs_append [OF lf runs_append [OF t cr]] by (simp add: runs_def)
  have "chunk_bytes (at_chunk True tot) (w @ rest) =
      Done (?d\<lparr> hex_count := TRAILER_DONE_LF, chunk_state := CHUNK_DONE \<rparr>) p rest" for rest
    using v [rule_format, of "t @ [CR, LF] @ rest"] tail [of "LF # rest"] chunked_body_trailer(2)
    by (simp add: chunk_byte_def at_chunk_def chunk_states)
  with chunked_body_trailer(1) show ?thesis by blast
qed

lemma chunk_bytes_accepts:
  "(\<exists>d. chunk_bytes (zero_decoder ct) s = Done d p rest) \<longleftrightarrow> (\<exists>w. s = w @ rest \<and> chunked_body ct w p)"
  using chunked_sound [of ct s] chunked_complete [of ct _ p 0] unfolding zero_decoder_at_chunk by blast

section \<open>Viable prefixes\<close>

text \<open>Whatever was read without an error can be completed to a chunked body.\<close>

abbreviation viable :: "bool \<Rightarrow> byte list \<Rightarrow> bool" where
  "viable ct w \<equiv> \<exists>t p. t \<noteq> [] \<and> chunked_body ct (w @ t) p"

lemma complete_all_chunks:
  assumes "all_chunks w p"
  shows "\<exists>t q. chunked_body ct (w @ t) q"
proof (cases ct)
  case True
  with chunked_body_trailer [OF assms trailer_lines_Nil] show ?thesis
    by (intro exI [of _ "[CR, LF]"] exI [of _ p]) simp
next
  case False
  with chunked_body_plain [OF assms] show ?thesis by (intro exI [of _ "[]"] exI [of _ p]) simp
qed

lemma complete_chunks:
  assumes "data_chunks w p"
  shows "viable ct w"
proof -
  have "size_line [0x30] []" "hex_value [0x30] = 0"
    by (simp_all add: size_line_def is_hex_def hex_value_def hex_digit_def)
  from complete_all_chunks [OF all_chunks.intros [OF assms this], of ct] obtain t q
    where "chunked_body ct ((w @ [0x30] @ [] @ [CR, LF]) @ t) q" by blast
  then show ?thesis by (intro exI [of _ "[0x30, CR, LF] @ t"] exI [of _ q]) simp
qed

lemma complete_size_line:
  assumes "data_chunks w p" and "size_line ds ext"
  shows "\<exists>t q. chunked_body ct (w @ ds @ ext @ [CR, LF] @ t) q"
proof (cases "hex_value ds = 0")
  case True
  from complete_all_chunks [OF all_chunks.intros [OF assms True], of ct] show ?thesis by simp
next
  case False
  have "0 \<le> hex_value ds" using hex_value_range [of ds] assms(2) by (simp add: size_line_def)
  with False have v: "hex_value ds = int (length (replicate (nat (hex_value ds)) (0 :: byte)))"
    and ne: "replicate (nat (hex_value ds)) (0 :: byte) \<noteq> []" by simp_all
  from complete_chunks [OF chunks_snoc [OF assms v ne], of ct] obtain t q where
    "chunked_body ct ((w @ ds @ ext @ [CR, LF] @ replicate (nat (hex_value ds)) 0 @ [CR, LF]) @ t) q" by blast
  then show ?thesis
    by (intro exI [of _ "replicate (nat (hex_value ds)) 0 @ [CR, LF] @ t"] exI [of _ q]) simp
qed

lemma complete_data:
  assumes "data_chunks w p" and "size_line ds ext" and "hex_value ds = int (length xs)" and "xs \<noteq> []"
  shows "\<exists>t q. chunked_body ct (w @ ds @ ext @ [CR, LF] @ xs @ [CR, LF] @ t) q"
  using complete_chunks [OF chunks_snoc [OF assms], of ct] by auto

lemma read_viable:
  assumes "read_so_far w p d" and "chunk_state d \<noteq> CHUNK_DONE"
  shows "viable (consume_trailer d) w"
  using assms(1)
proof cases
  case (in_size v ds)
  show ?thesis
  proof (cases "ds = []")
    case True
    with in_size complete_chunks [OF in_size(2)] show ?thesis by simp
  next
    case False
    with in_size have "size_line ds []" by (simp add: size_line_def)
    from complete_size_line [OF in_size(2) this, of "consume_trailer d"] obtain t q where
      "chunked_body (consume_trailer d) (v @ ds @ [] @ [CR, LF] @ t) q" by blast
    with in_size(1) show ?thesis by (intro exI [of _ "[CR, LF] @ t"] exI [of _ q]) simp
  qed
next
  case (in_ext v ds e)
  from complete_size_line [OF in_ext(2,3), of "consume_trailer d"] obtain t q where
    "chunked_body (consume_trailer d) (v @ ds @ (SEMI # e) @ [CR, LF] @ t) q" by blast
  with in_ext(1) show ?thesis by (intro exI [of _ "[CR, LF] @ t"] exI [of _ q]) simp
next
  case (in_size_lf v ds ext)
  from complete_size_line [OF in_size_lf(2,3), of "consume_trailer d"] obtain t q where
    "chunked_body (consume_trailer d) (v @ ds @ ext @ [CR, LF] @ t) q" by blast
  with in_size_lf(1) show ?thesis by (intro exI [of _ "[LF] @ t"] exI [of _ q]) simp
next
  case (in_data v q ds ext xs)
  define ys where "ys = replicate (unat (bytes_left_in_chunk d)) (0 :: byte)"
  have "int (length ys) = uint (bytes_left_in_chunk d)" by (simp add: ys_def)
  with in_data(5) have v: "hex_value ds = int (length (xs @ ys))" unfolding length_append by linarith
  have "ys \<noteq> []" using in_data(6) by (simp add: ys_def unat_eq_zero)
  then have "xs @ ys \<noteq> []" by simp
  from complete_data [OF in_data(3,4) v this, of "consume_trailer d"] obtain t r where
    "chunked_body (consume_trailer d) (v @ ds @ ext @ [CR, LF] @ (xs @ ys) @ [CR, LF] @ t) r" by blast
  with in_data(1) show ?thesis by (intro exI [of _ "ys @ [CR, LF] @ t"] exI [of _ r]) simp
next
  case (in_data_cr v q ds ext xs)
  from complete_data [OF in_data_cr(3-6), of "consume_trailer d"] obtain t r where
    "chunked_body (consume_trailer d) (v @ ds @ ext @ [CR, LF] @ xs @ [CR, LF] @ t) r" by blast
  with in_data_cr(1) show ?thesis by (intro exI [of _ "[CR, LF] @ t"] exI [of _ r]) simp
next
  case (in_data_lf v q ds ext xs)
  from complete_data [OF in_data_lf(3-6), of "consume_trailer d"] obtain t r where
    "chunked_body (consume_trailer d) (v @ ds @ ext @ [CR, LF] @ xs @ [CR, LF] @ t) r" by blast
  with in_data_lf(1) show ?thesis by (intro exI [of _ "[LF] @ t"] exI [of _ r]) simp
next
  case (at_trailer v t)
  with chunked_body_trailer [of v p t] show ?thesis by (intro exI [of _ "[CR, LF]"] exI [of _ p]) simp
next
  case (at_trailer_end v t)
  with chunked_body_trailer [of v p t] show ?thesis by (intro exI [of _ "[LF]"] exI [of _ p]) simp
next
  case (in_trailer_line v t l)
  with chunked_body_trailer [OF _ trailer_lines_snoc [of t l], of v p] show ?thesis
    by (intro exI [of _ "[CR, LF, CR, LF]"] exI [of _ p]) simp
next
  case (at_trailer_line_end v t l)
  with chunked_body_trailer [OF _ trailer_lines_snoc [of t l], of v p] show ?thesis
    by (intro exI [of _ "[LF, CR, LF]"] exI [of _ p]) simp
next
  case at_end
  with assms(2) show ?thesis by simp
qed

text \<open>The verdict on any input, as the grammar has it.\<close>

definition chunk_verdict :: "bool \<Rightarrow> byte list \<Rightarrow> ihtp_chunked_decoder_t outcome \<Rightarrow> bool" where
  "chunk_verdict ct s r =
     (case r of
        Done d p rest \<Rightarrow> (\<exists>w. s = w @ rest \<and> chunked_body ct w p) \<and> chunk_total_decoded d = word_of_nat (length p)
      | Incomplete d out \<Rightarrow> viable ct s \<and> chunk_total_decoded d = word_of_nat (length out) \<and>
          (\<forall>t p. chunked_body ct (s @ t) p \<longrightarrow> (\<exists>more. p = out @ more))
      | Failed \<Rightarrow> (\<forall>w rest p. s = w @ rest \<longrightarrow> \<not> chunked_body ct w p) \<and> (\<forall>t p. \<not> chunked_body ct (s @ t) p))"

lemma chunk_bytes_body:
  assumes "chunked_body ct w p"
  shows "\<exists>d. \<forall>rest. chunk_bytes (zero_decoder ct) (w @ rest) = Done d p rest"
  using chunked_complete [OF assms, of 0] by (simp add: zero_decoder_at_chunk)

lemma chunk_bytes_verdict: "chunk_verdict ct s (chunk_bytes (zero_decoder ct) s)"
proof (cases "chunk_bytes (zero_decoder ct) s")
  case Failed
  have "\<not> chunked_body ct w p" if "s = w @ rest" for w rest p
    using chunk_bytes_body [of ct w p] Failed that by auto
  moreover have "\<not> chunked_body ct (s @ t) p" for t p
    using chunk_bytes_body [of ct "s @ t" p] chunked.failed [OF Failed, of t] by (metis append_Nil2 outcome.distinct(3))
  ultimately show ?thesis using Failed by (simp add: chunk_verdict_def)
next
  case (Incomplete d out)
  have run: "chunk_total_decoded d = word_of_nat (length out)" "consume_trailer d = ct"
    using run_total [of "zero_decoder ct" s] Incomplete by (simp_all add: zero_decoder_def)
  have rd: "read_so_far s out d" "s \<noteq> [] \<longrightarrow> chunk_state d \<noteq> CHUNK_DONE"
    using read_run [OF read_start [of ct], of s] Incomplete by simp_all
  have "chunk_state d \<noteq> CHUNK_DONE"
  proof (cases "s = []")
    case True
    with Incomplete have "d = zero_decoder ct" by simp
    then show ?thesis by (simp add: zero_decoder_def chunk_states)
  qed (use rd in simp)
  from read_viable [OF rd(1) this] run have "viable ct s" by simp
  moreover have "\<exists>more. p = out @ more" if "chunked_body ct (s @ t) p" for t p
    using chunk_bytes_body [OF that] chunked.resume [OF Incomplete, of t]
    by (metis append_Nil2 emit_eq_Done)
  ultimately show ?thesis using Incomplete run by (simp add: chunk_verdict_def)
next
  case (Done d p rest)
  with chunked_sound [OF Done] run_total [of "zero_decoder ct" s] show ?thesis
    by (simp add: chunk_verdict_def zero_decoder_def)
qed

end
