(* ===== verification/Ihtp_Stream.thy ===== *)
theory Ihtp_Stream
  imports Ihtp_Chunked
begin

text \<open>
  The decoders as their callers use them: a call of the chunked decoder on a buffer, its outcome
  read off the returned values and the buffer; feeding either decoder a body in fragments; encoding
  a body and decoding it again.
\<close>

section \<open>The code on a buffer\<close>

definition chunked_call :: "ihtp_chunked_decoder_t \<Rightarrow> byte list \<Rightarrow> ihtp_chunked_decoder_t outcome" where
  "chunked_call d s =
     (case ihtp_decode_chunked (Some d) s (Some 0) (Some (length s)) of
        Some (st, Some d', mem, Some n) \<Rightarrow>
          if st = status_code IHTP_ERROR then Failed
          else if st = status_code IHTP_INCOMPLETE then Incomplete d' (take n mem)
          else Done d' (take n mem) (span mem n (nat st))
      | _ \<Rightarrow> Failed)"

lemma size_as_status_small: "n < 2 ^ 31 \<Longrightarrow> size_as_status n = int n"
  by (simp add: size_as_status_def signed_of_nat signed_take_bit_int_eq_self)

lemma span_parts:
  assumes "span mem 0 (length out + length rest) = out @ rest"
  shows "take (length out) mem = out \<and> span mem (length out) (length rest) = rest"
proof -
  have "length (take (length out + length rest) mem) = length out + length rest"
    using assms by (simp add: span_def)
  then have "length (take (length out) mem) = length out" by simp
  with assms show ?thesis by (simp add: span_def take_add)
qed

lemma done_rest: "chunk_bytes d s = Done d' out rest \<Longrightarrow> \<exists>v. s = v @ rest"
proof (induction s arbitrary: d out)
  case (Cons c s)
  show ?case
  proof (cases "chunk_state d = CHUNK_DONE \<or> chunk_byte d c = None")
    case True
    with Cons.prems show ?thesis by (auto split: if_splits)
  next
    case False
    then obtain d1 o1 where b: "chunk_byte d c = Some (d1, o1)" by auto
    show ?thesis
    proof (cases "chunk_state d1 = CHUNK_DONE")
      case True
      with False b Cons.prems show ?thesis by (auto intro: exI [of _ "[c]"])
    next
      case f: False
      with False b Cons.prems obtain o2 where "chunk_bytes d1 s = Done d' o2 rest" by (auto simp: emit_eq_Done)
      from Cons.IH [OF this] show ?thesis by (auto intro: exI [of _ "c # v" for v])
    qed
  qed
qed simp

lemma chunked_call_exact:
  assumes "decoder_ok d" and "length s < 2 ^ 31"
  shows "chunked_call d s = chunk_bytes d s"
proof -
  from decode_chunked_refines [OF assms(1), of 0 "length s" s] obtain st d' mem n where
    call: "ihtp_decode_chunked (Some d) s (Some 0) (Some (length s)) = Some (st, Some d', mem, Some n)"
    and post: "chunk_post 0 (length s) s 0 (chunk_bytes d s) (st, d', mem, n)" by (auto simp: span_def)
  show ?thesis
  proof (cases "chunk_bytes d s")
    case Failed
    with call post show ?thesis by (simp add: chunked_call_def chunk_post_def)
  next
    case (Incomplete d1 out)
    with call post show ?thesis
      by (simp add: chunked_call_def chunk_post_def span_def)
  next
    case (Done d1 out rest)
    from done_rest [OF Done] have "length rest \<le> length s" by auto
    with assms(2) have "size_as_status (length rest) = int (length rest)" by (simp add: size_as_status_small)
    with Done call post span_parts [of mem out rest] show ?thesis
      by (simp add: chunked_call_def chunk_post_def)
  qed
qed

text \<open>Calls on successive fragments, each short enough for its rest to be a status.\<close>

abbreviation fragments :: "byte list list \<Rightarrow> bool" where
  "fragments xs \<equiv> list_all (\<lambda>x. length x < 2 ^ 31) xs"

lemma chunk_bytes_ok: "decoder_ok d \<Longrightarrow> chunk_bytes d s = Incomplete d' out \<Longrightarrow> decoder_ok d'"
proof (induction s arbitrary: d out)
  case (Cons c s)
  then obtain d1 o1 o2 where b: "chunk_byte d c = Some (d1, o1)" and r: "chunk_bytes d1 s = Incomplete d' o2"
    by (auto simp: emit_eq_Incomplete split: if_splits option.splits prod.splits)
  from Cons.IH [OF chunk_byte_ok [OF Cons.prems(1) b] r] show ?case .
qed simp

lemma feed_chunked_call:
  assumes "decoder_ok d" and "fragments xs"
  shows "feed_decoder chunked_call d xs = feed_decoder chunk_bytes d xs"
  using assms
proof (induction xs arbitrary: d)
  case (Cons x xs)
  then show ?case
    by (cases "chunk_bytes d x") (simp_all add: chunked_call_exact chunk_bytes_ok)
qed simp

lemma feed_verdict:
  assumes "fragments xs"
  shows "case feed_decoder chunked_call (zero_decoder ct) xs of
           Done d p rest \<Rightarrow> \<exists>later. chunk_verdict ct (concat xs) (Done d p (rest @ later))
         | r \<Rightarrow> chunk_verdict ct (concat xs) r"
proof -
  have whole: "payload (feed_decoder chunked_call (zero_decoder ct) xs) =
      payload (chunk_bytes (zero_decoder ct) (concat xs))"
    using chunked.feed_whole [of "zero_decoder ct" xs] assms by (simp add: feed_chunked_call)
  note v = chunk_bytes_verdict [of ct "concat xs"]
  show ?thesis
  proof (cases "feed_decoder chunked_call (zero_decoder ct) xs")
    case (Done d p rest)
    with feed_chunked_call [of "zero_decoder ct" xs] assms
    have f: "feed_decoder chunk_bytes (zero_decoder ct) xs = Done d p rest" by simp
    from chunked.feed_done [OF f] v Done show ?thesis by auto
  qed (use whole v in \<open>cases "chunk_bytes (zero_decoder ct) (concat xs)"; simp\<close>)+
qed

lemma outcome_length:
  "case chunk_bytes d s of
     Failed \<Rightarrow> True
   | Incomplete d' out \<Rightarrow> length out \<le> length s
   | Done d' out rest \<Rightarrow> length out + length rest \<le> length s"
proof (induction s arbitrary: d)
  case (Cons c s)
  show ?case
  proof (cases "chunk_byte d c")
    case (Some r)
    then obtain d' out where b: "chunk_byte d c = Some (d', out)" by (cases r) auto
    then have "length out \<le> 1" by (auto simp: chunk_byte_def Let_def split: if_splits)
    with b Cons.IH [of d'] show ?thesis by (cases "chunk_bytes d' s") auto
  qed simp
qed simp

text \<open>An incomplete body can be finished, by calls on single bytes if need be.\<close>

lemma feed_completes:
  assumes "fragments xs" and "feed_decoder chunked_call (zero_decoder ct) xs = Incomplete d out"
  shows "\<exists>ys d' more. fragments ys \<and>
           feed_decoder chunked_call (zero_decoder ct) (xs @ ys) = Done d' (out @ more) []"
proof -
  from feed_verdict [OF assms(1), of ct] assms(2)
  have v: "viable ct (concat xs)" and pre: "\<forall>t p. chunked_body ct (concat xs @ t) p \<longrightarrow> (\<exists>more. p = out @ more)"
    by (simp_all add: chunk_verdict_def)
  from v obtain t p where body: "chunked_body ct (concat xs @ t) p" by blast
  with pre obtain more where p: "p = out @ more" by blast
  let ?ys = "map (\<lambda>c. [c]) t"
  have ys: "fragments ?ys" "concat ?ys = t" by (simp_all add: list_all_iff)
  with assms(1) have f: "feed_decoder chunked_call (zero_decoder ct) (xs @ ?ys) =
      feed_decoder chunk_bytes (zero_decoder ct) (xs @ ?ys)" by (intro feed_chunked_call) simp_all
  from chunk_bytes_body [OF body] obtain d' where run: "chunk_bytes (zero_decoder ct) (concat (xs @ ?ys)) = Done d' p []"
    using ys(2) by (metis append_Nil2 concat_append)
  with chunked.feed_whole [of "zero_decoder ct" "xs @ ?ys"] obtain rest where
    "feed_decoder chunk_bytes (zero_decoder ct) (xs @ ?ys) = Done d' p rest"
    by (cases "feed_decoder chunk_bytes (zero_decoder ct) (xs @ ?ys)") auto
  with chunked.feed_done [OF this] run f p ys(1) show ?thesis by auto
qed

text \<open>The status that carries the number of bytes behind the body.\<close>

lemma size_as_status_errors:
  "size_as_status n = status_code IHTP_INCOMPLETE \<longleftrightarrow> n mod 2 ^ 32 = 2 ^ 32 - 2"
  "size_as_status n = status_code IHTP_ERROR \<longleftrightarrow> n mod 2 ^ 32 = 2 ^ 32 - 1"
proof -
  have eq: "size_as_status n = sint k \<longleftrightarrow> n mod 2 ^ 32 = unat k" for k :: "32 word"
  proof -
    have "size_as_status n = sint k \<longleftrightarrow> word_of_nat n = k"
      unfolding size_as_status_def by (auto intro: signed_word_eqI)
    also have "\<dots> \<longleftrightarrow> unat (word_of_nat n :: 32 word) = unat k" by (rule word_unat_eq_iff)
    finally show ?thesis by (simp add: unat_of_nat)
  qed
  show "size_as_status n = status_code IHTP_INCOMPLETE \<longleftrightarrow> n mod 2 ^ 32 = 2 ^ 32 - 2"
    using eq [of "- 2"] by simp
  show "size_as_status n = status_code IHTP_ERROR \<longleftrightarrow> n mod 2 ^ 32 = 2 ^ 32 - 1"
    using eq [of "- 1"] by (simp add: unsigned_minus_1_eq_mask mask_eq_exp_minus_1)
qed

text \<open>A size line without digits is accepted before an extension only.\<close>

lemma empty_size_with_extension:
  assumes "line_text e" and "length (SEMI # e @ [CR, LF] @ rest) < 2 ^ 31"
  shows "\<exists>d. chunked_call (zero_decoder False) (SEMI # e @ [CR, LF] @ rest) = Done d [] rest"
proof -
  have "size_line [] (SEMI # e)" using assms(1) by (simp add: size_line_def)
  from chunked_body_plain [OF all_chunks.intros [OF chunks_Nil this]]
  have "chunked_body False (SEMI # e @ [CR, LF]) []" by simp
  from chunk_bytes_body [OF this] chunked_call_exact [OF zero_decoder_ok assms(2), of False] show ?thesis by auto
qed

lemma empty_size_alone: "length s < 2 ^ 31 - 1 \<Longrightarrow> chunked_call (zero_decoder ct) (CR # s) = Failed"
  by (simp add: chunked_call_exact) (simp add: zero_decoder_def chunk_byte_def is_hex_def chunk_states)

section \<open>The fixed-length decoder\<close>

definition fixed_bytes :: "ihtp_fixed_decoder_t \<Rightarrow> byte list \<Rightarrow> ihtp_fixed_decoder_t outcome" where
  "fixed_bytes d s =
     (case ihtp_decode_fixed (Some d) (length s) of
        (IHTP_OK, Some d') \<Rightarrow> Done d' s []
      | (IHTP_INCOMPLETE, Some d') \<Rightarrow> Incomplete d' s
      | _ \<Rightarrow> Failed)"

lemma unat_minus_nat: "n \<le> unat (w :: 64 word) \<Longrightarrow> unat (w - word_of_nat n) = unat w - n"
proof -
  assume n: "n \<le> unat w"
  have "unat w < 2 ^ 64" using unsigned_less [of w, where ?'a = nat] by simp
  with n have u: "unat (word_of_nat n :: 64 word) = n" by (simp add: unat_of_nat take_bit_eq_mod)
  with n show ?thesis by (subst unat_sub) (simp_all add: word_le_nat_alt)
qed

lemma fixed_bytes_alt:
  "fixed_bytes d s =
     (if length s > unat (remaining d) then Failed
      else let d' = d\<lparr> remaining := remaining d - word_of_nat (length s),
                       fixed_total_decoded := fixed_total_decoded d + word_of_nat (length s) \<rparr>
           in if length s = unat (remaining d) then Done d' s [] else Incomplete d' s)"
proof (cases "length s > unat (remaining d)")
  case False
  then have "unat (remaining d - word_of_nat (length s)) = unat (remaining d) - length s"
    by (simp add: unat_minus_nat)
  then have "remaining d - word_of_nat (length s) = 0 \<longleftrightarrow> unat (remaining d) - length s = 0"
    by (metis unat_eq_zero)
  with False show ?thesis by (auto simp: fixed_bytes_def ihtp_decode_fixed_def Let_def)
qed (simp add: fixed_bytes_def ihtp_decode_fixed_def)

interpretation fixed: stream_decoder fixed_bytes
proof
  fix d d' :: ihtp_fixed_decoder_t and s t out
  assume "fixed_bytes d s = Incomplete d' out"
  then have s: "length s < unat (remaining d)" and out: "out = s"
    and d': "d' = d\<lparr> remaining := remaining d - word_of_nat (length s),
                      fixed_total_decoded := fixed_total_decoded d + word_of_nat (length s) \<rparr>"
    by (auto simp: fixed_bytes_alt Let_def split: if_splits)
  have r: "unat (remaining d') = unat (remaining d) - length s"
    using s d' by (simp add: unat_minus_nat)
  show "fixed_bytes d (s @ t) = emit out (fixed_bytes d' t)"
    using s r unfolding fixed_bytes_alt out by (auto simp: d' Let_def algebra_simps)
qed

lemma fixed_init: "ihtp_fixed_decoder_init (Some d) cl = Some \<lparr> remaining = cl, fixed_total_decoded = 0 \<rparr>"
  by (simp add: ihtp_fixed_decoder_init_def)

text \<open>The verdict on the fragments received so far for a body of \<open>cl\<close> bytes.\<close>

definition fixed_verdict :: "64 word \<Rightarrow> byte list list \<Rightarrow> ihtp_fixed_decoder_t outcome \<Rightarrow> bool" where
  "fixed_verdict cl xs r =
     (case r of
        Done d p rest \<Rightarrow> (\<exists>m. m \<le> length xs \<and> p = concat (take m xs)) \<and> length p = unat cl \<and> rest = [] \<and>
          remaining d = 0 \<and> fixed_total_decoded d = cl
      | Incomplete d out \<Rightarrow> out = concat xs \<and> length out < unat cl \<and>
          unat (remaining d) = unat cl - length out \<and> fixed_total_decoded d = word_of_nat (length out)
      | Failed \<Rightarrow> \<exists>m<length xs. (m = 0 \<or> length (concat (take m xs)) < unat cl) \<and>
          unat cl < length (concat (take (Suc m) xs)))"

lemma fixed_bytes_start:
  "fixed_bytes \<lparr> remaining = cl, fixed_total_decoded = 0 \<rparr> s =
     (if unat cl < length s then Failed
      else if length s = unat cl then Done \<lparr> remaining = 0, fixed_total_decoded = cl \<rparr> s []
      else Incomplete \<lparr> remaining = cl - word_of_nat (length s), fixed_total_decoded = word_of_nat (length s) \<rparr> s)"
  by (auto simp: fixed_bytes_alt Let_def)

lemma fixed_feed_verdict:
  assumes "xs \<noteq> []"
  shows "fixed_verdict cl xs (feed_decoder fixed_bytes \<lparr> remaining = cl, fixed_total_decoded = 0 \<rparr> xs)"
proof -
  let ?d = "\<lparr> remaining = cl, fixed_total_decoded = 0 \<rparr>"
  from fixed.feed_prefix [OF assms, of ?d] obtain m where m: "0 < m" "m \<le> length xs"
    and feed: "feed_decoder fixed_bytes ?d xs = fixed_bytes ?d (concat (take m xs))"
    and last: "m < length xs \<longrightarrow> (\<forall>d' out. feed_decoder fixed_bytes ?d xs \<noteq> Incomplete d' out)"
    and before: "\<forall>k. 0 < k \<and> k < m \<longrightarrow> (\<exists>d' out. fixed_bytes ?d (concat (take k xs)) = Incomplete d' out)"
    by blast
  let ?s = "concat (take m xs)"
  consider (over) "unat cl < length ?s" | (exact) "length ?s = unat cl" | (under) "length ?s < unat cl"
    by linarith
  then show ?thesis
  proof cases
    case over
    obtain k where k: "m = Suc k" using m(1) by (cases m) auto
    have "k = 0 \<or> length (concat (take k xs)) < unat cl"
    proof (cases "k = 0")
      case False
      with before k obtain d' out where "fixed_bytes ?d (concat (take k xs)) = Incomplete d' out" by auto
      then show ?thesis by (auto simp: fixed_bytes_start split: if_splits)
    qed simp
    with over k m(2) have "\<exists>m<length xs. (m = 0 \<or> length (concat (take m xs)) < unat cl) \<and>
        unat cl < length (concat (take (Suc m) xs))" by (intro exI [of _ k]) auto
    with over show ?thesis unfolding feed fixed_bytes_start by (simp add: fixed_verdict_def)
  next
    case exact
    with m(2) show ?thesis unfolding feed fixed_bytes_start by (auto simp: fixed_verdict_def)
  next
    case under
    with last feed fixed_bytes_start [of cl ?s] have "\<not> m < length xs" by auto
    with m(2) have "?s = concat xs" by simp
    with under show ?thesis unfolding feed fixed_bytes_start
      by (simp add: fixed_verdict_def unat_minus_nat)
  qed
qed

section \<open>Encoding\<close>

definition hex_char :: "nat \<Rightarrow> byte" where
  "hex_char n = (if n < 10 then word_of_nat (48 + n) else word_of_nat (87 + n))"

fun hex_string :: "nat \<Rightarrow> byte list" where
  "hex_string n = (if n < 16 then [hex_char n] else hex_string (n div 16) @ [hex_char (n mod 16)])"

declare hex_string.simps [simp del]

definition encode_chunk :: "byte list \<Rightarrow> byte list" where
  "encode_chunk xs = hex_string (length xs) @ [CR, LF] @ xs @ [CR, LF]"

definition encode_body :: "bool \<Rightarrow> byte list list \<Rightarrow> byte list list \<Rightarrow> byte list" where
  "encode_body ct xss lines =
     concat (map encode_chunk xss) @ [0x30, CR, LF] @
     (if ct then concat (map (\<lambda>l. l @ [CR, LF]) lines) @ [CR, LF] else [])"

lemma hex_char: "n < 16 \<Longrightarrow> is_hex (hex_char n) \<and> hex_digit (hex_char n) = int n"
proof -
  have "list_all (\<lambda>n. is_hex (hex_char n) \<and> hex_digit (hex_char n) = int n) [0..<16]" by code_simp
  then show "n < 16 \<Longrightarrow> is_hex (hex_char n) \<and> hex_digit (hex_char n) = int n"
    by (simp add: list_all_iff)
qed

lemma hex_string:
  "list_all is_hex (hex_string n) \<and> hex_value (hex_string n) = int n \<and> hex_string n \<noteq> []"
proof (induction n rule: less_induct)
  case (less n)
  show ?case
  proof (cases "n < 16")
    case True
    with hex_char [of n] show ?thesis
      by (simp add: hex_string.simps [of n] hex_value_def)
  next
    case False
    with less [of "n div 16"] hex_char [of "n mod 16"] show ?thesis
      by (simp add: hex_string.simps [of n] zdiv_int zmod_int)
  qed
qed

lemma hex_string_length: "n < 16 ^ Suc k \<Longrightarrow> length (hex_string n) \<le> Suc k"
proof (induction k arbitrary: n)
  case 0
  then show ?case by (simp add: hex_string.simps [of n])
next
  case (Suc k)
  have "n div 16 < 16 ^ Suc k" using Suc.prems by (simp add: div_less_iff_less_mult algebra_simps)
  from Suc.IH [OF this] show ?case by (simp add: hex_string.simps [of n])
qed

lemma encode_chunks:
  "list_all (\<lambda>xs. xs \<noteq> [] \<and> length xs < 2 ^ 64) xss \<Longrightarrow> data_chunks (concat (map encode_chunk xss)) (concat xss)"
proof (induction xss rule: rev_induct)
  case Nil
  then show ?case by (simp add: chunks_Nil)
next
  case (snoc xs xss)
  then have "length (hex_string (length xs)) \<le> 16" using hex_string_length [of "length xs" 15] by simp
  with hex_string [of "length xs"] have "size_line (hex_string (length xs)) []" by (simp add: size_line_def)
  from chunks_snoc [OF snoc.IH this, of xs] snoc.prems hex_string [of "length xs"] show ?case
    by (simp add: encode_chunk_def)
qed

lemma encode_trailers:
  "list_all (\<lambda>l. line_text l \<and> l \<noteq> []) ls \<Longrightarrow> trailer_lines (concat (map (\<lambda>l. l @ [CR, LF]) ls))"
  by (induction ls rule: rev_induct) (simp_all add: trailer_lines_Nil trailer_lines_snoc)

lemma encode_body_grammar:
  assumes "list_all (\<lambda>xs. xs \<noteq> [] \<and> length xs < 2 ^ 64) xss" and "list_all (\<lambda>l. line_text l \<and> l \<noteq> []) ls"
  shows "chunked_body ct (encode_body ct xss ls) (concat xss)"
proof -
  have "size_line [0x30] []" "hex_value [0x30] = 0"
    by (simp_all add: size_line_def is_hex_def hex_value_def hex_digit_def)
  from all_chunks.intros [OF encode_chunks [OF assms(1)] this]
  have all: "all_chunks (concat (map encode_chunk xss) @ [0x30, CR, LF]) (concat xss)" by simp
  from chunked_body_plain [OF all] chunked_body_trailer [OF all encode_trailers [OF assms(2)]] show ?thesis
    by (cases ct) (simp_all add: encode_body_def)
qed

lemma encode_body_length: "x \<in> set xss \<Longrightarrow> length x \<le> length (encode_body ct xss ls)"
  by (induction xss) (auto simp: encode_body_def encode_chunk_def)

lemma encode_body_decodes:
  assumes "list_all (\<lambda>xs. xs \<noteq> []) xss" and "list_all (\<lambda>l. line_text l \<and> l \<noteq> []) ls"
    and "length (encode_body ct xss ls @ rest) < 2 ^ 31"
  shows "\<exists>d. chunked_call (zero_decoder ct) (encode_body ct xss ls @ rest) = Done d (concat xss) rest \<and>
           chunk_total_decoded d = word_of_nat (length (concat xss))"
proof -
  have "list_all (\<lambda>xs. xs \<noteq> [] \<and> length xs < 2 ^ 64) xss"
    using assms(1,3) encode_body_length [of _ xss ct ls] by (fastforce simp: list_all_iff)
  from chunk_bytes_body [OF encode_body_grammar [OF this assms(2)], of ct] obtain d where
    d: "chunk_bytes (zero_decoder ct) (encode_body ct xss ls @ rest) = Done d (concat xss) rest" by blast
  with chunked_call_exact [OF zero_decoder_ok assms(3), of ct]
    chunk_bytes_verdict [of ct "encode_body ct xss ls @ rest"] show ?thesis
    by (simp add: chunk_verdict_def)
qed

text \<open>An encoded body behind \<open>head\<close> in memory, decoded in place.\<close>

lemma encoded_body_in_memory:
  assumes "list_all (\<lambda>xs. xs \<noteq> []) xss" and "list_all (\<lambda>l. line_text l \<and> l \<noteq> []) ls"
    and "length (encode_body ct xss ls @ rest) < 2 ^ 31"
  defines "body \<equiv> encode_body ct xss ls"
  shows "\<exists>d mem'. ihtp_decode_chunked (Some (zero_decoder ct)) (head @ body @ rest) (Some (length head))
             (Some (length (body @ rest))) = Some (int (length rest), Some d, mem', Some (length (concat xss))) \<and>
           take (length head) mem' = head \<and>
           span mem' (length head) (length (concat xss) + length rest) = concat xss @ rest"
proof -
  from encode_body_decodes [OF assms(1-3)] chunked_call_exact [OF zero_decoder_ok assms(3), of ct] obtain d where
    run: "chunk_bytes (zero_decoder ct) (body @ rest) = Done d (concat xss) rest" by (auto simp: body_def)
  have "span (head @ body @ rest) (length head) (length (body @ rest)) = body @ rest" by (simp add: span_def)
  with decode_chunked_refines [OF zero_decoder_ok, of "length head" "length (body @ rest)" "head @ body @ rest" ct] run
    size_as_status_small [of "length rest"] assms(3) show ?thesis
    by (auto simp: chunk_post_def)
qed

end
