(* ===== verification/Ihtp_Printing.thy ===== *)
theory Ihtp_Printing
  imports Ihtp_Semantics
begin

text \<open>
  Printed messages anywhere in memory: what the parser records for a request or a response that
  stands behind \<open>pre\<close>, and what the semantics layer decides about it.  The lemmas carry the
  programs that use the library (Ihtp_Consumers), where messages follow each other in a buffer.
\<close>

section \<open>Requests\<close>

lemma printed_request_fields:
  assumes "request_parts_ok policy m t fs" and "p = length pre"
  shows "header_fields (pre @ render_request m t v fs @ post) (req_headers (printed_request p m t v fs))
           (req_num_headers (printed_request p m t v fs)) = fs"
proof -
  have ok: "list_all field_ok fs" using assms(1) by (simp add: request_parts_ok_def)
  let ?pre = "pre @ m @ [SP] @ t @ [SP] @ ascii ''HTTP/1.'' @ [version_byte v, CR, LF]"
  have mem: "pre @ render_request m t v fs @ post = ?pre @ concat (map render_header fs) @ ([CR, LF] @ post)"
    by (simp add: render_request_def)
  have len: "p + length m + length t + 12 = length ?pre" using assms(2) by simp
  have "map (header_text (?pre @ concat (map render_header fs) @ ([CR, LF] @ post)))
      (recorded (p + length m + length t + 12) fs) = fs"
    by (rule recorded_text [OF ok len])
  then show ?thesis unfolding mem by (simp add: header_fields_def printed_request_def)
qed

lemma printed_request_parsed:
  assumes "request_parts_ok (resolve_policy policy) m t fs" and "p = length pre"
    and "n = length (render_request m t v fs @ rest)"
  shows "ihtp_parse_request undef (pre @ render_request m t v fs @ rest @ post) (Some p) n (Some r) policy (Some b) =
           Some (IHTP_OK, Some (printed_request p m t v fs), Some (length (render_request m t v fs)))"
proof -
  have "span (pre @ render_request m t v fs @ rest @ post) p n = render_request m t v fs @ rest"
    using span_mid [of p pre n "render_request m t v fs @ rest" post] assms(2,3) by simp
  then show ?thesis
    using printed_request_message [OF assms(1), of p v rest] assms(2,3) by (simp add: request_grammar)
qed

lemma printed_request_decided_at:
  fixes v :: ihtp_http_version_t
  assumes "token_scanner is_token" and "request_parts_ok (resolve_policy policy) m t fs" and "p = length pre"
  shows "\<exists>req'. ihtp_request_apply_semantics is_token (pre @ render_request m t v fs @ post)
             (Some (printed_request p m t v fs)) policy =
           Some (if request_accepted (policy_or_strict policy) v fs then IHTP_OK else IHTP_ERROR, Some req') \<and>
         (request_accepted (policy_or_strict policy) v fs \<longrightarrow>
            req' = request_decision fs (printed_request p m t v fs))"
proof -
  let ?mem = "pre @ render_request m t v fs @ post" and ?req = "printed_request p m t v fs"
  have "headers_in ?mem (req_headers ?req) (req_num_headers ?req)"
    using parsed_request_headers [OF printed_request_parsed [OF assms(2,3) refl, where rest = "[]"]] assms(3) by simp
  from token_scanner.request_semantics [OF assms(1) this, of policy]
  show ?thesis
    unfolding printed_request_fields [OF assms(2,3)] by (simp add: printed_request_def)
qed

section \<open>Responses\<close>

definition render_response ::
    "ihtp_http_version_t \<Rightarrow> byte list \<Rightarrow> byte list \<Rightarrow> (byte list \<times> byte list) list \<Rightarrow> byte list" where
  "render_response v ds reason fs =
     ascii ''HTTP/1.'' @ [version_byte v, SP] @ ds @ [SP] @ reason @ [CR, LF]
       @ concat (map render_header fs) @ [CR, LF]"

definition response_parts_ok :: "byte list \<Rightarrow> byte list \<Rightarrow> (byte list \<times> byte list) list \<Rightarrow> bool" where
  "response_parts_ok ds reason fs \<longleftrightarrow>
     length ds = 3 \<and> list_all ihtp_is_digit ds \<and> 100 \<le> decimal_value ds \<and> decimal_value ds \<le> 599 \<and>
     list_all text_byte reason \<and> list_all field_ok fs \<and> length fs \<le> IHTP_MAX_HEADERS"

definition printed_response ::
    "nat \<Rightarrow> ihtp_http_version_t \<Rightarrow> byte list \<Rightarrow> byte list \<Rightarrow> (byte list \<times> byte list) list \<Rightarrow> ihtp_response_t" where
  "printed_response p v ds reason fs =
     zero_response\<lparr> resp_version := v, resp_status_code := decimal_value ds, resp_reason := Some (p + 13),
       resp_reason_len := length reason,
       resp_headers := recorded (p + 15 + length reason) fs @ drop (length fs) no_headers,
       resp_num_headers := length fs \<rparr>"

lemma printed_response_message:
  assumes "response_parts_ok ds reason fs"
  shows "response_message policy p (render_response v ds reason fs @ rest) (printed_response p v ds reason fs)
           (length (render_response v ds reason fs))"
proof -
  let ?line = "ascii ''HTTP/1.'' @ [version_byte v, SP] @ ds @ SP # reason"
  let ?fields = "concat (map render_header fs)"
  have s: "render_response v ds reason fs @ rest = ?line @ [CR, LF] @ ?fields @ [CR, LF] @ rest"
    by (simp add: render_response_def)
  have "LF \<notin> set ds" using assms by (fastforce simp: response_parts_ok_def list_all_iff ihtp_is_digit_def)
  moreover have "LF \<notin> set reason"
    using assms text_byte_not_LF by (fastforce simp: response_parts_ok_def list_all_iff)
  moreover have "LF \<notin> set (ascii ''HTTP/1.'' @ [version_byte v, SP])" by (cases v) (simp_all add: ascii_def)
  ultimately have eol: "eol_ok policy ?line [CR, LF]" by (simp add: eol_ok_def)
  have line: "status_line_of ?line v ds reason"
    using assms by (simp add: status_line_of_def response_parts_ok_def)
  have len: "length ?line + length [CR, LF] = 15 + length reason"
    using assms by (simp add: response_parts_ok_def ascii_def)
  have "header_lines policy IHTP_MAX_HEADERS (p + (15 + length reason)) (no_headers, 0) ?fields
      (recorded (p + (15 + length reason)) fs @ drop (length fs) no_headers, length fs)"
    using header_lines_render [of fs 0 IHTP_MAX_HEADERS no_headers policy] assms
    by (simp add: response_parts_ok_def)
  then have sec: "header_section policy (p + (15 + length reason)) (?fields @ [CR, LF] @ rest)
      (recorded (p + (15 + length reason)) fs @ drop (length fs) no_headers) (length fs) (length ?fields + 2)"
    unfolding header_section_def
    by - (rule exI [where x = ?fields], rule exI [where x = "[CR, LF]"], rule exI [where x = rest],
        simp add: eol_ok_def)
  have k: "length (render_response v ds reason fs) = 15 + length reason + (length ?fields + 2)"
    using len by (simp add: render_response_def)
  have r: "printed_response p v ds reason fs = zero_response\<lparr> resp_version := v, resp_status_code := decimal_value ds,
       resp_reason := Some (p + 13), resp_reason_len := length reason,
       resp_headers := recorded (p + (15 + length reason)) fs @ drop (length fs) no_headers,
       resp_num_headers := length fs \<rparr>"
    by (simp add: printed_response_def add_ac)
  show ?thesis
    unfolding response_message_def
    by (rule exI [where x = ?line], rule exI [where x = "[CR, LF]"],
        rule exI [where x = "?fields @ [CR, LF] @ rest"], unfold len)
      (use s eol line sec k r in blast)
qed

lemma printed_response_fields:
  assumes "response_parts_ok ds reason fs" and "p = length pre"
  shows "header_fields (pre @ render_response v ds reason fs @ post)
           (resp_headers (printed_response p v ds reason fs))
           (resp_num_headers (printed_response p v ds reason fs)) = fs"
proof -
  have ok: "list_all field_ok fs" using assms(1) by (simp add: response_parts_ok_def)
  let ?pre = "pre @ ascii ''HTTP/1.'' @ [version_byte v, SP] @ ds @ [SP] @ reason @ [CR, LF]"
  have mem: "pre @ render_response v ds reason fs @ post = ?pre @ concat (map render_header fs) @ ([CR, LF] @ post)"
    by (simp add: render_response_def)
  have len: "p + 15 + length reason = length ?pre"
    using assms by (simp add: response_parts_ok_def ascii_def)
  have "map (header_text (?pre @ concat (map render_header fs) @ ([CR, LF] @ post)))
      (recorded (p + 15 + length reason) fs) = fs"
    by (rule recorded_text [OF ok len])
  then show ?thesis unfolding mem by (simp add: header_fields_def printed_response_def)
qed

lemma printed_response_parsed:
  assumes "response_parts_ok ds reason fs" and "p = length pre"
    and "n = length (render_response v ds reason fs @ rest)"
  shows "ihtp_parse_response undef (pre @ render_response v ds reason fs @ rest @ post) (Some p) n (Some r) policy
             (Some b) =
           Some (IHTP_OK, Some (printed_response p v ds reason fs), Some (length (render_response v ds reason fs)))"
proof -
  have "span (pre @ render_response v ds reason fs @ rest @ post) p n = render_response v ds reason fs @ rest"
    using span_mid [of p pre n "render_response v ds reason fs @ rest" post] assms(2,3) by simp
  then show ?thesis
    using printed_response_message [OF assms(1), of _ p v rest] assms(2,3) by (simp add: response_grammar)
qed

lemma printed_response_decided_at:
  fixes v :: ihtp_http_version_t
  assumes "token_scanner is_token" and "response_parts_ok ds reason fs" and "p = length pre"
  defines "resp \<equiv> printed_response p v ds reason fs"
  shows "\<exists>resp'. ihtp_response_apply_semantics is_token (pre @ render_response v ds reason fs @ post)
             (Some resp) policy =
           Some (if response_accepted (policy_or_strict policy) (decimal_value ds) fs then IHTP_OK else IHTP_ERROR,
                 Some resp') \<and>
         (response_accepted (policy_or_strict policy) (decimal_value ds) fs \<longrightarrow> resp' = response_decision fs resp)"
proof -
  let ?mem = "pre @ render_response v ds reason fs @ post"
  have "headers_in ?mem (resp_headers resp) (resp_num_headers resp)"
    using parsed_response_headers [OF printed_response_parsed [OF assms(2,3) refl, where rest = "[]"]] assms(3)
    by (simp add: resp_def)
  from token_scanner.response_semantics [OF assms(1) this, of policy]
  show ?thesis
    unfolding resp_def printed_response_fields [OF assms(2,3)] by (simp add: printed_response_def)
qed

end
