(* ===== verification/Ihtp_Consumers.thy ===== *)
theory Ihtp_Consumers
  imports Ihtp_Printing Ihtp_Stream
begin

text \<open>
  Programs on top of the library: the consumer scenarios of bench/bench_extended_contract.c, which
  call parser, semantics layer and body decoders the way a server or a proxy does, and the parser
  entries of bench/bench_throughput_compare.c.  A scenario is a function from the wire in memory to
  \<open>bool\<close> with \<open>*work_bytes_out\<close> written when it is true: \<open>Some None\<close> is \<open>false\<close>, \<open>Some (Some n)\<close> is
  \<open>true\<close> with \<open>n\<close>, and \<open>None\<close> is undefined behaviour.  Uninitialised locals are arguments: the state
  object, and the contents of the buffer \<open>tail\<close>.
\<close>

section \<open>More of the C library\<close>

text \<open>A string starts at \<open>p\<close> if there is a terminating NUL in the object.\<close>

definition c_string :: "mem \<Rightarrow> nat \<Rightarrow> byte list ub" where
  "c_string mem p = (if 0 \<in> set (drop p mem) then Some (takeWhile (\<lambda>b. b \<noteq> 0) (drop p mem)) else None)"

definition c_strlen_at :: "mem \<Rightarrow> nat \<Rightarrow> nat ub" where
  "c_strlen_at mem p = do { s \<leftarrow> c_string mem p; Some (length s) }"

fun find_text :: "byte list \<Rightarrow> byte list \<Rightarrow> nat option" where
  "find_text x [] = (if x = [] then Some 0 else None)"
| "find_text x (c # s) =
     (if take (length x) (c # s) = x then Some 0 else map_option Suc (find_text x s))"

definition c_strstr :: "mem \<Rightarrow> nat \<Rightarrow> byte list \<Rightarrow> ptr ub" where
  "c_strstr mem p needle = do { s \<leftarrow> c_string mem p; Some (map_option (\<lambda>i. p + i) (find_text needle s)) }"

text \<open>A copy between two objects.\<close>

definition c_memcpy_from :: "mem \<Rightarrow> nat \<Rightarrow> mem \<Rightarrow> nat \<Rightarrow> nat \<Rightarrow> mem ub" where
  "c_memcpy_from dst d src s n =
     (if s + n \<le> length src \<and> d + n \<le> length dst
      then Some (take d dst @ span src s n @ drop (d + n) dst) else None)"

section \<open>One message\<close>

text \<open>
  The steps the scenarios share: clear the message object and \<open>consumed\<close>, and call the stateful
  parser.
\<close>

definition request_step ::
    "mem \<Rightarrow> ihtp_parser_state_t option \<Rightarrow> nat \<Rightarrow> nat \<Rightarrow> ihtp_policy_t \<Rightarrow>
       (ihtp_status_t \<times> ihtp_parser_state_t option \<times> ihtp_request_t option \<times> nat) ub" where
  "request_step mem state wire len policy =
     do { (status, state, req, consumed) \<leftarrow>
            ihtp_parse_request_stateful mem state (Some wire) len (Some zero_request) (Some policy) (Some 0);
          Some (status, state, req, the consumed) }"

definition response_step ::
    "mem \<Rightarrow> ihtp_parser_state_t option \<Rightarrow> nat \<Rightarrow> nat \<Rightarrow> ihtp_policy_t \<Rightarrow>
       (ihtp_status_t \<times> ihtp_parser_state_t option \<times> ihtp_response_t option \<times> nat) ub" where
  "response_step mem state wire len policy =
     do { (status, state, resp, consumed) \<leftarrow>
            ihtp_parse_response_stateful mem state (Some wire) len (Some zero_response) (Some policy) (Some 0);
          Some (status, state, resp, the consumed) }"

type_synonym scenario_result = "nat option ub"

definition scenario_stateful_reuse_request ::
    "ihtp_parser_state_t \<Rightarrow> mem \<Rightarrow> nat \<Rightarrow> nat \<Rightarrow> scenario_result" where
  "scenario_stateful_reuse_request undef mem wire len =
     (let policy = IHTP_POLICY_STRICT;
          state = ihtp_parser_state_init (Some undef) IHTP_PARSER_MODE_REQUEST
      in do { (status, state, req, consumed) \<leftarrow> request_step mem state wire len policy;
              if status \<noteq> IHTP_OK then Some None
              else if consumed \<noteq> len then Some None
              else do { (status, state, req, consumed) \<leftarrow>
                          request_step mem (ihtp_parser_state_reset state) wire len policy;
                        if status \<noteq> IHTP_OK then Some None
                        else if consumed \<noteq> len then Some None
                        else Some (Some (len * 2)) } })"

definition scenario_request_chunked_parse_only ::
    "ihtp_parser_state_t \<Rightarrow> mem \<Rightarrow> nat \<Rightarrow> nat \<Rightarrow> scenario_result" where
  "scenario_request_chunked_parse_only undef mem wire len =
     (let policy = IHTP_POLICY_STRICT
      in do { headers_end \<leftarrow> c_strstr mem wire [CR, LF, CR, LF];
              case headers_end of
                None \<Rightarrow> Some None
              | Some headers_end \<Rightarrow>
                  (let state = ihtp_parser_state_init (Some undef) IHTP_PARSER_MODE_REQUEST
                   in do { (status, state, req, consumed) \<leftarrow> request_step mem state wire len policy;
                           if status \<noteq> IHTP_OK then Some None
                           else if consumed \<noteq> size_sub (headers_end + 4) wire then Some None
                           else Some (Some consumed) }) })"

definition scenario_request_chunked_parse_semantics ::
    "token_test \<Rightarrow> ihtp_parser_state_t \<Rightarrow> mem \<Rightarrow> nat \<Rightarrow> nat \<Rightarrow> scenario_result" where
  "scenario_request_chunked_parse_semantics is_token undef mem wire len =
     (let policy = IHTP_POLICY_IOHTTP;
          state = ihtp_parser_state_init (Some undef) IHTP_PARSER_MODE_REQUEST
      in do { (status, state, req, consumed) \<leftarrow> request_step mem state wire len policy;
              if status \<noteq> IHTP_OK then Some None
              else do { (status, req) \<leftarrow> ihtp_request_apply_semantics is_token mem req (Some policy);
                        if status \<noteq> IHTP_OK then Some None
                        else if req_body_mode (the req) \<noteq> IHTP_BODY_CHUNKED then Some None
                        else Some (Some consumed) } })"

definition scenario_request_chunked_parse_semantics_body ::
    "token_test \<Rightarrow> ihtp_parser_state_t \<Rightarrow> mem \<Rightarrow> mem \<Rightarrow> nat \<Rightarrow> nat \<Rightarrow> scenario_result" where
  "scenario_request_chunked_parse_semantics_body is_token undef tail mem wire len =
     (let policy = IHTP_POLICY_IOHTTP;
          dec = zero_decoder True;
          state = ihtp_parser_state_init (Some undef) IHTP_PARSER_MODE_REQUEST
      in do { (status, state, req, consumed) \<leftarrow> request_step mem state wire len policy;
              if status \<noteq> IHTP_OK then Some None
              else do { (status, req) \<leftarrow> ihtp_request_apply_semantics is_token mem req (Some policy);
                        if status \<noteq> IHTP_OK then Some None
                        else if req_body_mode (the req) \<noteq> IHTP_BODY_CHUNKED then Some None
                        else
                          let body_len = size_sub len consumed
                          in if body_len \<ge> 256 then Some None
                             else do { tail \<leftarrow> c_memcpy_from tail 0 mem (wire + consumed) body_len;
                                       (trailing, dec, tail, body_len) \<leftarrow>
                                         ihtp_decode_chunked (Some dec) tail (Some 0) (Some body_len);
                                       if trailing < 0 then Some None
                                       else Some (Some (consumed + the body_len + nat trailing)) } } })"

definition scenario_consumer_iohttp_pipeline ::
    "token_test \<Rightarrow> ihtp_parser_state_t \<Rightarrow> mem \<Rightarrow> mem \<Rightarrow> nat \<Rightarrow> nat \<Rightarrow> scenario_result" where
  "scenario_consumer_iohttp_pipeline is_token undef tail mem wire len =
     (let policy = IHTP_POLICY_IOHTTP;
          dec = zero_decoder True;
          state = ihtp_parser_state_init (Some undef) IHTP_PARSER_MODE_REQUEST
      in do { (status, state, req, consumed) \<leftarrow> request_step mem state wire len policy;
              if status \<noteq> IHTP_OK then Some None
              else do { (status, req) \<leftarrow> ihtp_request_apply_semantics is_token mem req (Some policy);
                        if status \<noteq> IHTP_OK then Some None
                        else
                          let body_len = size_sub len consumed
                          in if body_len \<ge> 256 then Some None
                             else do { tail \<leftarrow> c_memcpy_from tail 0 mem (wire + consumed) body_len;
                                       (trailing, dec, tail, body_len) \<leftarrow>
                                         ihtp_decode_chunked (Some dec) tail (Some 0) (Some body_len);
                                       if trailing < 0 then Some None
                                       else
                                         let next = the body_len
                                         in do { (status, state, req, consumed) \<leftarrow>
                                                   request_step tail (ihtp_parser_state_reset state) next
                                                     (nat trailing) policy;
                                                 if status \<noteq> IHTP_OK then Some None
                                                 else do { (status, req) \<leftarrow>
                                                             ihtp_request_apply_semantics is_token tail req
                                                               (Some policy);
                                                           if status \<noteq> IHTP_OK then Some None
                                                           else Some (Some (len + nat trailing)) } } } } })"

definition scenario_consumer_iohttp_expect_trailers ::
    "token_test \<Rightarrow> ihtp_parser_state_t \<Rightarrow> mem \<Rightarrow> mem \<Rightarrow> nat \<Rightarrow> nat \<Rightarrow> scenario_result" where
  "scenario_consumer_iohttp_expect_trailers is_token undef tail mem wire len =
     (let policy = IHTP_POLICY_IOHTTP;
          dec = zero_decoder False;
          state = ihtp_parser_state_init (Some undef) IHTP_PARSER_MODE_REQUEST
      in do { (status, state, req, consumed) \<leftarrow> request_step mem state wire len policy;
              if status \<noteq> IHTP_OK then Some None
              else do { (status, req) \<leftarrow> ihtp_request_apply_semantics is_token mem req (Some policy);
                        if status \<noteq> IHTP_OK then Some None
                        else
                          let body_len = size_sub len consumed
                          in if body_len \<ge> 320 then Some None
                             else do { tail \<leftarrow> c_memcpy_from tail 0 mem (wire + consumed) body_len;
                                       (trailing, dec, tail, body_len) \<leftarrow>
                                         ihtp_decode_chunked (Some dec) tail (Some 0) (Some body_len);
                                       if trailing < 0 then Some None
                                       else
                                         let trailer_and_next = the body_len
                                         in do { trailer_end \<leftarrow> c_strstr tail trailer_and_next [CR, LF, CR, LF];
                                                 case trailer_end of
                                                   None \<Rightarrow> Some None
                                                 | Some trailer_end \<Rightarrow>
                                                     (let next = trailer_end + 4
                                                      in do { next_len \<leftarrow> c_strlen_at tail next;
                                                              (status, state, req, consumed) \<leftarrow>
                                                                request_step tail (ihtp_parser_state_reset state)
                                                                  next next_len policy;
                                                              if status \<noteq> IHTP_OK then Some None
                                                              else do { (status, req) \<leftarrow>
                                                                          ihtp_request_apply_semantics is_token tail
                                                                            req (Some policy);
                                                                        if status \<noteq> IHTP_OK then Some None
                                                                        else do { next_len \<leftarrow> c_strlen_at tail next;
                                                                                  Some (Some (len + next_len)) } } }) } } } })"

definition scenario_response_upgrade_parse_only ::
    "ihtp_parser_state_t \<Rightarrow> mem \<Rightarrow> nat \<Rightarrow> nat \<Rightarrow> scenario_result" where
  "scenario_response_upgrade_parse_only undef mem wire len =
     (let policy = IHTP_POLICY_IOHTTP
      in do { headers_end \<leftarrow> c_strstr mem wire [CR, LF, CR, LF];
              case headers_end of
                None \<Rightarrow> Some None
              | Some headers_end \<Rightarrow>
                  (let state = ihtp_parser_state_init (Some undef) IHTP_PARSER_MODE_RESPONSE
                   in do { (status, state, resp, consumed) \<leftarrow> response_step mem state wire len policy;
                           if status \<noteq> IHTP_OK then Some None
                           else if consumed \<noteq> size_sub (headers_end + 4) wire then Some None
                           else Some (Some consumed) }) })"

definition scenario_response_upgrade_parse_semantics ::
    "token_test \<Rightarrow> ihtp_parser_state_t \<Rightarrow> mem \<Rightarrow> nat \<Rightarrow> nat \<Rightarrow> scenario_result" where
  "scenario_response_upgrade_parse_semantics is_token undef mem wire len =
     (let policy = IHTP_POLICY_IOHTTP;
          state = ihtp_parser_state_init (Some undef) IHTP_PARSER_MODE_RESPONSE
      in do { (status, state, resp, consumed) \<leftarrow> response_step mem state wire len policy;
              if status \<noteq> IHTP_OK then Some None
              else do { (status, resp) \<leftarrow> ihtp_response_apply_semantics is_token mem resp (Some policy);
                        if status \<noteq> IHTP_OK then Some None
                        else if \<not> resp_protocol_upgrade (the resp) then Some None
                        else Some (Some consumed) } })"

definition scenario_consumer_ioguard_connect ::
    "token_test \<Rightarrow> ihtp_parser_state_t \<Rightarrow> mem \<Rightarrow> nat \<Rightarrow> nat \<Rightarrow> scenario_result" where
  "scenario_consumer_ioguard_connect is_token undef mem wire len =
     (let policy = IHTP_POLICY_IOGUARD;
          state = ihtp_parser_state_init (Some undef) IHTP_PARSER_MODE_REQUEST
      in do { (status, state, req, consumed) \<leftarrow> request_step mem state wire len policy;
              if status \<noteq> IHTP_OK then Some None
              else do { (status, req) \<leftarrow> ihtp_request_apply_semantics is_token mem req (Some policy);
                        if status \<noteq> IHTP_OK then Some None
                        else if req_method (the req) \<noteq> IHTP_METHOD_CONNECT then Some None
                        else Some (Some consumed) } })"

definition scenario_response_fixed_parse_semantics_body ::
    "token_test \<Rightarrow> ihtp_parser_state_t \<Rightarrow> ihtp_fixed_decoder_t \<Rightarrow> mem \<Rightarrow> nat \<Rightarrow> nat \<Rightarrow> scenario_result" where
  "scenario_response_fixed_parse_semantics_body is_token undef dec mem wire len =
     (let policy = IHTP_POLICY_IOHTTP;
          state = ihtp_parser_state_init (Some undef) IHTP_PARSER_MODE_RESPONSE
      in do { (status, state, resp, consumed) \<leftarrow> response_step mem state wire len policy;
              if status \<noteq> IHTP_OK then Some None
              else do { (status, resp) \<leftarrow> ihtp_response_apply_semantics is_token mem resp (Some policy);
                        if status \<noteq> IHTP_OK then Some None
                        else if resp_body_mode (the resp) \<noteq> IHTP_BODY_FIXED \<or> resp_content_length (the resp) = 0
                        then Some None
                        else
                          let content_length = resp_content_length (the resp);
                              dec = ihtp_fixed_decoder_init (Some dec) content_length
                          in if fst (ihtp_decode_fixed dec (unat content_length)) \<noteq> IHTP_OK then Some None
                             else Some (Some (consumed + unat content_length)) } })"

definition scenario_consumer_iohttp_fixed_response ::
    "token_test \<Rightarrow> ihtp_parser_state_t \<Rightarrow> ihtp_fixed_decoder_t \<Rightarrow> mem \<Rightarrow> nat \<Rightarrow> nat \<Rightarrow> scenario_result" where
  "scenario_consumer_iohttp_fixed_response is_token undef dec mem wire len =
     (let policy = IHTP_POLICY_IOHTTP;
          state = ihtp_parser_state_init (Some undef) IHTP_PARSER_MODE_RESPONSE
      in do { (status, state, resp, consumed) \<leftarrow> response_step mem state wire len policy;
              if status \<noteq> IHTP_OK then Some None
              else do { (status, resp) \<leftarrow> ihtp_response_apply_semantics is_token mem resp (Some policy);
                        if status \<noteq> IHTP_OK then Some None
                        else if resp_body_mode (the resp) \<noteq> IHTP_BODY_FIXED \<or> resp_content_length (the resp) = 0
                        then Some None
                        else
                          let body = wire + consumed;
                              content_length = resp_content_length (the resp);
                              dec = ihtp_fixed_decoder_init (Some dec) content_length
                          in if fst (ihtp_decode_fixed dec (unat content_length)) \<noteq> IHTP_OK then Some None
                             else
                               let next = body + unat content_length
                               in do { next_len \<leftarrow> c_strlen_at mem next;
                                       (status, state, resp, consumed) \<leftarrow>
                                         response_step mem (ihtp_parser_state_reset state) next next_len policy;
                                       if status \<noteq> IHTP_OK then Some None
                                       else do { (status, resp) \<leftarrow>
                                                   ihtp_response_apply_semantics is_token mem resp (Some policy);
                                                 if status \<noteq> IHTP_OK then Some None
                                                 else do { next_len \<leftarrow> c_strlen_at mem next;
                                                           Some (Some (len + next_len)) } } } } })"

definition scenario_consumer_ioguard_reject_te_cl ::
    "token_test \<Rightarrow> ihtp_parser_state_t \<Rightarrow> mem \<Rightarrow> nat \<Rightarrow> nat \<Rightarrow> scenario_result" where
  "scenario_consumer_ioguard_reject_te_cl is_token undef mem wire len =
     (let policy = IHTP_POLICY_IOGUARD;
          state = ihtp_parser_state_init (Some undef) IHTP_PARSER_MODE_REQUEST
      in do { (status, state, req, consumed) \<leftarrow> request_step mem state wire len policy;
              if status \<noteq> IHTP_OK then Some None
              else do { (status, req) \<leftarrow> ihtp_request_apply_semantics is_token mem req (Some policy);
                        if status \<noteq> IHTP_ERROR then Some None
                        else Some (Some consumed) } })"

definition scenario_policy_strict_request_semantics ::
    "token_test \<Rightarrow> ihtp_parser_state_t \<Rightarrow> mem \<Rightarrow> nat \<Rightarrow> nat \<Rightarrow> scenario_result" where
  "scenario_policy_strict_request_semantics is_token undef mem wire len =
     (let policy = IHTP_POLICY_STRICT;
          state = ihtp_parser_state_init (Some undef) IHTP_PARSER_MODE_REQUEST
      in do { (status, state, req, consumed) \<leftarrow> request_step mem state wire len policy;
              if status \<noteq> IHTP_OK then Some None
              else do { (status, req) \<leftarrow> ihtp_request_apply_semantics is_token mem req (Some policy);
                        if status \<noteq> IHTP_OK then Some None
                        else Some (Some consumed) } })"

definition scenario_policy_iohttp_request_semantics ::
    "token_test \<Rightarrow> ihtp_parser_state_t \<Rightarrow> mem \<Rightarrow> nat \<Rightarrow> nat \<Rightarrow> scenario_result" where
  "scenario_policy_iohttp_request_semantics is_token undef mem wire len =
     (let policy = IHTP_POLICY_IOHTTP;
          state = ihtp_parser_state_init (Some undef) IHTP_PARSER_MODE_REQUEST
      in do { (status, state, req, consumed) \<leftarrow> request_step mem state wire len policy;
              if status \<noteq> IHTP_OK then Some None
              else do { (status, req) \<leftarrow> ihtp_request_apply_semantics is_token mem req (Some policy);
                        if status \<noteq> IHTP_OK then Some None
                        else Some (Some consumed) } })"

definition scenario_policy_ioguard_request_semantics ::
    "token_test \<Rightarrow> ihtp_parser_state_t \<Rightarrow> mem \<Rightarrow> nat \<Rightarrow> nat \<Rightarrow> scenario_result" where
  "scenario_policy_ioguard_request_semantics is_token undef mem wire len =
     (let policy = IHTP_POLICY_IOGUARD;
          state = ihtp_parser_state_init (Some undef) IHTP_PARSER_MODE_REQUEST
      in do { (status, state, req, consumed) \<leftarrow> request_step mem state wire len policy;
              if status \<noteq> IHTP_OK then Some None
              else do { (status, req) \<leftarrow> ihtp_request_apply_semantics is_token mem req (Some policy);
                        if status \<noteq> IHTP_OK then Some None
                        else Some (Some consumed) } })"

definition scenario_zero_copy_request_parse ::
    "ihtp_parser_state_t \<Rightarrow> mem \<Rightarrow> nat \<Rightarrow> nat \<Rightarrow> scenario_result" where
  "scenario_zero_copy_request_parse undef mem wire len =
     (let policy = IHTP_POLICY_STRICT;
          state = ihtp_parser_state_init (Some undef) IHTP_PARSER_MODE_REQUEST
      in do { (status, state, req, consumed) \<leftarrow> request_step mem state wire len policy;
              if status \<noteq> IHTP_OK then Some None else Some (Some consumed) })"

text \<open>
  The observing scenario reads through the recorded pointers and adds to the global \<open>g_sink\<close>, a
  64-bit counter that it returns updated.
\<close>

definition deref :: "mem \<Rightarrow> ptr \<Rightarrow> nat \<Rightarrow> 64 word ub" where
  "deref mem p i = do { p \<leftarrow> p; b \<leftarrow> rd mem (p + i); Some (ucast b) }"

definition observe_ends :: "mem \<Rightarrow> ptr \<Rightarrow> nat \<Rightarrow> 64 word \<Rightarrow> 64 word ub" where
  "observe_ends mem p len sink =
     (if len > 0 then do { a \<leftarrow> deref mem p 0; b \<leftarrow> deref mem p (len - 1); Some (sink + a + b) }
      else Some sink)"

definition observe_header :: "mem \<Rightarrow> ihtp_header_t \<Rightarrow> 64 word \<Rightarrow> 64 word ub" where
  "observe_header mem h sink =
     (let sink = sink + word_of_nat (hdr_name_len h + hdr_value_len h)
      in do { sink \<leftarrow> (if hdr_name_len h > 0 then do { a \<leftarrow> deref mem (hdr_name h) 0; Some (sink + a) }
                       else Some sink);
              if hdr_value_len h > 0 then do { b \<leftarrow> deref mem (hdr_value h) (hdr_value_len h - 1); Some (sink + b) }
              else Some sink })"

function observe_headers :: "mem \<Rightarrow> ihtp_header_t list \<Rightarrow> nat \<Rightarrow> nat \<Rightarrow> 64 word \<Rightarrow> 64 word ub" where
  "observe_headers mem hs n i sink =
     (if i < n then
        do { h \<leftarrow> hdr_read hs i; sink \<leftarrow> observe_header mem h sink; observe_headers mem hs n (Suc i) sink }
      else Some sink)"
  by pat_completeness auto
termination
  by (relation "measure (\<lambda>(mem, hs, n, i, sink). n - i)") auto

declare observe_headers.simps [simp del]

definition scenario_zero_copy_request_observe ::
    "ihtp_parser_state_t \<Rightarrow> 64 word \<Rightarrow> mem \<Rightarrow> nat \<Rightarrow> nat \<Rightarrow> (nat option \<times> 64 word) ub" where
  "scenario_zero_copy_request_observe undef g_sink mem wire len =
     (let policy = IHTP_POLICY_STRICT;
          state = ihtp_parser_state_init (Some undef) IHTP_PARSER_MODE_REQUEST
      in do { (status, state, req, consumed) \<leftarrow> request_step mem state wire len policy;
              if status \<noteq> IHTP_OK then Some (None, g_sink)
              else
                let req = the req;
                    local_sink = word_of_nat (req_method_len req + req_path_len req + req_num_headers req)
                in do { local_sink \<leftarrow> observe_ends mem (req_method_str req) (req_method_len req) local_sink;
                        local_sink \<leftarrow> observe_ends mem (req_path req) (req_path_len req) local_sink;
                        local_sink \<leftarrow> observe_headers mem (req_headers req) (req_num_headers req) 0 local_sink;
                        Some (Some consumed, g_sink + local_sink) } })"

section \<open>The parser entries of the throughput comparison\<close>

datatype scenario_kind_t = SCENARIO_REQUEST | SCENARIO_RESPONSE

text \<open>The locals of these functions: a state, and uncleared message objects.\<close>

definition parse_ihtp_with_policy ::
    "ihtp_parser_state_t \<Rightarrow> ihtp_request_t \<Rightarrow> ihtp_response_t \<Rightarrow> mem \<Rightarrow> nat \<Rightarrow> nat \<Rightarrow> scenario_kind_t \<Rightarrow>
       ihtp_policy_t \<Rightarrow> scenario_result" where
  "parse_ihtp_with_policy undef req resp mem buf len kind policy =
     do { (status, consumed) \<leftarrow>
            (case kind of
               SCENARIO_REQUEST \<Rightarrow>
                 do { (status, _, consumed) \<leftarrow>
                        ihtp_parse_request undef mem (Some buf) len (Some req) (Some policy) (Some 0);
                      Some (status, consumed) }
             | SCENARIO_RESPONSE \<Rightarrow>
                 do { (status, _, consumed) \<leftarrow>
                        ihtp_parse_response undef mem (Some buf) len (Some resp) (Some policy) (Some 0);
                      Some (status, consumed) });
          if status \<noteq> IHTP_OK then Some None
          else if consumed \<noteq> Some len then Some None
          else Some consumed }"

definition parse_ihtp_strict ::
    "ihtp_parser_state_t \<Rightarrow> ihtp_request_t \<Rightarrow> ihtp_response_t \<Rightarrow> mem \<Rightarrow> nat \<Rightarrow> nat \<Rightarrow> scenario_kind_t \<Rightarrow>
       scenario_result" where
  "parse_ihtp_strict undef req resp mem buf len kind =
     parse_ihtp_with_policy undef req resp mem buf len kind IHTP_POLICY_STRICT"

definition parse_ihtp_lenient ::
    "ihtp_parser_state_t \<Rightarrow> ihtp_request_t \<Rightarrow> ihtp_response_t \<Rightarrow> mem \<Rightarrow> nat \<Rightarrow> nat \<Rightarrow> scenario_kind_t \<Rightarrow>
       scenario_result" where
  "parse_ihtp_lenient undef req resp mem buf len kind =
     parse_ihtp_with_policy undef req resp mem buf len kind IHTP_POLICY_LENIENT"

definition parse_ihtp_stateful_with_policy ::
    "ihtp_parser_state_t \<Rightarrow> mem \<Rightarrow> nat \<Rightarrow> nat \<Rightarrow> scenario_kind_t \<Rightarrow> ihtp_policy_t \<Rightarrow> scenario_result" where
  "parse_ihtp_stateful_with_policy undef mem buf len kind policy =
     do { (status, consumed) \<leftarrow>
            (case kind of
               SCENARIO_REQUEST \<Rightarrow>
                 do { (status, _, _, consumed) \<leftarrow>
                        request_step mem (ihtp_parser_state_init (Some undef) IHTP_PARSER_MODE_REQUEST) buf len policy;
                      Some (status, consumed) }
             | SCENARIO_RESPONSE \<Rightarrow>
                 do { (status, _, _, consumed) \<leftarrow>
                        response_step mem (ihtp_parser_state_init (Some undef) IHTP_PARSER_MODE_RESPONSE) buf len
                          policy;
                      Some (status, consumed) });
          if status \<noteq> IHTP_OK then Some None
          else if consumed \<noteq> len then Some None
          else Some (Some consumed) }"

definition parse_ihtp_stateful_strict ::
    "ihtp_parser_state_t \<Rightarrow> mem \<Rightarrow> nat \<Rightarrow> nat \<Rightarrow> scenario_kind_t \<Rightarrow> scenario_result" where
  "parse_ihtp_stateful_strict undef mem buf len kind =
     parse_ihtp_stateful_with_policy undef mem buf len kind IHTP_POLICY_STRICT"

definition parse_ihtp_stateful_lenient ::
    "ihtp_parser_state_t \<Rightarrow> mem \<Rightarrow> nat \<Rightarrow> nat \<Rightarrow> scenario_kind_t \<Rightarrow> scenario_result" where
  "parse_ihtp_stateful_lenient undef mem buf len kind =
     parse_ihtp_stateful_with_policy undef mem buf len kind IHTP_POLICY_LENIENT"

section \<open>A parser is as good as new after a reset\<close>

lemma request_stateful_mode:
  "request_stateful mem p n pol s r = Some (st, s', r', k) \<Longrightarrow> ps_mode s' = ps_mode s"
  unfolding request_stateful_def request_start_line_def request_headers_def
  by (auto simp: Let_def bind_eq_Some_conv split: if_splits ctl.splits prod.splits)

lemma response_stateful_mode:
  "response_stateful mem p n pol s r = Some (st, s', r', k) \<Longrightarrow> ps_mode s' = ps_mode s"
  unfolding response_stateful_def response_start_line_def response_headers_def
  by (auto simp: Let_def bind_eq_Some_conv split: if_splits ctl.splits prod.splits)

lemma request_step_init:
  "request_step mem (ihtp_parser_state_init (Some undef) IHTP_PARSER_MODE_REQUEST) p n policy =
     do { (status, s, req, k) \<leftarrow>
            request_stateful mem p n (Some policy) (fresh_state IHTP_PARSER_MODE_REQUEST) zero_request;
          Some (status, Some s, Some req, k) }"
  by (cases "request_stateful mem p n (Some policy) (fresh_state IHTP_PARSER_MODE_REQUEST) zero_request")
    (auto simp: request_step_def state_init_fresh ihtp_parse_request_stateful_def fresh_state_def)

lemma response_step_init:
  "response_step mem (ihtp_parser_state_init (Some undef) IHTP_PARSER_MODE_RESPONSE) p n policy =
     do { (status, s, resp, k) \<leftarrow>
            response_stateful mem p n (Some policy) (fresh_state IHTP_PARSER_MODE_RESPONSE) zero_response;
          Some (status, Some s, Some resp, k) }"
  by (cases "response_stateful mem p n (Some policy) (fresh_state IHTP_PARSER_MODE_RESPONSE) zero_response")
    (auto simp: response_step_def state_init_fresh ihtp_parse_response_stateful_def fresh_state_def)

lemma request_step_reset:
  assumes "request_step mem (ihtp_parser_state_init (Some undef) IHTP_PARSER_MODE_REQUEST) p n policy =
             Some (st, state, req, k)"
  shows "ihtp_parser_state_reset state = ihtp_parser_state_init (Some undef) IHTP_PARSER_MODE_REQUEST"
proof -
  from assms obtain s r where "request_stateful mem p n (Some policy) (fresh_state IHTP_PARSER_MODE_REQUEST)
      zero_request = Some (st, s, r, k)" "state = Some s"
    by (auto simp: request_step_init bind_eq_Some_conv)
  with request_stateful_mode [of mem p n "Some policy"] show ?thesis
    by (fastforce simp: ihtp_parser_state_reset_def ihtp_parser_state_init_def fresh_state_def)
qed

lemma response_step_reset:
  assumes "response_step mem (ihtp_parser_state_init (Some undef) IHTP_PARSER_MODE_RESPONSE) p n policy =
             Some (st, state, resp, k)"
  shows "ihtp_parser_state_reset state = ihtp_parser_state_init (Some undef) IHTP_PARSER_MODE_RESPONSE"
proof -
  from assms obtain s r where "response_stateful mem p n (Some policy) (fresh_state IHTP_PARSER_MODE_RESPONSE)
      zero_response = Some (st, s, r, k)" "state = Some s"
    by (auto simp: response_step_init bind_eq_Some_conv)
  with response_stateful_mode [of mem p n "Some policy"] show ?thesis
    by (fastforce simp: ihtp_parser_state_reset_def ihtp_parser_state_init_def fresh_state_def)
qed

section \<open>Stateless and stateful parser entries agree\<close>

lemma parse_entries_agree:
  "parse_ihtp_with_policy undef req resp mem buf len kind policy =
     parse_ihtp_stateful_with_policy undef' mem buf len kind policy"
proof (cases kind)
  case SCENARIO_REQUEST
  then show ?thesis
    by (cases "request_stateful mem buf len (Some policy) (fresh_state IHTP_PARSER_MODE_REQUEST) zero_request")
      (auto simp: parse_ihtp_with_policy_def parse_ihtp_stateful_with_policy_def parse_request_nonnull
         request_step_init)
next
  case SCENARIO_RESPONSE
  then show ?thesis
    by (cases "response_stateful mem buf len (Some policy) (fresh_state IHTP_PARSER_MODE_RESPONSE) zero_response")
      (auto simp: parse_ihtp_with_policy_def parse_ihtp_stateful_with_policy_def parse_response_nonnull
         response_step_init)
qed

section \<open>A printed message, stepped over\<close>

lemma printed_request_step:
  assumes "request_parts_ok (Some policy) m t fs" and "p = length pre"
    and "n = length (render_request m t v fs @ rest)"
  shows "\<exists>state. request_step (pre @ render_request m t v fs @ rest @ post)
             (ihtp_parser_state_init (Some undef) IHTP_PARSER_MODE_REQUEST) p n policy =
           Some (IHTP_OK, state, Some (printed_request p m t v fs), length (render_request m t v fs))"
  using printed_request_parsed [of "Some policy" m t fs p pre n v rest undef post zero_request 0] assms
  by (auto simp: parse_request_nonnull request_step_init resolve_policy_def bind_eq_Some_conv)

lemma printed_response_step:
  assumes "response_parts_ok ds reason fs" and "p = length pre"
    and "n = length (render_response v ds reason fs @ rest)"
  shows "\<exists>state. response_step (pre @ render_response v ds reason fs @ rest @ post)
             (ihtp_parser_state_init (Some undef) IHTP_PARSER_MODE_RESPONSE) p n policy =
           Some (IHTP_OK, state, Some (printed_response p v ds reason fs), length (render_response v ds reason fs))"
  using printed_response_parsed [of ds reason fs p pre n v rest undef post zero_response "Some policy" 0] assms
  by (auto simp: parse_response_nonnull response_step_init resolve_policy_def bind_eq_Some_conv)

lemma policy_or_strict_Some [simp]: "policy_or_strict (Some p) = p"
  by (simp add: policy_or_strict_def)

text \<open>The presets for consumers are the strict policy.\<close>

lemma presets [simp]: "IHTP_POLICY_IOHTTP = IHTP_POLICY_STRICT" "IHTP_POLICY_IOGUARD = IHTP_POLICY_STRICT"
  by (simp_all add: IHTP_POLICY_IOHTTP_def IHTP_POLICY_IOGUARD_def)

section \<open>The body behind a head\<close>

lemma c_memcpy_front:
  assumes "n \<le> length dst" and "p = length pre" and "n = length xs"
  shows "c_memcpy_from dst 0 (pre @ xs @ post) p n = Some (xs @ drop n dst)"
  using assms span_mid [of p pre n xs post] by (simp add: c_memcpy_from_def)

text \<open>
  Decoding an encoded body at the front of a buffer: payload, the bytes behind the body, and the rest
  of the buffer as it was, of which the first bytes are left over from the moves.
\<close>

lemma decoded_in_buffer:
  assumes "list_all (\<lambda>xs. xs \<noteq> []) xss" and "list_all (\<lambda>l. line_text l \<and> l \<noteq> []) ls"
    and "length (encode_body ct xss ls @ rest) < 2 ^ 31"
  defines "body \<equiv> encode_body ct xss ls"
  shows "\<exists>d stale. stale = drop (length (concat xss @ rest)) (body @ rest) \<and>
           ihtp_decode_chunked (Some (zero_decoder ct)) (body @ rest @ post) (Some 0)
             (Some (length (body @ rest))) =
           Some (int (length rest), Some d, concat xss @ rest @ stale @ post, Some (length (concat xss)))"
proof -
  from encode_body_decodes [OF assms(1-3)] chunked_call_exact [OF zero_decoder_ok assms(3), of ct] obtain d where
    run: "chunk_bytes (zero_decoder ct) (body @ rest) = Done d (concat xss) rest" by (auto simp: body_def)
  let ?mem = "body @ rest @ post"
  have "span ?mem 0 (length (body @ rest)) = body @ rest" by (simp add: span_def)
  with decode_chunked_refines [OF zero_decoder_ok, of 0 "length (body @ rest)" ?mem ct] run
    size_as_status_small [of "length rest"] assms(3) obtain mem' where
    call: "ihtp_decode_chunked (Some (zero_decoder ct)) ?mem (Some 0) (Some (length (body @ rest))) =
       Some (int (length rest), Some d, mem', Some (length (concat xss)))"
    and front: "span mem' 0 (length (concat xss) + length rest) = concat xss @ rest"
    and beyond: "drop (length (concat xss) + length rest) mem' = drop (length (concat xss) + length rest) ?mem"
    by (auto simp: chunk_post_def)
  define k where "k = length (concat xss) + length rest"
  have "k \<le> length (body @ rest)"
    using outcome_length [where d = "zero_decoder ct" and s = "body @ rest"] run by (simp add: k_def)
  then have "drop k ?mem = drop k (body @ rest) @ post" by simp
  moreover have "mem' = take k mem' @ drop k mem'" by simp
  moreover have "take k mem' = concat xss @ rest" using front by (simp add: span_def k_def)
  ultimately have "mem' = (concat xss @ rest) @ drop k (body @ rest) @ post" using beyond by (simp add: k_def)
  then show ?thesis using call by (simp add: k_def)
qed

section \<open>Strings\<close>

lemma c_string_at:
  assumes "0 \<notin> set xs" and "p = length pre"
  shows "c_string (pre @ xs @ post) p =
           (if 0 \<in> set post then Some (xs @ takeWhile (\<lambda>b. b \<noteq> 0) post) else None)"
proof -
  have "\<forall>b\<in>set xs. b \<noteq> 0" using assms(1) by auto
  with assms show ?thesis by (simp add: c_string_def takeWhile_append2)
qed

lemma find_text_skip:
  assumes "x = c # y" and "c \<notin> set xs"
  shows "find_text x (xs @ s) = map_option (\<lambda>i. length xs + i) (find_text x s)"
proof -
  have "find_text x (xs @ s) = (case find_text x s of None \<Rightarrow> None | Some i \<Rightarrow> Some (length xs + i))"
    using assms(2) by (induction xs) (auto simp: assms(1) split: option.splits)
  then show ?thesis by (simp split: option.splits)
qed

text \<open>The end of a nonempty trailer section is the first empty line.\<close>

lemma find_line_text:
  assumes "line_text l"
  shows "find_text [CR, LF, CR, LF] (l @ [CR, LF] @ s) =
           (if take (Suc (Suc 0)) s = [CR, LF] then Some (length l)
            else map_option (\<lambda>i. length l + Suc (Suc i)) (find_text [CR, LF, CR, LF] s))"
proof -
  have "CR \<notin> set l" using assms by (auto simp: line_text_def list_all_iff)
  then have "find_text [CR, LF, CR, LF] (l @ [CR, LF] @ s) =
      map_option (\<lambda>i. length l + i) (find_text [CR, LF, CR, LF] ([CR, LF] @ s))"
    by (rule find_text_skip [OF refl])
  moreover have "find_text [CR, LF, CR, LF] ([CR, LF] @ s) =
      (if take (Suc (Suc 0)) s = [CR, LF] then Some 0
       else map_option (\<lambda>i. Suc (Suc i)) (find_text [CR, LF, CR, LF] s))"
    by (cases "find_text [CR, LF, CR, LF] s") simp_all
  ultimately show ?thesis by (cases "find_text [CR, LF, CR, LF] s") simp_all
qed

abbreviation trailer_text :: "byte list list \<Rightarrow> byte list" where
  "trailer_text ls \<equiv> concat (map (\<lambda>l. l @ [CR, LF]) ls)"

lemma trailer_text_bytes: "l \<in> set ls \<Longrightarrow> set l \<subseteq> set (trailer_text ls)"
  by (induction ls) auto

lemma find_trailer_end:
  assumes "ls \<noteq> []" and "list_all (\<lambda>l. line_text l \<and> l \<noteq> []) ls"
  shows "find_text [CR, LF, CR, LF] (trailer_text ls @ [CR, LF] @ s) = Some (length (trailer_text ls) - 2)"
  using assms
proof (induction ls)
  case (Cons l ls)
  show ?case
  proof (cases "ls = []")
    case True
    with Cons.prems find_line_text [of l "[CR, LF] @ s"] show ?thesis by simp
  next
    case False
    then obtain c k ls' where ls: "ls = (c # k) # ls'" and c: "c \<noteq> CR" using Cons.prems
      by (cases ls) (auto simp: neq_Nil_conv)
    have "take (Suc (Suc 0)) (trailer_text ls @ [CR, LF] @ s) \<noteq> [CR, LF]" using c by (simp add: ls)
    moreover have "find_text [CR, LF, CR, LF] (trailer_text ls @ [CR, LF] @ s) = Some (length (trailer_text ls) - 2)"
      using Cons.IH Cons.prems False by simp
    moreover have "2 \<le> length (trailer_text ls)" by (simp add: ls)
    ultimately show ?thesis
      using Cons.prems find_line_text [of l "trailer_text ls @ [CR, LF] @ s"] by simp
  qed
qed simp

lemma find_text_extend: "find_text x s = Some i \<Longrightarrow> i + length x \<le> length s \<and> find_text x (s @ u) = Some i"
proof (induction s arbitrary: i)
  case Nil
  then show ?case by (cases u) (simp_all split: if_splits)
next
  case (Cons c s)
  show ?case
  proof (cases "take (length x) (c # s) = x")
    case True
    then have "length x \<le> length (c # s)" by (metis length_take min.cobounded1)
    then have "take (length x) ((c # s) @ u) = take (length x) (c # s)" by (simp only: take_append) simp
    with True Cons.prems \<open>length x \<le> length (c # s)\<close> show ?thesis by simp
  next
    case False
    with Cons.prems obtain j where j: "find_text x s = Some j" "i = Suc j" by auto
    with Cons.IH [of j] have le: "j + length x \<le> length s" and more: "find_text x (s @ u) = Some j" by auto
    then have "take (length x) ((c # s) @ u) = take (length x) (c # s)" by (simp only: take_append) simp
    with False more le j show ?thesis by simp
  qed
qed

text \<open>What a NUL cuts off: no empty line is left before it.\<close>

lemma find_trailer_cut:
  assumes "ls \<noteq> []" and "list_all (\<lambda>l. line_text l \<and> l \<noteq> []) ls" and "trailer_text ls = s @ b # w"
  shows "find_text [CR, LF, CR, LF] s = None"
proof (cases "find_text [CR, LF, CR, LF] s")
  case (Some i)
  have "find_text [CR, LF, CR, LF] (trailer_text ls @ [CR, LF] @ []) = Some i" and "i + 4 \<le> length s"
    using find_text_extend [OF Some, of "(b # w) @ [CR, LF] @ []"] by (simp_all add: assms(3))
  with find_trailer_end [OF assms(1,2), of "[]"] have "i = length (trailer_text ls) - 2" by simp
  with \<open>i + 4 \<le> length s\<close> show ?thesis by (simp add: assms(3))
qed

section \<open>The scenarios on printed wires\<close>

text \<open>A printed request or response has no NUL.\<close>

lemma tchar_not_NUL: "tchar b \<Longrightarrow> b \<noteq> 0"
  by (auto simp: tchar_def ascii_def ihtp_is_digit_def is_alpha_def)

lemma text_byte_not_NUL: "text_byte b \<Longrightarrow> b \<noteq> 0"
  by (auto simp: text_byte_def)

lemma fields_not_NUL: "list_all field_ok fs \<Longrightarrow> 0 \<notin> set (concat (map render_header fs))"
  by (induction fs) (auto simp: field_ok_def render_header_def list_all_iff dest: tchar_not_NUL text_byte_not_NUL)

lemma request_not_NUL: "request_parts_ok policy m t fs \<Longrightarrow> 0 \<notin> set (render_request m t v fs)"
  using fields_not_NUL [of fs]
  by (cases v) (auto simp: request_parts_ok_def render_request_def list_all_iff target_byte_def ascii_def
      dest: tchar_not_NUL)

lemma response_not_NUL: "response_parts_ok ds reason fs \<Longrightarrow> 0 \<notin> set (render_response v ds reason fs)"
  using fields_not_NUL [of fs]
  by (cases v) (auto simp: response_parts_ok_def render_response_def list_all_iff ihtp_is_digit_def ascii_def
      dest: text_byte_not_NUL)

context token_scanner
begin

lemma decided_request_step:
  assumes "request_parts_ok (Some policy) m t fs" and "p = length pre"
    and "n = length (render_request m t v fs @ rest)"
  shows "\<exists>state req'. request_step (pre @ render_request m t v fs @ rest @ post)
             (ihtp_parser_state_init (Some undef) IHTP_PARSER_MODE_REQUEST) p n policy =
           Some (IHTP_OK, state, Some (printed_request p m t v fs), length (render_request m t v fs)) \<and>
         ihtp_request_apply_semantics is_token (pre @ render_request m t v fs @ rest @ post)
             (Some (printed_request p m t v fs)) (Some policy) =
           Some (if request_accepted policy v fs then IHTP_OK else IHTP_ERROR, Some req') \<and>
         (request_accepted policy v fs \<longrightarrow> req' = request_decision fs (printed_request p m t v fs)) \<and>
         ihtp_parser_state_reset state = ihtp_parser_state_init (Some undef) IHTP_PARSER_MODE_REQUEST"
proof -
  from printed_request_step [OF assms, of post undef] obtain state where
    st: "request_step (pre @ render_request m t v fs @ rest @ post)
             (ihtp_parser_state_init (Some undef) IHTP_PARSER_MODE_REQUEST) p n policy =
           Some (IHTP_OK, state, Some (printed_request p m t v fs), length (render_request m t v fs))" by blast
  have "request_parts_ok (resolve_policy (Some policy)) m t fs" using assms(1) by (simp add: resolve_policy_def)
  from printed_request_decided_at [OF token_scanner_axioms this assms(2), of v "rest @ post"] st
    request_step_reset [OF st]
  show ?thesis by auto
qed

lemma decided_response_step:
  assumes "response_parts_ok ds reason fs" and "p = length pre"
    and "n = length (render_response v ds reason fs @ rest)"
  shows "\<exists>state resp'. response_step (pre @ render_response v ds reason fs @ rest @ post)
             (ihtp_parser_state_init (Some undef) IHTP_PARSER_MODE_RESPONSE) p n policy =
           Some (IHTP_OK, state, Some (printed_response p v ds reason fs), length (render_response v ds reason fs)) \<and>
         ihtp_response_apply_semantics is_token (pre @ render_response v ds reason fs @ rest @ post)
             (Some (printed_response p v ds reason fs)) (Some policy) =
           Some (if response_accepted policy (decimal_value ds) fs then IHTP_OK else IHTP_ERROR, Some resp') \<and>
         (response_accepted policy (decimal_value ds) fs \<longrightarrow>
            resp' = response_decision fs (printed_response p v ds reason fs)) \<and>
         ihtp_parser_state_reset state = ihtp_parser_state_init (Some undef) IHTP_PARSER_MODE_RESPONSE"
proof -
  from printed_response_step [OF assms, of post undef] obtain state where
    st: "response_step (pre @ render_response v ds reason fs @ rest @ post)
             (ihtp_parser_state_init (Some undef) IHTP_PARSER_MODE_RESPONSE) p n policy =
           Some (IHTP_OK, state, Some (printed_response p v ds reason fs), length (render_response v ds reason fs))"
    by blast
  from printed_response_decided_at [OF token_scanner_axioms assms(1,2), of v "rest @ post" "Some policy"] st
    response_step_reset [OF st]
  show ?thesis by auto
qed

text \<open>Two requests in one buffer, a chunked body between them.\<close>

lemma pipeline_run:
  fixes v v' :: ihtp_http_version_t and u :: "byte list"
  assumes "request_parts_ok (Some IHTP_POLICY_STRICT) m t fs" and "request_accepted IHTP_POLICY_STRICT v fs"
    and "request_parts_ok (Some IHTP_POLICY_STRICT) m' t' fs'" and "request_accepted IHTP_POLICY_STRICT v' fs'"
    and "list_all (\<lambda>xs. xs \<noteq> []) xss" and "list_all (\<lambda>l. line_text l \<and> l \<noteq> []) ls"
    and "length tail = 256"
  defines "body \<equiv> encode_body True xss ls" and "q \<equiv> render_request m' t' v' fs' @ u"
  defines "wire \<equiv> render_request m t v fs @ body @ q"
  shows "scenario_consumer_iohttp_pipeline is_token undef tail (wire @ post) 0 (length wire) =
           Some (if length (body @ q) < 256 then Some (length wire + length q) else None)"
proof -
  from decided_request_step [OF assms(1) _ refl, of 0 "[]" v "body @ q" post undef] assms(2) obtain state req where
    s: "request_step (wire @ post) (ihtp_parser_state_init (Some undef) IHTP_PARSER_MODE_REQUEST) 0 (length wire)
          IHTP_POLICY_STRICT = Some (IHTP_OK, state, Some (printed_request 0 m t v fs), length (render_request m t v fs))"
      "ihtp_request_apply_semantics is_token (wire @ post) (Some (printed_request 0 m t v fs)) (Some IHTP_POLICY_STRICT) =
         Some (IHTP_OK, Some req)"
      "ihtp_parser_state_reset state = ihtp_parser_state_init (Some undef) IHTP_PARSER_MODE_REQUEST"
    by (auto simp: wire_def)
  have sub: "size_sub (length wire) (length (render_request m t v fs)) = length (body @ q)"
    by (simp add: wire_def)
  show ?thesis
  proof (cases "length (body @ q) < 256")
    case False
    then show ?thesis
      unfolding scenario_consumer_iohttp_pipeline_def Let_def presets s(1) bind.simps prod.case s(2) sub by simp
  next
    case True
    have cp: "c_memcpy_from tail 0 (wire @ post) (0 + length (render_request m t v fs)) (length (body @ q)) =
        Some (body @ q @ drop (length (body @ q)) tail)"
      using c_memcpy_front [of "length (body @ q)" tail _ "render_request m t v fs" "body @ q" post] True assms(7)
      by (simp add: wire_def)
    from decoded_in_buffer [OF assms(5,6), of True "q" "drop (length (body @ q)) tail"] True obtain d stale where
      dec: "ihtp_decode_chunked (Some (zero_decoder True)) (body @ q @ drop (length (body @ q)) tail) (Some 0)
         (Some (length (body @ q))) = Some (int (length q), Some d,
           concat xss @ q @ stale @ drop (length (body @ q)) tail, Some (length (concat xss)))"
      by (auto simp: body_def)
    define tail2 where "tail2 = concat xss @ q @ stale @ drop (length (body @ q)) tail"
    have t2: "concat xss @ render_request m' t' v' fs' @ u @ stale @ drop (length (body @ q)) tail = tail2"
      by (simp add: tail2_def q_def)
    from decided_request_step [OF assms(3) refl refl, of "concat xss" v' u "stale @ drop (length (body @ q)) tail"
        undef, unfolded t2, folded q_def] assms(4) obtain state2 req2 where
      s2: "request_step tail2 (ihtp_parser_state_init (Some undef) IHTP_PARSER_MODE_REQUEST) (length (concat xss))
          (length q) IHTP_POLICY_STRICT =
          Some (IHTP_OK, state2, Some (printed_request (length (concat xss)) m' t' v' fs'),
                length (render_request m' t' v' fs'))"
      "ihtp_request_apply_semantics is_token tail2 (Some (printed_request (length (concat xss)) m' t' v' fs'))
         (Some IHTP_POLICY_STRICT) = Some (IHTP_OK, Some req2)" by auto
    show ?thesis
      unfolding scenario_consumer_iohttp_pipeline_def Let_def presets s(1) bind.simps prod.case s(2) sub cp dec
        tail2_def [symmetric] s(3) option.sel nat_int s2
      using True by simp
  qed
qed

text \<open>
  The consumer that owns the trailers looks for their end and for the end of the next request with
  \<open>strstr\<close> and \<open>strlen\<close>, in a buffer that nobody terminated.
\<close>

lemma expect_trailers_search:
  fixes v' :: ihtp_http_version_t and out unread :: "byte list"
  assumes "request_parts_ok (Some IHTP_POLICY_STRICT) m' t' fs'" and "request_accepted IHTP_POLICY_STRICT v' fs'"
    and "list_all (\<lambda>l. line_text l \<and> l \<noteq> []) ls" and "ls \<noteq> []" and "0 \<notin> set (trailer_text ls)"
  defines "nxt \<equiv> render_request m' t' v' fs'"
  defines "tail2 \<equiv> out @ (trailer_text ls @ [CR, LF] @ nxt) @ unread"
  assumes start: "run =
      do { trailer_end \<leftarrow> c_strstr tail2 (length out) [CR, LF, CR, LF];
           case trailer_end of
             None \<Rightarrow> Some None
           | Some trailer_end \<Rightarrow>
               do { next_len \<leftarrow> c_strlen_at tail2 (trailer_end + 4);
                    (status, state, req, consumed) \<leftarrow>
                      request_step tail2 (ihtp_parser_state_init (Some undef) IHTP_PARSER_MODE_REQUEST)
                        (trailer_end + 4) next_len IHTP_POLICY_STRICT;
                    if status \<noteq> IHTP_OK then Some None
                    else do { (status, req) \<leftarrow>
                                ihtp_request_apply_semantics is_token tail2 req (Some IHTP_POLICY_STRICT);
                              if status \<noteq> IHTP_OK then Some None
                              else do { next_len \<leftarrow> c_strlen_at tail2 (trailer_end + 4);
                                        Some (Some (len + next_len)) } } } }"
  shows "run = (if 0 \<in> set unread then Some (Some (len + length nxt + length (takeWhile (\<lambda>b. b \<noteq> 0) unread))) else None)"
proof -
  have nul: "0 \<notin> set nxt" using request_not_NUL [OF assms(1)] by (simp add: nxt_def)
  let ?z = "0 \<in> set unread" and ?junk = "takeWhile (\<lambda>b. b \<noteq> 0) unread"
  let ?P = "out @ trailer_text ls @ [CR, LF]"
  have str1: "c_string tail2 (length out) = (if ?z then Some (trailer_text ls @ [CR, LF] @ nxt @ ?junk) else None)"
    unfolding tail2_def using nul assms(5) by (subst c_string_at) auto
  have "2 \<le> length (trailer_text ls)" using assms(4) by (cases ls) auto
  then have pos: "length out + (length (trailer_text ls) - 2) + 4 = length ?P" by simp
  have t3: "tail2 = ?P @ nxt @ unread" by (simp add: tail2_def)
  have str2: "c_strlen_at tail2 (length ?P) = (if ?z then Some (length (nxt @ ?junk)) else None)"
    unfolding c_strlen_at_def t3 using nul by (subst c_string_at) auto
  have find: "c_strstr tail2 (length out) [CR, LF, CR, LF] =
      (if ?z then Some (Some (length out + (length (trailer_text ls) - 2))) else None)"
    using find_trailer_end [OF assms(4,3), of "nxt @ ?junk"] by (simp add: c_strstr_def str1)
  show ?thesis
  proof (cases ?z)
    case False
    with start find show ?thesis by simp
  next
    case True
    have "unread = ?junk @ dropWhile (\<lambda>b. b \<noteq> 0) unread" by simp
    then have t4: "?P @ render_request m' t' v' fs' @ ?junk @ dropWhile (\<lambda>b. b \<noteq> 0) unread = tail2"
      unfolding t3 nxt_def by simp
    from decided_request_step [OF assms(1) refl refl, of ?P v' ?junk "dropWhile (\<lambda>b. b \<noteq> 0) unread" undef,
        unfolded t4, folded nxt_def] assms(2) obtain state2 req2 where
      s2: "request_step tail2 (ihtp_parser_state_init (Some undef) IHTP_PARSER_MODE_REQUEST) (length ?P)
          (length (nxt @ ?junk)) IHTP_POLICY_STRICT =
          Some (IHTP_OK, state2, Some (printed_request (length ?P) m' t' v' fs'), length nxt)"
      "ihtp_request_apply_semantics is_token tail2 (Some (printed_request (length ?P) m' t' v' fs'))
         (Some IHTP_POLICY_STRICT) = Some (IHTP_OK, Some req2)" by auto
    have "run = Some (Some (len + length (nxt @ ?junk)))"
      unfolding start find if_P [OF True] bind.simps option.case pos str2 s2 prod.case by simp
    with True show ?thesis by simp
  qed
qed

lemma expect_trailers_run:
  fixes v v' :: ihtp_http_version_t
  assumes "request_parts_ok (Some IHTP_POLICY_STRICT) m t fs" and "request_accepted IHTP_POLICY_STRICT v fs"
    and "request_parts_ok (Some IHTP_POLICY_STRICT) m' t' fs'" and "request_accepted IHTP_POLICY_STRICT v' fs'"
    and "list_all (\<lambda>xs. xs \<noteq> []) xss" and "list_all (\<lambda>l. line_text l \<and> l \<noteq> []) ls" and "ls \<noteq> []"
    and "length tail = 320"
  defines "body \<equiv> encode_body False xss []" and "nxt \<equiv> render_request m' t' v' fs'"
  defines "q \<equiv> trailer_text ls @ [CR, LF] @ nxt"
  defines "wire \<equiv> render_request m t v fs @ body @ q"
  defines "unread \<equiv> drop (length (concat xss @ q)) (body @ q) @ drop (length (body @ q)) tail"
  shows "scenario_consumer_iohttp_expect_trailers is_token undef tail (wire @ post) 0 (length wire) =
           (if 320 \<le> length (body @ q) \<or> 0 \<in> set (trailer_text ls) then Some None
            else if 0 \<in> set unread
            then Some (Some (length wire + length nxt + length (takeWhile (\<lambda>b. b \<noteq> 0) unread)))
            else None)"
proof -
  from decided_request_step [OF assms(1) _ refl, of 0 "[]" v "body @ q" post undef] assms(2) obtain state req where
    s: "request_step (wire @ post) (ihtp_parser_state_init (Some undef) IHTP_PARSER_MODE_REQUEST) 0 (length wire)
          IHTP_POLICY_STRICT = Some (IHTP_OK, state, Some (printed_request 0 m t v fs), length (render_request m t v fs))"
      "ihtp_request_apply_semantics is_token (wire @ post) (Some (printed_request 0 m t v fs)) (Some IHTP_POLICY_STRICT) =
         Some (IHTP_OK, Some req)"
      "ihtp_parser_state_reset state = ihtp_parser_state_init (Some undef) IHTP_PARSER_MODE_REQUEST"
    by (auto simp: wire_def)
  have sub: "size_sub (length wire) (length (render_request m t v fs)) = length (body @ q)"
    by (simp add: wire_def)
  show ?thesis
  proof (cases "length (body @ q) < 320")
    case False
    then show ?thesis
      unfolding scenario_consumer_iohttp_expect_trailers_def Let_def presets s(1) bind.simps prod.case s(2) sub by simp
  next
    case fits: True
    have cp: "c_memcpy_from tail 0 (wire @ post) (0 + length (render_request m t v fs)) (length (body @ q)) =
        Some (body @ q @ drop (length (body @ q)) tail)"
      using c_memcpy_front [of "length (body @ q)" tail _ "render_request m t v fs" "body @ q" post] assms(8) fits
      by (simp add: wire_def)
    define tail2 where "tail2 = concat xss @ q @ unread"
    from decoded_in_buffer [OF assms(5), of "[]" False "q" "drop (length (body @ q)) tail"] fits obtain d where
      dec: "ihtp_decode_chunked (Some (zero_decoder False)) (body @ q @ drop (length (body @ q)) tail) (Some 0)
         (Some (length (body @ q))) = Some (int (length q), Some d, tail2, Some (length (concat xss)))"
      by (auto simp: body_def tail2_def unread_def)
    have start: "scenario_consumer_iohttp_expect_trailers is_token undef tail (wire @ post) 0 (length wire) =
        do { trailer_end \<leftarrow> c_strstr tail2 (length (concat xss)) [CR, LF, CR, LF];
             case trailer_end of
               None \<Rightarrow> Some None
             | Some trailer_end \<Rightarrow>
                 do { next_len \<leftarrow> c_strlen_at tail2 (trailer_end + 4);
                      (status, state, req, consumed) \<leftarrow>
                        request_step tail2 (ihtp_parser_state_init (Some undef) IHTP_PARSER_MODE_REQUEST)
                          (trailer_end + 4) next_len IHTP_POLICY_STRICT;
                      if status \<noteq> IHTP_OK then Some None
                      else do { (status, req) \<leftarrow>
                                  ihtp_request_apply_semantics is_token tail2 req (Some IHTP_POLICY_STRICT);
                                if status \<noteq> IHTP_OK then Some None
                                else do { next_len \<leftarrow> c_strlen_at tail2 (trailer_end + 4);
                                          Some (Some (length wire + next_len)) } } } }"
      unfolding scenario_consumer_iohttp_expect_trailers_def Let_def presets s(1) bind.simps prod.case s(2) sub cp dec
        s(3) option.sel
      using fits by simp
    show ?thesis
    proof (cases "0 \<in> set (trailer_text ls)")
      case True
      then obtain cut w where cut: "trailer_text ls = cut @ 0 # w" "0 \<notin> set cut" by (metis split_list_first)
      have "c_string tail2 (length (concat xss)) = Some cut"
        using c_string_at [OF cut(2) refl, of "concat xss" "0 # w @ [CR, LF] @ nxt @ unread"]
        by (simp add: tail2_def q_def cut(1))
      with find_trailer_cut [OF assms(7,6) cut(1)] have "c_strstr tail2 (length (concat xss)) [CR, LF, CR, LF] = Some None"
        by (simp add: c_strstr_def)
      with start True show ?thesis by simp
    next
      case nul_t: False
      show ?thesis
        using expect_trailers_search [OF assms(3,4,6,7) nul_t start [unfolded tail2_def q_def nxt_def]] fits nul_t
        by (simp add: nxt_def)
    qed
  qed
qed

text \<open>A response with a fixed body and the next response behind it.\<close>

lemma decode_fixed_all:
  "fst (ihtp_decode_fixed (ihtp_fixed_decoder_init (Some dec) cl) (unat cl)) = IHTP_OK"
  by (simp add: ihtp_decode_fixed_def ihtp_fixed_decoder_init_def)

lemma fixed_response_run:
  fixes v v' :: ihtp_http_version_t
  assumes "response_parts_ok ds reason fs" and "response_accepted IHTP_POLICY_STRICT (decimal_value ds) fs"
    and "response_mode (decimal_value ds) fs = IHTP_BODY_FIXED" and "unat (cl_value fs) = length xs" and "xs \<noteq> []"
    and "response_parts_ok ds' reason' fs'" and "response_accepted IHTP_POLICY_STRICT (decimal_value ds') fs'"
    and "0 \<notin> set u"
  defines "q \<equiv> render_response v' ds' reason' fs' @ u"
  defines "wire \<equiv> render_response v ds reason fs @ xs @ q"
  shows "scenario_consumer_iohttp_fixed_response is_token undef dec (wire @ 0 # post) 0 (length wire) =
           Some (Some (length wire + length q))"
proof -
  let ?resp = "printed_response 0 v ds reason fs" and ?head = "render_response v ds reason fs"
  from decided_response_step [where policy = IHTP_POLICY_STRICT, OF assms(1) _ refl, of 0 "[]" v "xs @ q" "0 # post" undef] assms(2) obtain state where
    s: "response_step (wire @ 0 # post) (ihtp_parser_state_init (Some undef) IHTP_PARSER_MODE_RESPONSE) 0 (length wire)
          IHTP_POLICY_STRICT = Some (IHTP_OK, state, Some ?resp, length ?head)"
      "ihtp_response_apply_semantics is_token (wire @ 0 # post) (Some ?resp) (Some IHTP_POLICY_STRICT) =
         Some (IHTP_OK, Some (response_decision fs ?resp))"
      "ihtp_parser_state_reset state = ihtp_parser_state_init (Some undef) IHTP_PARSER_MODE_RESPONSE"
    by (auto simp: wire_def)
  have "resp_status_code ?resp = decimal_value ds" by (simp add: printed_response_def)
  then have d: "resp_body_mode (response_decision fs ?resp) = IHTP_BODY_FIXED"
      "resp_content_length (response_decision fs ?resp) = cl_value fs"
    using assms(3) by (simp_all add: response_decision_def Let_def)
  have nz: "cl_value fs \<noteq> 0" using assms(4,5) by auto
  let ?P = "?head @ xs"
  have mem: "wire @ 0 # post = ?P @ q @ (0 # post)" by (simp add: wire_def)
  have "0 \<notin> set q" using response_not_NUL [OF assms(6)] assms(8) by (simp add: q_def)
  then have len: "c_strlen_at (wire @ 0 # post) (length ?P) = Some (length q)"
    unfolding c_strlen_at_def mem by (subst c_string_at) simp_all
  have m2: "?P @ render_response v' ds' reason' fs' @ u @ (0 # post) = wire @ 0 # post" by (simp add: wire_def q_def)
  from decided_response_step [where policy = IHTP_POLICY_STRICT, OF assms(6) refl refl, of ?P v' u "0 # post" undef, unfolded m2, folded q_def] assms(7)
  obtain state2 resp2 where
    s2: "response_step (wire @ 0 # post) (ihtp_parser_state_init (Some undef) IHTP_PARSER_MODE_RESPONSE) (length ?P)
          (length q) IHTP_POLICY_STRICT = Some (IHTP_OK, state2, Some (printed_response (length ?P) v' ds' reason' fs'),
            length (render_response v' ds' reason' fs'))"
      "ihtp_response_apply_semantics is_token (wire @ 0 # post) (Some (printed_response (length ?P) v' ds' reason' fs'))
         (Some IHTP_POLICY_STRICT) = Some (IHTP_OK, Some resp2)" by auto
  have pos: "0 + length ?head + unat (cl_value fs) = length ?P" using assms(4) by simp
  show "scenario_consumer_iohttp_fixed_response is_token undef dec (wire @ 0 # post) 0 (length wire) =
           Some (Some (length wire + length q))"
    unfolding scenario_consumer_iohttp_fixed_response_def Let_def presets s(1) bind.simps prod.case s(2) option.sel d
      decode_fixed_all pos len s(3) s2 using nz by simp
qed

lemma fixed_body_run:
  fixes v :: ihtp_http_version_t
  assumes "response_parts_ok ds reason fs" and "response_accepted IHTP_POLICY_STRICT (decimal_value ds) fs"
    and "response_mode (decimal_value ds) fs = IHTP_BODY_FIXED" and "cl_value fs \<noteq> 0"
  defines "head \<equiv> render_response v ds reason fs"
  shows "scenario_response_fixed_parse_semantics_body is_token undef dec (head @ rest @ post) 0 (length (head @ rest)) =
           Some (Some (length head + unat (cl_value fs)))"
proof -
  let ?resp = "printed_response 0 v ds reason fs"
  from decided_response_step [where policy = IHTP_POLICY_STRICT, OF assms(1) _ refl, of 0 "[]" v rest post undef] assms(2)
  obtain state where
    s: "response_step (head @ rest @ post) (ihtp_parser_state_init (Some undef) IHTP_PARSER_MODE_RESPONSE) 0
          (length (head @ rest)) IHTP_POLICY_STRICT = Some (IHTP_OK, state, Some ?resp, length head)"
      "ihtp_response_apply_semantics is_token (head @ rest @ post) (Some ?resp) (Some IHTP_POLICY_STRICT) =
         Some (IHTP_OK, Some (response_decision fs ?resp))"
    by (auto simp: head_def)
  have "resp_status_code ?resp = decimal_value ds" by (simp add: printed_response_def)
  then have d: "resp_body_mode (response_decision fs ?resp) = IHTP_BODY_FIXED"
      "resp_content_length (response_decision fs ?resp) = cl_value fs"
    using assms(3) by (simp_all add: response_decision_def Let_def)
  show ?thesis
    unfolding scenario_response_fixed_parse_semantics_body_def Let_def presets s(1) bind.simps prod.case s(2)
      option.sel d decode_fixed_all using assms(4) by simp
qed

text \<open>Scenarios on one request or response.\<close>

lemma request_runs:
  fixes v :: ihtp_http_version_t and rest post :: "byte list"
  assumes "request_parts_ok (Some IHTP_POLICY_STRICT) m t fs"
  defines "head \<equiv> render_request m t v fs"
  defines "mem \<equiv> head @ rest @ post"
  shows "rest = [] \<Longrightarrow> scenario_stateful_reuse_request undef mem 0 (length head) = Some (Some (length head * 2))"
    and "scenario_zero_copy_request_parse undef mem 0 (length (head @ rest)) = Some (Some (length head))"
    and "c_strstr mem 0 [CR, LF, CR, LF] = Some (Some k) \<Longrightarrow> k + 4 = length head \<Longrightarrow>
           scenario_request_chunked_parse_only undef mem 0 (length (head @ rest)) = Some (Some (length head))"
    and "request_accepted IHTP_POLICY_STRICT v fs \<Longrightarrow>
           scenario_policy_strict_request_semantics is_token undef mem 0 (length (head @ rest)) = Some (Some (length head)) \<and>
           scenario_policy_iohttp_request_semantics is_token undef mem 0 (length (head @ rest)) = Some (Some (length head)) \<and>
           scenario_policy_ioguard_request_semantics is_token undef mem 0 (length (head @ rest)) = Some (Some (length head))"
    and "request_accepted IHTP_POLICY_STRICT v fs \<Longrightarrow> values_of ''transfer-encoding'' fs \<noteq> [] \<Longrightarrow>
           scenario_request_chunked_parse_semantics is_token undef mem 0 (length (head @ rest)) = Some (Some (length head))"
    and "request_accepted IHTP_POLICY_STRICT v fs \<Longrightarrow> method_of_bytes m = IHTP_METHOD_CONNECT \<Longrightarrow>
           scenario_consumer_ioguard_connect is_token undef mem 0 (length (head @ rest)) = Some (Some (length head))"
    and "\<not> request_accepted IHTP_POLICY_STRICT v fs \<Longrightarrow>
           scenario_consumer_ioguard_reject_te_cl is_token undef mem 0 (length (head @ rest)) = Some (Some (length head))"
proof -
  let ?req = "printed_request 0 m t v fs"
  from decided_request_step [OF assms(1) _ refl, of 0 "[]" v rest post undef] obtain state req where
    s: "request_step mem (ihtp_parser_state_init (Some undef) IHTP_PARSER_MODE_REQUEST) 0 (length (head @ rest))
          IHTP_POLICY_STRICT = Some (IHTP_OK, state, Some ?req, length head)"
    and sem: "ihtp_request_apply_semantics is_token mem (Some ?req) (Some IHTP_POLICY_STRICT) =
        Some (if request_accepted IHTP_POLICY_STRICT v fs then IHTP_OK else IHTP_ERROR, Some req)"
      "request_accepted IHTP_POLICY_STRICT v fs \<longrightarrow> req = request_decision fs ?req"
    and r: "ihtp_parser_state_reset state = ihtp_parser_state_init (Some undef) IHTP_PARSER_MODE_REQUEST"
    unfolding mem_def head_def by auto
  show "rest = [] \<Longrightarrow> scenario_stateful_reuse_request undef mem 0 (length head) = Some (Some (length head * 2))"
    using s r by (simp add: scenario_stateful_reuse_request_def)
  show "scenario_zero_copy_request_parse undef mem 0 (length (head @ rest)) = Some (Some (length head))"
    unfolding scenario_zero_copy_request_parse_def Let_def s by simp
  show "c_strstr mem 0 [CR, LF, CR, LF] = Some (Some k) \<Longrightarrow> k + 4 = length head \<Longrightarrow>
           scenario_request_chunked_parse_only undef mem 0 (length (head @ rest)) = Some (Some (length head))"
    unfolding scenario_request_chunked_parse_only_def Let_def s by simp
  note defs = scenario_policy_strict_request_semantics_def scenario_policy_iohttp_request_semantics_def
    scenario_policy_ioguard_request_semantics_def scenario_request_chunked_parse_semantics_def
    scenario_consumer_ioguard_connect_def scenario_consumer_ioguard_reject_te_cl_def
  show "request_accepted IHTP_POLICY_STRICT v fs \<Longrightarrow>
      scenario_policy_strict_request_semantics is_token undef mem 0 (length (head @ rest)) = Some (Some (length head)) \<and>
      scenario_policy_iohttp_request_semantics is_token undef mem 0 (length (head @ rest)) = Some (Some (length head)) \<and>
      scenario_policy_ioguard_request_semantics is_token undef mem 0 (length (head @ rest)) = Some (Some (length head))"
    unfolding defs Let_def presets s bind.simps prod.case sem(1) by simp
  show "request_accepted IHTP_POLICY_STRICT v fs \<Longrightarrow> values_of ''transfer-encoding'' fs \<noteq> [] \<Longrightarrow>
      scenario_request_chunked_parse_semantics is_token undef mem 0 (length (head @ rest)) = Some (Some (length head))"
    unfolding defs Let_def presets s bind.simps prod.case sem(1) using sem(2)
    by (simp add: request_decision_def)
  show "request_accepted IHTP_POLICY_STRICT v fs \<Longrightarrow> method_of_bytes m = IHTP_METHOD_CONNECT \<Longrightarrow>
      scenario_consumer_ioguard_connect is_token undef mem 0 (length (head @ rest)) = Some (Some (length head))"
    unfolding defs Let_def presets s bind.simps prod.case sem(1) using sem(2)
    by (simp add: request_decision_def printed_request_def)
  show "\<not> request_accepted IHTP_POLICY_STRICT v fs \<Longrightarrow>
      scenario_consumer_ioguard_reject_te_cl is_token undef mem 0 (length (head @ rest)) = Some (Some (length head))"
    unfolding defs Let_def presets s bind.simps prod.case sem(1) by simp
qed

lemma request_body_run:
  fixes v :: ihtp_http_version_t
  assumes "request_parts_ok (Some IHTP_POLICY_STRICT) m t fs" and "request_accepted IHTP_POLICY_STRICT v fs"
    and "values_of ''transfer-encoding'' fs \<noteq> []"
    and "list_all (\<lambda>xs. xs \<noteq> []) xss" and "list_all (\<lambda>l. line_text l \<and> l \<noteq> []) ls" and "length tail = 256"
  defines "body \<equiv> encode_body True xss ls" and "head \<equiv> render_request m t v fs"
  assumes "length (body @ rest) < 256"
  shows "scenario_request_chunked_parse_semantics_body is_token undef tail (head @ body @ rest @ post) 0
             (length (head @ body @ rest)) =
           Some (Some (length head + length (concat xss) + length rest))"
proof -
  let ?mem = "head @ body @ rest @ post"
  from decided_request_step [OF assms(1) _ refl, of 0 "[]" v "body @ rest" post undef] assms(2) obtain state where
    s: "request_step ?mem (ihtp_parser_state_init (Some undef) IHTP_PARSER_MODE_REQUEST) 0 (length (head @ body @ rest))
          IHTP_POLICY_STRICT = Some (IHTP_OK, state, Some (printed_request 0 m t v fs), length head)"
      "ihtp_request_apply_semantics is_token ?mem (Some (printed_request 0 m t v fs)) (Some IHTP_POLICY_STRICT) =
         Some (IHTP_OK, Some (request_decision fs (printed_request 0 m t v fs)))"
    by (auto simp: head_def)
  have mode: "req_body_mode (request_decision fs (printed_request 0 m t v fs)) = IHTP_BODY_CHUNKED"
    using assms(3) by (simp add: request_decision_def)
  have sub: "size_sub (length (head @ body @ rest)) (length head) = length (body @ rest)" by simp
  have cp: "c_memcpy_from tail 0 ?mem (0 + length head) (length (body @ rest)) =
      Some (body @ rest @ drop (length (body @ rest)) tail)"
    using c_memcpy_front [of "length (body @ rest)" tail _ head "body @ rest" post] assms(6,9) by simp
  from decoded_in_buffer [OF assms(4,5), of True rest "drop (length (body @ rest)) tail"] assms(9) obtain d mem' where
    dec: "ihtp_decode_chunked (Some (zero_decoder True)) (body @ rest @ drop (length (body @ rest)) tail) (Some 0)
       (Some (length (body @ rest))) = Some (int (length rest), Some d, mem', Some (length (concat xss)))"
    by (auto simp: body_def)
  show ?thesis
    unfolding scenario_request_chunked_parse_semantics_body_def Let_def presets s bind.simps prod.case option.sel mode
      sub cp dec using assms(9) by simp
qed

lemma response_runs:
  fixes v :: ihtp_http_version_t and rest post :: "byte list"
  assumes "response_parts_ok ds reason fs"
  defines "head \<equiv> render_response v ds reason fs"
  defines "mem \<equiv> head @ rest @ post"
  shows "c_strstr mem 0 [CR, LF, CR, LF] = Some (Some k) \<Longrightarrow> k + 4 = length head \<Longrightarrow>
           scenario_response_upgrade_parse_only undef mem 0 (length (head @ rest)) = Some (Some (length head))"
    and "response_accepted IHTP_POLICY_STRICT (decimal_value ds) fs \<Longrightarrow> switches_protocol (decimal_value ds) fs \<Longrightarrow>
           scenario_response_upgrade_parse_semantics is_token undef mem 0 (length (head @ rest)) = Some (Some (length head))"
proof -
  let ?resp = "printed_response 0 v ds reason fs"
  from decided_response_step [where policy = IHTP_POLICY_STRICT, OF assms(1) _ refl, of 0 "[]" v rest post undef] obtain state resp where
    s: "response_step mem (ihtp_parser_state_init (Some undef) IHTP_PARSER_MODE_RESPONSE) 0 (length (head @ rest))
          IHTP_POLICY_STRICT = Some (IHTP_OK, state, Some ?resp, length head)"
    and sem: "ihtp_response_apply_semantics is_token mem (Some ?resp) (Some IHTP_POLICY_STRICT) =
        Some (if response_accepted IHTP_POLICY_STRICT (decimal_value ds) fs then IHTP_OK else IHTP_ERROR, Some resp)"
      "response_accepted IHTP_POLICY_STRICT (decimal_value ds) fs \<longrightarrow> resp = response_decision fs ?resp"
    unfolding mem_def head_def by auto
  show "c_strstr mem 0 [CR, LF, CR, LF] = Some (Some k) \<Longrightarrow> k + 4 = length head \<Longrightarrow>
           scenario_response_upgrade_parse_only undef mem 0 (length (head @ rest)) = Some (Some (length head))"
    unfolding scenario_response_upgrade_parse_only_def Let_def presets s by simp
  show "response_accepted IHTP_POLICY_STRICT (decimal_value ds) fs \<Longrightarrow> switches_protocol (decimal_value ds) fs \<Longrightarrow>
           scenario_response_upgrade_parse_semantics is_token undef mem 0 (length (head @ rest)) = Some (Some (length head))"
    unfolding scenario_response_upgrade_parse_semantics_def Let_def presets s bind.simps prod.case sem(1)
    using sem(2) by (simp add: response_decision_def printed_response_def Let_def)
qed

end

section \<open>Reading through the recorded pointers\<close>

lemma deref_in: "p + i < length mem \<Longrightarrow> \<exists>w. deref mem (Some p) i = Some w"
  by (simp add: deref_def rd_in)

lemma deref_last:
  "p + len \<le> length mem \<Longrightarrow> 0 < len \<Longrightarrow> \<exists>w. deref mem (Some p) (len - Suc 0) = Some w"
  by (rule deref_in) linarith

lemma observe_ends_in: "p + len \<le> length mem \<Longrightarrow> \<exists>s. observe_ends mem (Some p) len sink = Some s"
  using deref_in [of p 0 mem] deref_last [of p len mem] by (auto simp: observe_ends_def)

lemma observe_header_in:
  assumes "hdr_in mem h"
  shows "\<exists>s. observe_header mem h sink = Some s"
proof -
  from assms obtain p v where "hdr_name h = Some p" "p + hdr_name_len h \<le> length mem"
    "hdr_value h = Some v" "v + hdr_value_len h \<le> length mem" by (auto simp: hdr_in_def)
  with deref_in [of p 0 mem] deref_last [of v "hdr_value_len h" mem] show ?thesis
    by (auto simp: observe_header_def Let_def)
qed

lemma observe_headers_in:
  "headers_in mem hs n \<Longrightarrow> \<exists>s. observe_headers mem hs n i sink = Some s"
proof (induction mem hs n i sink rule: observe_headers.induct)
  case (1 mem hs n i sink)
  show ?case
  proof (cases "i < n")
    case True
    with 1(2) have h: "hdr_read hs i = Some (hs ! i)" "hdr_in mem (hs ! i)"
      by (auto simp: headers_in_def hdr_read_def list_all_length)
    from observe_header_in [OF h(2), of sink] obtain s where s: "observe_header mem (hs ! i) sink = Some s" ..
    from 1(1) [OF True h(1) s 1(2)] True h(1) s show ?thesis
      by (subst observe_headers.simps) simp
  qed (subst observe_headers.simps; simp)
qed

lemma observe_run:
  assumes "n \<le> length mem"
  shows "\<exists>r sink. scenario_zero_copy_request_observe undef g_sink mem 0 n = Some (r, sink) \<and>
           scenario_zero_copy_request_parse undef mem 0 n = Some r"
proof -
  have "config_ready req_hdrs IHTP_MAX_HEADERS n (fresh_state IHTP_PARSER_MODE_REQUEST, zero_request)"
    by (rule config_ready_mono [OF fresh_ready(1)]) simp
  from request_inc.parse_safe [OF this assms, of "Some IHTP_POLICY_STRICT"] obtain st s' req k where
    "request_parse (Some IHTP_POLICY_STRICT) mem n (fresh_state IHTP_PARSER_MODE_REQUEST, zero_request) =
       Some (st, (s', req), k)" by (metis prod_cases3 surj_pair)
  then have run: "request_stateful mem 0 n (Some IHTP_POLICY_STRICT) (fresh_state IHTP_PARSER_MODE_REQUEST) zero_request =
      Some (st, s', req, k)"
    by (auto simp: request_parse_def regroup_def split: prod.splits)
  show ?thesis
  proof (cases "st = IHTP_OK")
    case False
    with run show ?thesis
      by (simp add: scenario_zero_copy_request_observe_def scenario_zero_copy_request_parse_def request_step_init)
  next
    case True
    with run have ok: "ihtp_parse_request undef mem (Some 0) n (Some zero_request) (Some IHTP_POLICY_STRICT) (Some 0) =
        Some (IHTP_OK, Some req, Some k)" by (simp add: parse_request_nonnull)
    have b: "0 + n \<le> length mem" using assms by simp
    from ok request_grammar [OF b] have "request_message (resolve_policy (Some IHTP_POLICY_STRICT)) 0 (span mem 0 n) req k"
      by blast
    then obtain line eol rest m t v where "span mem 0 n = line @ eol @ rest"
      and line: "request_line_of (resolve_policy (Some IHTP_POLICY_STRICT)) line m t v"
      and ends: "req_method_str req = Some 0" "req_path req = Some (length m + 1)"
      "req_method_len req = length m" "req_path_len req = length t"
      by (auto simp: request_message_def)
    then have "length line \<le> length (span mem 0 n)" by simp
    with b line have len: "length m + 1 + length t \<le> n" by (auto simp: request_line_of_def)
    from observe_ends_in [of 0 "length m" mem "word_of_nat (length m + length t + req_num_headers req)"] len assms
    obtain s1 where s1: "observe_ends mem (Some 0) (length m) (word_of_nat (length m + length t + req_num_headers req)) = Some s1"
      by auto
    from observe_ends_in [of "length m + 1" "length t" mem s1] len assms
    obtain s2 where s2: "observe_ends mem (Some (length m + 1)) (length t) s1 = Some s2" by auto
    from observe_headers_in [OF parsed_request_headers [OF ok b], of 0 s2] obtain s3 where
      s3: "observe_headers mem (req_headers req) (req_num_headers req) 0 s2 = Some s3" ..
    show ?thesis
      using run True ends s1 s2 s3
      by (simp add: scenario_zero_copy_request_observe_def scenario_zero_copy_request_parse_def request_step_init Let_def)
  qed
qed

lemma request_result_ready:
  assumes "0 + n \<le> length mem"
    and "ihtp_parse_request undef mem (Some 0) n (Some r) policy (Some b) = Some (IHTP_OK, Some req, Some k)"
  shows "headers_ok 0 n IHTP_MAX_HEADERS (req_headers req) (req_num_headers req) \<and> k \<le> n"
proof -
  have n: "n \<le> length mem" using assms(1) by simp
  have "config_ready req_hdrs IHTP_MAX_HEADERS n (fresh_state IHTP_PARSER_MODE_REQUEST, zero_request)"
    by (rule config_ready_mono [OF fresh_ready(1)]) simp
  from request_inc.parse_safe [OF this n, of policy] obtain st s' req' k' where
    p: "request_parse policy mem n (fresh_state IHTP_PARSER_MODE_REQUEST, zero_request) = Some (st, (s', req'), k')"
    and shape: "outcome_shape config_phase (config_ready req_hdrs IHTP_MAX_HEADERS) n
        (fresh_state IHTP_PARSER_MODE_REQUEST, zero_request) (st, (s', req'), k')"
    by fastforce
  from p have "request_stateful mem 0 n policy (fresh_state IHTP_PARSER_MODE_REQUEST) zero_request = Some (st, s', req', k')"
    by (auto simp: request_parse_def regroup_def split: prod.splits)
  with assms(2) have "st = IHTP_OK" "req' = req" "k' = k" by (auto simp: parse_request_nonnull)
  with shape have "ps_cursor s' \<le> n" "headers_ok 0 (ps_cursor s') IHTP_MAX_HEADERS (req_headers req) (req_num_headers req)" "k \<le> n"
    by (auto simp: outcome_shape_def config_ready_def config_phase_def req_hdrs_def)
  with headers_ok_mono show ?thesis by blast
qed
end
