(* ===== verification/Ihtp_Scenarios.thy ===== *)
theory Ihtp_Scenarios
  imports Ihtp_Consumers
begin

text \<open>
  The wires and the scenario table of \<open>main\<close> in bench/bench_extended_contract.c, and the proof that
  every scenario of the table succeeds on its wire.  Each wire is shown to be a printed message, so
  that the lemmas on printed messages apply; only the fields are evaluated.
\<close>

section \<open>Wires\<close>

definition http_lines :: "string list \<Rightarrow> byte list" where
  "http_lines ls = concat (map (\<lambda>l. ascii l @ [CR, LF]) ls)"

definition stateful_reuse_wire :: "byte list" where
  "stateful_reuse_wire = http_lines
     [''GET /health HTTP/1.1'', ''Host: example.com'', ''Connection: keep-alive'', '''']"

definition request_chunked_wire :: "byte list" where
  "request_chunked_wire = http_lines
     [''POST /upload HTTP/1.1'', ''Host: example.com'', ''Transfer-Encoding: chunked'', ''Trailer: Digest'', '''', ''4'', ''Wiki'', ''5'', ''pedia'', ''0'', ''Digest: sha-256=abc'', '''']"

definition consumer_iohttp_pipeline_wire :: "byte list" where
  "consumer_iohttp_pipeline_wire = http_lines
     [''POST /upload HTTP/1.1'', ''Host: example.com'', ''Transfer-Encoding: chunked'', ''Trailer: Digest'', '''', ''4'', ''Wiki'', ''5'', ''pedia'', ''0'', ''Digest: sha-256=abc'', '''', ''GET /next HTTP/1.1'', ''Host: example.com'', '''']"

definition consumer_iohttp_expect_wire :: "byte list" where
  "consumer_iohttp_expect_wire = http_lines
     [''POST /upload HTTP/1.1'', ''Host: example.com'', ''Transfer-Encoding: chunked'', ''Expect: 100-continue'', ''Trailer: Digest'', '''', ''4'', ''Wiki'', ''5'', ''pedia'', ''0'', ''Digest: sha-256=demo'', '''', ''GET /final HTTP/1.1'', ''Host: example.com'', '''']"

definition response_upgrade_wire :: "byte list" where
  "response_upgrade_wire = http_lines
     [''HTTP/1.1 101 Switching Protocols'', ''Connection: Upgrade'', ''Upgrade: websocket'', ''''] @ [0x81, 0x05] @ ascii ''hello''"

definition response_fixed_wire :: "byte list" where
  "response_fixed_wire = http_lines
     [''HTTP/1.1 200 OK'', ''Content-Length: 5'', ''''] @ ascii ''hello''"

definition consumer_iohttp_fixed_wire :: "byte list" where
  "consumer_iohttp_fixed_wire = http_lines
     [''HTTP/1.1 200 OK'', ''Content-Length: 5'', ''''] @ ascii ''hello'' @ http_lines
     [''HTTP/1.1 204 No Content'', ''Connection: close'', '''']"

definition connect_wire :: "byte list" where
  "connect_wire = http_lines
     [''CONNECT tunnel.example:443 HTTP/1.1'', ''Host: tunnel.example:443'', '''']"

definition reject_te_cl_wire :: "byte list" where
  "reject_te_cl_wire = http_lines
     [''POST /strict HTTP/1.1'', ''Host: example.com'', ''Transfer-Encoding: chunked'', ''Content-Length: 3'', '''']"

definition policy_wire :: "byte list" where
  "policy_wire = http_lines
     [''GET /policy HTTP/1.1'', ''Host: example.com'', ''Connection: keep-alive'', ''User-Agent: iohttpparser-bench/1.0'', '''']"

definition zero_copy_wire :: "byte list" where
  "zero_copy_wire = http_lines
     [''GET /api/v1/resource?id=42 HTTP/1.1'', ''Host: example.com'', ''Connection: keep-alive'', ''X-Request-Id: 123e4567-e89b-12d3-a456-426614174000'', ''User-Agent: iohttpparser-zero-copy-bench/1.0'', ''Accept: application/json'', '''']"

section \<open>The table\<close>

record extended_scenario_t =
  sc_name :: string
  sc_group :: string
  sc_baseline :: string
  sc_wire :: "byte list"
  sc_len :: nat
  sc_fn :: "64 word \<Rightarrow> mem \<Rightarrow> nat \<Rightarrow> nat \<Rightarrow> (nat option \<times> 64 word) ub"

text \<open>A function that leaves \<open>g_sink\<close> alone.\<close>

definition without_sink ::
    "(mem \<Rightarrow> nat \<Rightarrow> nat \<Rightarrow> scenario_result) \<Rightarrow> 64 word \<Rightarrow> mem \<Rightarrow> nat \<Rightarrow> nat \<Rightarrow> (nat option \<times> 64 word) ub" where
  "without_sink f g_sink mem wire len = do { r \<leftarrow> f mem wire len; Some (r, g_sink) }"

text \<open>
  The functions of the table read their uninitialised locals from \<open>undef\<close> (parser state), \<open>dec\<close>
  (fixed decoder), \<open>tail\<close> and \<open>tail'\<close> (the 256 and 320 byte buffers).
\<close>

definition scenarios ::
    "token_test \<Rightarrow> ihtp_parser_state_t \<Rightarrow> ihtp_fixed_decoder_t \<Rightarrow> mem \<Rightarrow> mem \<Rightarrow> extended_scenario_t list" where
  "scenarios is_token undef dec tail tail' = [
    \<lparr> sc_name = ''policy-strict-request-semantics'', sc_group = ''policy'',
       sc_baseline = ''req-headers/iohttpparser-stateful-strict'',
       sc_wire = policy_wire, sc_len = length policy_wire,
       sc_fn = without_sink (scenario_policy_strict_request_semantics is_token undef) \<rparr>,
    \<lparr> sc_name = ''policy-iohttp-request-semantics'', sc_group = ''policy'',
       sc_baseline = ''policy-strict-request-semantics'',
       sc_wire = policy_wire, sc_len = length policy_wire,
       sc_fn = without_sink (scenario_policy_iohttp_request_semantics is_token undef) \<rparr>,
    \<lparr> sc_name = ''policy-ioguard-request-semantics'', sc_group = ''policy'',
       sc_baseline = ''policy-strict-request-semantics'',
       sc_wire = policy_wire, sc_len = length policy_wire,
       sc_fn = without_sink (scenario_policy_ioguard_request_semantics is_token undef) \<rparr>,
    \<lparr> sc_name = ''stateful-reuse-request'', sc_group = ''parser-state'',
       sc_baseline = ''req-small/iohttpparser-stateful-strict'',
       sc_wire = stateful_reuse_wire, sc_len = length stateful_reuse_wire,
       sc_fn = without_sink (scenario_stateful_reuse_request undef) \<rparr>,
    \<lparr> sc_name = ''zero-copy-request-parse'', sc_group = ''zero-copy'',
       sc_baseline = ''req-headers/iohttpparser-stateful-strict'',
       sc_wire = zero_copy_wire, sc_len = length zero_copy_wire,
       sc_fn = without_sink (scenario_zero_copy_request_parse undef) \<rparr>,
    \<lparr> sc_name = ''zero-copy-request-observe'', sc_group = ''zero-copy'',
       sc_baseline = ''zero-copy-request-parse'',
       sc_wire = zero_copy_wire, sc_len = length zero_copy_wire,
       sc_fn = scenario_zero_copy_request_observe undef \<rparr>,
    \<lparr> sc_name = ''request-chunked-parse'', sc_group = ''semantics-body'',
       sc_baseline = ''req-headers/iohttpparser-stateful-strict'',
       sc_wire = request_chunked_wire, sc_len = length request_chunked_wire,
       sc_fn = without_sink (scenario_request_chunked_parse_only undef) \<rparr>,
    \<lparr> sc_name = ''request-chunked-parse-semantics'', sc_group = ''semantics-body'',
       sc_baseline = ''request-chunked-parse'',
       sc_wire = request_chunked_wire, sc_len = length request_chunked_wire,
       sc_fn = without_sink (scenario_request_chunked_parse_semantics is_token undef) \<rparr>,
    \<lparr> sc_name = ''request-chunked-parse-semantics-body'', sc_group = ''semantics-body'',
       sc_baseline = ''request-chunked-parse-semantics'',
       sc_wire = request_chunked_wire, sc_len = length request_chunked_wire,
       sc_fn = without_sink (scenario_request_chunked_parse_semantics_body is_token undef tail) \<rparr>,
    \<lparr> sc_name = ''consumer-iohttp-pipeline'', sc_group = ''consumer-iohttp'',
       sc_baseline = ''request-chunked-parse-semantics-body'',
       sc_wire = consumer_iohttp_pipeline_wire, sc_len = length consumer_iohttp_pipeline_wire,
       sc_fn = without_sink (scenario_consumer_iohttp_pipeline is_token undef tail) \<rparr>,
    \<lparr> sc_name = ''consumer-iohttp-expect-trailers'', sc_group = ''consumer-iohttp'',
       sc_baseline = ''request-chunked-parse-semantics-body'',
       sc_wire = consumer_iohttp_expect_wire, sc_len = length consumer_iohttp_expect_wire,
       sc_fn = without_sink (scenario_consumer_iohttp_expect_trailers is_token undef tail') \<rparr>,
    \<lparr> sc_name = ''response-fixed-parse-semantics-body'', sc_group = ''semantics-body'',
       sc_baseline = ''resp-headers/iohttpparser-stateful-strict'',
       sc_wire = response_fixed_wire, sc_len = length response_fixed_wire,
       sc_fn = without_sink (scenario_response_fixed_parse_semantics_body is_token undef dec) \<rparr>,
    \<lparr> sc_name = ''consumer-iohttp-fixed-response'', sc_group = ''consumer-iohttp'',
       sc_baseline = ''response-fixed-parse-semantics-body'',
       sc_wire = consumer_iohttp_fixed_wire, sc_len = length consumer_iohttp_fixed_wire,
       sc_fn = without_sink (scenario_consumer_iohttp_fixed_response is_token undef dec) \<rparr>,
    \<lparr> sc_name = ''response-upgrade-parse'', sc_group = ''upgrade'',
       sc_baseline = ''resp-upgrade/iohttpparser-stateful-strict'',
       sc_wire = response_upgrade_wire, sc_len = length response_upgrade_wire,
       sc_fn = without_sink (scenario_response_upgrade_parse_only undef) \<rparr>,
    \<lparr> sc_name = ''response-upgrade-parse-semantics'', sc_group = ''upgrade'',
       sc_baseline = ''response-upgrade-parse'',
       sc_wire = response_upgrade_wire, sc_len = length response_upgrade_wire,
       sc_fn = without_sink (scenario_response_upgrade_parse_semantics is_token undef) \<rparr>,
    \<lparr> sc_name = ''consumer-ioguard-connect'', sc_group = ''consumer-ioguard'',
       sc_baseline = ''req-connect/iohttpparser-stateful-strict'',
       sc_wire = connect_wire, sc_len = length connect_wire,
       sc_fn = without_sink (scenario_consumer_ioguard_connect is_token undef) \<rparr>,
    \<lparr> sc_name = ''consumer-ioguard-reject-te-cl'', sc_group = ''consumer-ioguard'',
       sc_baseline = ''request-chunked-parse-semantics'',
       sc_wire = reject_te_cl_wire, sc_len = length reject_te_cl_wire,
       sc_fn = without_sink (scenario_consumer_ioguard_reject_te_cl is_token undef) \<rparr>]"

section \<open>The wires as printed messages\<close>

abbreviation "field n v \<equiv> (ascii n, ascii v)"

abbreviation "host \<equiv> field ''Host'' ''example.com''"

abbreviation "health_fields \<equiv> [host, field ''Connection'' ''keep-alive'']"

abbreviation "upload_fields \<equiv> [host, field ''Transfer-Encoding'' ''chunked'', field ''Trailer'' ''Digest'']"

abbreviation "expect_fields \<equiv>
  [host, field ''Transfer-Encoding'' ''chunked'', field ''Expect'' ''100-continue'', field ''Trailer'' ''Digest'']"

abbreviation "policy_fields \<equiv>
  [host, field ''Connection'' ''keep-alive'', field ''User-Agent'' ''iohttpparser-bench/1.0'']"

abbreviation "zero_copy_fields \<equiv>
  [host, field ''Connection'' ''keep-alive'', field ''X-Request-Id'' ''123e4567-e89b-12d3-a456-426614174000'',
   field ''User-Agent'' ''iohttpparser-zero-copy-bench/1.0'', field ''Accept'' ''application/json'']"

abbreviation "connect_fields \<equiv> [field ''Host'' ''tunnel.example:443'']"

abbreviation "te_cl_fields \<equiv> [host, field ''Transfer-Encoding'' ''chunked'', field ''Content-Length'' ''3'']"

abbreviation "upgrade_fields \<equiv> [field ''Connection'' ''Upgrade'', field ''Upgrade'' ''websocket'']"

abbreviation "length_fields \<equiv> [field ''Content-Length'' ''5'']"

abbreviation "close_fields \<equiv> [field ''Connection'' ''close'']"

abbreviation "req11 m t fs \<equiv> render_request (ascii m) (ascii t) IHTP_HTTP_11 fs"

abbreviation "resp11 ds reason fs \<equiv> render_response IHTP_HTTP_11 (ascii ds) (ascii reason) fs"

abbreviation "wiki \<equiv> [ascii ''Wiki'', ascii ''pedia'']"

lemmas wire_defs = stateful_reuse_wire_def request_chunked_wire_def consumer_iohttp_pipeline_wire_def
  consumer_iohttp_expect_wire_def response_upgrade_wire_def response_fixed_wire_def consumer_iohttp_fixed_wire_def
  connect_wire_def reject_te_cl_wire_def policy_wire_def zero_copy_wire_def http_lines_def

lemmas printed_defs = render_request_def render_response_def render_header_def ascii_def encode_body_def
  encode_chunk_def hex_string.simps hex_char_def

lemma wires_printed_1:
  "stateful_reuse_wire = req11 ''GET'' ''/health'' health_fields"
  by (simp add: wire_defs printed_defs)

lemma wires_printed_2:
  "policy_wire = req11 ''GET'' ''/policy'' policy_fields"
  by (simp add: wire_defs printed_defs)

lemma wires_printed_3:
  "zero_copy_wire = req11 ''GET'' ''/api/v1/resource?id=42'' zero_copy_fields"
  by (simp add: wire_defs printed_defs)

lemma wires_printed_4:
  "connect_wire = req11 ''CONNECT'' ''tunnel.example:443'' connect_fields"
  by (simp add: wire_defs printed_defs)

lemma wires_printed_5:
  "reject_te_cl_wire = req11 ''POST'' ''/strict'' te_cl_fields"
  by (simp add: wire_defs printed_defs)

lemma wires_printed_6:
  "request_chunked_wire = req11 ''POST'' ''/upload'' upload_fields @
     encode_body True wiki [ascii ''Digest: sha-256=abc'']"
  by (simp add: wire_defs printed_defs)

lemma wires_printed_7:
  "consumer_iohttp_pipeline_wire = req11 ''POST'' ''/upload'' upload_fields @
     encode_body True wiki [ascii ''Digest: sha-256=abc''] @ req11 ''GET'' ''/next'' [host]"
  by (simp add: wire_defs printed_defs)

lemma wires_printed_8:
  "consumer_iohttp_expect_wire = req11 ''POST'' ''/upload'' expect_fields @
     encode_body False wiki [] @ (trailer_text [ascii ''Digest: sha-256=demo''] @ [CR, LF] @ req11 ''GET'' ''/final'' [host])"
  by (simp add: wire_defs printed_defs)

lemma wires_printed_9:
  "response_upgrade_wire = resp11 ''101'' ''Switching Protocols'' upgrade_fields @ [0x81, 0x05] @ ascii ''hello''"
  by (simp add: wire_defs printed_defs)

lemma wires_printed_10:
  "response_fixed_wire = resp11 ''200'' ''OK'' length_fields @ ascii ''hello''"
  by (simp add: wire_defs printed_defs)

lemma wires_printed_11:
  "consumer_iohttp_fixed_wire = resp11 ''200'' ''OK'' length_fields @ ascii ''hello'' @
     resp11 ''204'' ''No Content'' close_fields"
  by (simp add: wire_defs printed_defs)

lemmas wires_printed = wires_printed_1 wires_printed_2 wires_printed_3 wires_printed_4 wires_printed_5 wires_printed_6 wires_printed_7 wires_printed_8 wires_printed_9 wires_printed_10 wires_printed_11

lemma wire_parts_1:
  "request_parts_ok (Some IHTP_POLICY_STRICT) (ascii ''GET'') (ascii ''/health'') health_fields"
  unfolding request_parts_ok_def response_parts_ok_def by (intro conjI; code_simp)

lemma wire_parts_2:
  "request_parts_ok (Some IHTP_POLICY_STRICT) (ascii ''GET'') (ascii ''/policy'') policy_fields"
  unfolding request_parts_ok_def response_parts_ok_def by (intro conjI; code_simp)

lemma wire_parts_3:
  "request_parts_ok (Some IHTP_POLICY_STRICT) (ascii ''GET'') (ascii ''/api/v1/resource?id=42'') zero_copy_fields"
  unfolding request_parts_ok_def response_parts_ok_def by (intro conjI; code_simp)

lemma wire_parts_4:
  "request_parts_ok (Some IHTP_POLICY_STRICT) (ascii ''CONNECT'') (ascii ''tunnel.example:443'') connect_fields"
  unfolding request_parts_ok_def response_parts_ok_def by (intro conjI; code_simp)

lemma wire_parts_5:
  "request_parts_ok (Some IHTP_POLICY_STRICT) (ascii ''POST'') (ascii ''/strict'') te_cl_fields"
  unfolding request_parts_ok_def response_parts_ok_def by (intro conjI; code_simp)

lemma wire_parts_6:
  "request_parts_ok (Some IHTP_POLICY_STRICT) (ascii ''POST'') (ascii ''/upload'') upload_fields"
  unfolding request_parts_ok_def response_parts_ok_def by (intro conjI; code_simp)

lemma wire_parts_7:
  "request_parts_ok (Some IHTP_POLICY_STRICT) (ascii ''POST'') (ascii ''/upload'') expect_fields"
  unfolding request_parts_ok_def response_parts_ok_def by (intro conjI; code_simp)

lemma wire_parts_8:
  "request_parts_ok (Some IHTP_POLICY_STRICT) (ascii ''GET'') (ascii ''/next'') [host]"
  unfolding request_parts_ok_def response_parts_ok_def by (intro conjI; code_simp)

lemma wire_parts_9:
  "request_parts_ok (Some IHTP_POLICY_STRICT) (ascii ''GET'') (ascii ''/final'') [host]"
  unfolding request_parts_ok_def response_parts_ok_def by (intro conjI; code_simp)

lemma wire_parts_10:
  "response_parts_ok (ascii ''101'') (ascii ''Switching Protocols'') upgrade_fields"
  unfolding request_parts_ok_def response_parts_ok_def by (intro conjI; code_simp)

lemma wire_parts_11:
  "response_parts_ok (ascii ''200'') (ascii ''OK'') length_fields"
  unfolding request_parts_ok_def response_parts_ok_def by (intro conjI; code_simp)

lemma wire_parts_12:
  "response_parts_ok (ascii ''204'') (ascii ''No Content'') close_fields"
  unfolding request_parts_ok_def response_parts_ok_def by (intro conjI; code_simp)

lemmas wire_parts = wire_parts_1 wire_parts_2 wire_parts_3 wire_parts_4 wire_parts_5 wire_parts_6 wire_parts_7 wire_parts_8 wire_parts_9 wire_parts_10 wire_parts_11 wire_parts_12

lemma wires_accepted:
  "request_accepted IHTP_POLICY_STRICT IHTP_HTTP_11 policy_fields"
  "request_accepted IHTP_POLICY_STRICT IHTP_HTTP_11 connect_fields"
  "\<not> request_accepted IHTP_POLICY_STRICT IHTP_HTTP_11 te_cl_fields"
  "request_accepted IHTP_POLICY_STRICT IHTP_HTTP_11 upload_fields"
  "request_accepted IHTP_POLICY_STRICT IHTP_HTTP_11 expect_fields"
  "request_accepted IHTP_POLICY_STRICT IHTP_HTTP_11 [host]"
  "values_of ''transfer-encoding'' upload_fields \<noteq> []"
  "method_of_bytes (ascii ''CONNECT'') = IHTP_METHOD_CONNECT"
  "response_accepted IHTP_POLICY_STRICT (decimal_value (ascii ''101'')) upgrade_fields"
  "switches_protocol (decimal_value (ascii ''101'')) upgrade_fields"
  "response_accepted IHTP_POLICY_STRICT (decimal_value (ascii ''200'')) length_fields"
  "response_mode (decimal_value (ascii ''200'')) length_fields = IHTP_BODY_FIXED"
  "response_accepted IHTP_POLICY_STRICT (decimal_value (ascii ''204'')) close_fields"
  "unat (cl_value length_fields) = length (ascii ''hello'')"
  by code_simp+

section \<open>Every scenario of the table succeeds\<close>

abbreviation passes :: "(mem \<Rightarrow> nat \<Rightarrow> nat \<Rightarrow> scenario_result) \<Rightarrow> byte list \<Rightarrow> bool" where
  "passes f wire \<equiv> \<exists>n. f (wire @ [0]) 0 (length wire) = Some (Some n)"

lemma head_ends:
  "c_strstr (request_chunked_wire @ [0]) 0 [CR, LF, CR, LF] =
     Some (Some (length (req11 ''POST'' ''/upload'' upload_fields) - 4))"
  "c_strstr (response_upgrade_wire @ [0]) 0 [CR, LF, CR, LF] =
     Some (Some (length (resp11 ''101'' ''Switching Protocols'' upgrade_fields) - 4))"
  "4 \<le> length (req11 ''POST'' ''/upload'' upload_fields)"
  "4 \<le> length (resp11 ''101'' ''Switching Protocols'' upgrade_fields)"
  by code_simp+

lemma body_sizes:
  "length (encode_body True wiki [ascii ''Digest: sha-256=abc'']) < 256"
  "length (encode_body True wiki [ascii ''Digest: sha-256=abc''] @ req11 ''GET'' ''/next'' [host]) < 256"
  "length (encode_body False wiki [] @ trailer_text [ascii ''Digest: sha-256=demo''] @ [CR, LF] @
     req11 ''GET'' ''/final'' [host]) = 88"
  by (simp_all add: printed_defs)

lemma body_parts:
  "list_all (\<lambda>xs. xs \<noteq> []) wiki" "list_all (\<lambda>l. line_text l \<and> l \<noteq> []) [ascii ''Digest: sha-256=abc'']"
  "list_all (\<lambda>l. line_text l \<and> l \<noteq> []) [ascii ''Digest: sha-256=demo'']"
  "0 \<notin> set ([] :: byte list)" "ascii ''hello'' \<noteq> []"
  by (simp_all add: ascii_def)

definition succeeds :: "extended_scenario_t \<Rightarrow> bool" where
  "succeeds sc \<longleftrightarrow> sc_len sc = length (sc_wire sc) \<and>
     (\<forall>sink. \<exists>work sink'. sc_fn sc sink (sc_wire sc @ [0]) 0 (sc_len sc) = Some (Some work, sink'))"

lemma succeeds_without_sink:
  "passes f wire \<Longrightarrow> succeeds \<lparr> sc_name = n, sc_group = g, sc_baseline = b, sc_wire = wire, sc_len = length wire,
     sc_fn = without_sink f \<rparr>"
  by (auto simp: succeeds_def without_sink_def)

context token_scanner
begin

lemma scenarios_pass:
  assumes "length tail = 256" and "length tail' = 320" and "0 \<in> set (drop 88 tail')"
  shows "list_all succeeds (scenarios is_token undef dec tail tail')"
proof -
  note one = request_runs [where rest = "[]" and post = "[0]" and v = IHTP_HTTP_11 and undef = undef,
      simplified append_Nil append_Nil2]
  have reuse: "passes (scenario_stateful_reuse_request undef) stateful_reuse_wire"
    using one(1) [OF wire_parts_1] unfolding wires_printed_1 by blast
  have policy: "passes (scenario_policy_strict_request_semantics is_token undef) policy_wire"
    "passes (scenario_policy_iohttp_request_semantics is_token undef) policy_wire"
    "passes (scenario_policy_ioguard_request_semantics is_token undef) policy_wire"
    using one(4) [OF wire_parts_2 wires_accepted(1)] unfolding wires_printed_2 by blast+
  have zero_copy: "passes (scenario_zero_copy_request_parse undef) zero_copy_wire"
    using one(2) [OF wire_parts_3] unfolding wires_printed_3 by blast
  have "length zero_copy_wire \<le> length (zero_copy_wire @ [0])" by simp
  from observe_run [OF this, of undef] zero_copy
  have observe: "\<exists>work sink'. scenario_zero_copy_request_observe undef sink (zero_copy_wire @ [0]) 0 (length zero_copy_wire) =
      Some (Some work, sink')" for sink by fastforce
  have connect: "passes (scenario_consumer_ioguard_connect is_token undef) connect_wire"
    using one(6) [OF wire_parts_4 wires_accepted(2,8)] unfolding wires_printed_4 by blast
  have te_cl: "passes (scenario_consumer_ioguard_reject_te_cl is_token undef) reject_te_cl_wire"
    using one(7) [OF wire_parts_5 wires_accepted(3)] unfolding wires_printed_5 by blast
  have assoc: "req11 ''POST'' ''/upload'' upload_fields @ encode_body True wiki [ascii ''Digest: sha-256=abc''] @ [0] =
      request_chunked_wire @ [0]" by (simp add: wires_printed_6)
  note upload = request_runs [OF wire_parts_6, where rest = "encode_body True wiki [ascii ''Digest: sha-256=abc'']"
      and post = "[0]" and v = IHTP_HTTP_11 and undef = undef, unfolded assoc, folded wires_printed_6]
  have chunked: "passes (scenario_request_chunked_parse_only undef) request_chunked_wire"
    using upload(3) [OF head_ends(1)] head_ends(3) by force
  have chunked_sem: "passes (scenario_request_chunked_parse_semantics is_token undef) request_chunked_wire"
    using upload(5) [OF wires_accepted(4,7)] by blast
  have chunked_body: "passes (scenario_request_chunked_parse_semantics_body is_token undef tail) request_chunked_wire"
    using request_body_run [OF wire_parts_6 wires_accepted(4,7) body_parts(1,2) assms(1), where rest = "[]" and post = "[0]"
        and undef = undef, unfolded append_Nil append_Nil2, OF body_sizes(1)]
    unfolding assoc wires_printed_6 [symmetric] by blast
  have pipeline: "passes (scenario_consumer_iohttp_pipeline is_token undef tail) consumer_iohttp_pipeline_wire"
    using pipeline_run [OF wire_parts_6 wires_accepted(4) wire_parts_8 wires_accepted(6) body_parts(1,2) assms(1),
        where u = "[]" and post = "[0]" and undef = undef, unfolded append_Nil append_Nil2, folded wires_printed_7]
      body_sizes(2) by simp
  have "0 \<notin> set (trailer_text [ascii ''Digest: sha-256=demo''])" "[ascii ''Digest: sha-256=demo''] \<noteq> []"
    by (simp_all add: ascii_def)
  with expect_trailers_run [OF wire_parts_7 wires_accepted(5) wire_parts_9 wires_accepted(6) body_parts(1,3) this(2) assms(2),
      where post = "[0]" and undef = undef, unfolded body_sizes(3), folded wires_printed_8] assms(3)
  have expect: "passes (scenario_consumer_iohttp_expect_trailers is_token undef tail') consumer_iohttp_expect_wire"
    by (simp del: append_assoc)
  have assoc': "resp11 ''101'' ''Switching Protocols'' upgrade_fields @ ([0x81, 0x05] @ ascii ''hello'') @ [0] =
      response_upgrade_wire @ [0]" by (simp add: wires_printed_9)
  note up = response_runs [OF wire_parts_10, where rest = "[0x81, 0x05] @ ascii ''hello''" and post = "[0]"
      and v = IHTP_HTTP_11 and undef = undef, unfolded assoc', folded wires_printed_9]
  have upgrade: "passes (scenario_response_upgrade_parse_only undef) response_upgrade_wire"
    using up(1) [OF head_ends(2)] head_ends(4) by force
  have upgrade_sem: "passes (scenario_response_upgrade_parse_semantics is_token undef) response_upgrade_wire"
    using up(2) [OF wires_accepted(9,10)] by blast
  have assoc'': "resp11 ''200'' ''OK'' length_fields @ ascii ''hello'' @ [0] = response_fixed_wire @ [0]"
    by (simp add: wires_printed_10)
  have "cl_value length_fields \<noteq> 0" using wires_accepted(14) by (auto simp: ascii_def)
  from fixed_body_run [OF wire_parts_11 wires_accepted(11,12) this, where rest = "ascii ''hello''" and post = "[0]"
      and v = IHTP_HTTP_11 and undef = undef and dec = dec, unfolded assoc'', folded wires_printed_10]
  have fixed: "passes (scenario_response_fixed_parse_semantics_body is_token undef dec) response_fixed_wire" by blast
  have fixed2: "passes (scenario_consumer_iohttp_fixed_response is_token undef dec) consumer_iohttp_fixed_wire"
    using fixed_response_run [OF wire_parts_11 wires_accepted(11,12,14) body_parts(5) wire_parts_12 wires_accepted(13)
        body_parts(4), where undef = undef and dec = dec and post = "[]" and v = IHTP_HTTP_11 and v' = IHTP_HTTP_11,
        unfolded append_Nil2, folded wires_printed_11] by blast
  have observe': "succeeds \<lparr> sc_name = n, sc_group = g, sc_baseline = b, sc_wire = zero_copy_wire,
      sc_len = length zero_copy_wire, sc_fn = scenario_zero_copy_request_observe undef \<rparr>" for n g b
    using observe by (simp add: succeeds_def)
  show ?thesis
    unfolding scenarios_def list.pred_inject(2)
    by (intro conjI list.pred_inject(1) observe' succeeds_without_sink reuse policy zero_copy connect te_cl chunked
        chunked_sem chunked_body pipeline expect upgrade upgrade_sem fixed fixed2)
qed

end

end
