(* ===== verification/Ihtp_Examples.thy ===== *)
theory Ihtp_Examples
  imports Ihtp_Scenarios
begin

text \<open>
  The programs of examples/: a CONNECT request, a request with \<open>Expect\<close> and trailers, a switch of
  protocols, and an incremental parse.  A program is its \<open>main\<close>: from what has been written so far to
  the exit code and what has been written.  Every write may fail; \<open>ok\<close> tells for which console the
  next one succeeds, and after a failed one \<open>main\<close> returns 1.  Formatted texts are byte lists.
\<close>

section \<open>Version functions\<close>

definition IHTP_VERSION_MAJOR :: int where "IHTP_VERSION_MAJOR = 0"
definition IHTP_VERSION_MINOR :: int where "IHTP_VERSION_MINOR = 1"
definition IHTP_VERSION_PATCH :: int where "IHTP_VERSION_PATCH = 0"
definition IHTP_VERSION_STRING :: string where "IHTP_VERSION_STRING = ''0.1.0''"

definition ihtp_version :: string where
  "ihtp_version = IHTP_VERSION_STRING"

definition ihtp_version_num :: int where
  "ihtp_version_num =
     push_bit 16 IHTP_VERSION_MAJOR OR push_bit 8 IHTP_VERSION_MINOR OR IHTP_VERSION_PATCH"

section \<open>Formatted output\<close>

fun version_code :: "ihtp_http_version_t \<Rightarrow> nat" where
  "version_code IHTP_HTTP_10 = 0"
| "version_code IHTP_HTTP_11 = 1"

fun body_mode_code :: "ihtp_body_mode_t \<Rightarrow> nat" where
  "body_mode_code IHTP_BODY_NONE = 0"
| "body_mode_code IHTP_BODY_FIXED = 1"
| "body_mode_code IHTP_BODY_CHUNKED = 2"
| "body_mode_code IHTP_BODY_EOF = 3"

text \<open>The conversions of printf that the programs use: \<open>%zu\<close>, \<open>%d\<close>, \<open>%02x\<close> and \<open>%.*s\<close>.\<close>

fun fmt_zu :: "nat \<Rightarrow> byte list" where
  "fmt_zu n = (if n < 10 then [word_of_nat (48 + n)] else fmt_zu (n div 10) @ [word_of_nat (48 + n mod 10)])"

declare fmt_zu.simps [simp del]

definition fmt_d :: "int \<Rightarrow> byte list" where
  "fmt_d i = (if i < 0 then ascii ''-'' @ fmt_zu (nat (- i)) else fmt_zu (nat i))"

definition fmt_02x :: "int \<Rightarrow> byte list" where
  "fmt_02x i = (let ds = hex_string (nat i) in replicate (2 - length ds) 0x30 @ ds)"

text \<open>
  \<open>%.*s\<close> with a precision that is converted to \<open>int\<close>: at most that many bytes, up to a NUL; a
  negative precision is none.
\<close>

definition fmt_prec_s :: "mem \<Rightarrow> ptr \<Rightarrow> nat \<Rightarrow> byte list ub" where
  "fmt_prec_s mem p n =
     do { p \<leftarrow> p;
          let prec = sint (word_of_nat n :: 32 word);
              s = takeWhile (\<lambda>b. b \<noteq> 0) (take (nat prec) (drop p mem))
          in if prec < 0 then c_string mem p
             else if p + nat prec \<le> length mem \<or> p + length s < length mem then Some s
             else None }"

record console =
  con_out :: "byte list"
  con_err :: "byte list"

type_synonym program = "console \<Rightarrow> (int \<times> console) ub"

definition exit_main :: "int \<Rightarrow> program" where
  "exit_main code c = Some (code, c)"

definition CHECKED_PRINTF :: "(console \<Rightarrow> bool) \<Rightarrow> byte list \<Rightarrow> program \<Rightarrow> program" where
  "CHECKED_PRINTF ok s rest c =
     (if ok c then rest (c\<lparr> con_out := con_out c @ s \<rparr>) else exit_main 1 c)"

definition CHECKED_EPRINTF :: "(console \<Rightarrow> bool) \<Rightarrow> byte list \<Rightarrow> program \<Rightarrow> program" where
  "CHECKED_EPRINTF ok s rest c =
     (if ok c then rest (c\<lparr> con_err := con_err c @ s \<rparr>) else exit_main 1 c)"

text \<open>Several calls in a row, and the report of an error.\<close>

primrec print_lines :: "(console \<Rightarrow> bool) \<Rightarrow> byte list list \<Rightarrow> program \<Rightarrow> program" where
  "print_lines ok [] rest = rest"
| "print_lines ok (s # ss) rest = CHECKED_PRINTF ok s (print_lines ok ss rest)"

definition fail_main :: "(console \<Rightarrow> bool) \<Rightarrow> byte list \<Rightarrow> program" where
  "fail_main ok s = CHECKED_EPRINTF ok s (exit_main 1)"

definition endl :: "string \<Rightarrow> byte list" where
  "endl s = ascii s @ [LF]"

definition labelled :: "string \<Rightarrow> byte list \<Rightarrow> byte list" where
  "labelled s x = ascii s @ x @ [LF]"

definition yes_no :: "bool \<Rightarrow> byte list" where
  "yes_no b = ascii (if b then ''yes'' else ''no'')"

section \<open>connect_tunnel.c\<close>

definition connect_tunnel_wire :: "byte list" where
  "connect_tunnel_wire = http_lines
     [''CONNECT vpn.example.com:443 HTTP/1.1'', ''Host: vpn.example.com:443'', ''Proxy-Connection: keep-alive'', '''']"

definition connect_tunnel_main ::
    "token_test \<Rightarrow> ihtp_parser_state_t \<Rightarrow> (console \<Rightarrow> bool) \<Rightarrow> program" where
  "connect_tunnel_main is_token undef ok c =
     (let wire = connect_tunnel_wire @ [0];
          policy = IHTP_POLICY_IOGUARD;
          st = ihtp_parser_state_init (Some undef) IHTP_PARSER_MODE_REQUEST
      in do { len \<leftarrow> c_strlen_at wire 0;
              (status, st, req, consumed) \<leftarrow> request_step wire st 0 len policy;
              if status \<noteq> IHTP_OK then fail_main ok (endl ''Failed to parse CONNECT request'') c
              else do { (status, req) \<leftarrow> ihtp_request_apply_semantics is_token wire req (Some policy);
                        if status \<noteq> IHTP_OK then fail_main ok (endl ''Failed to apply semantics'') c
                        else
                          let req = the req
                          in CHECKED_PRINTF ok
                               (labelled ''Method:      '' (ascii (ihtp_method_to_str (req_method req)))) (\<lambda>c.
                               do { authority \<leftarrow> fmt_prec_s wire (req_path req) (req_path_len req);
                                    print_lines ok
                                      [labelled ''Authority:   '' authority,
                                       labelled ''Body mode:   '' (fmt_d (int (body_mode_code (req_body_mode req)))),
                                       labelled ''Keep-alive:  '' (yes_no (req_keep_alive req)),
                                       labelled ''Upgrade:     '' (yes_no (req_protocol_upgrade req)),
                                       labelled ''Expect:      ''
                                         (ascii (if req_expects_continue req then ''100-continue'' else ''none'')),
                                       labelled ''Consumed:    '' (fmt_zu consumed),
                                       [LF],
                                       endl ''Consumer handoff:'',
                                       endl ''- CONNECT stays visible through req.method == IHTP_METHOD_CONNECT'',
                                       endl ''- req.path is the authority-form target for tunnel setup'',
                                       endl ''- no redundant CONNECT boolean is needed in the parser API'']
                                      (exit_main 0) c }) c } })"

section \<open>response_upgrade.c\<close>

definition upgrade_example_wire :: "byte list" where
  "upgrade_example_wire = http_lines
     [''HTTP/1.1 101 Switching Protocols'', ''Connection: Upgrade'', ''Upgrade: websocket'', '''']"

definition response_upgrade_main ::
    "token_test \<Rightarrow> ihtp_parser_state_t \<Rightarrow> (console \<Rightarrow> bool) \<Rightarrow> program" where
  "response_upgrade_main is_token undef ok c =
     (let wire = upgrade_example_wire @ [0];
          policy = IHTP_POLICY_IOHTTP;
          st = ihtp_parser_state_init (Some undef) IHTP_PARSER_MODE_RESPONSE
      in do { len \<leftarrow> c_strlen_at wire 0;
              (status, st, resp, consumed) \<leftarrow> response_step wire st 0 len policy;
              if status \<noteq> IHTP_OK then fail_main ok (endl ''Failed to parse response'') c
              else do { (status, resp) \<leftarrow> ihtp_response_apply_semantics is_token wire resp (Some policy);
                        if status \<noteq> IHTP_OK then fail_main ok (endl ''Failed to apply response semantics'') c
                        else
                          let resp = the resp
                          in print_lines ok
                               [labelled ''Status:    '' (fmt_d (resp_status_code resp)),
                                labelled ''Upgrade:   '' (yes_no (resp_protocol_upgrade resp)),
                                labelled ''Body mode: '' (fmt_d (int (body_mode_code (resp_body_mode resp)))),
                                labelled ''Consumed:  '' (fmt_zu consumed),
                                [LF],
                                endl ''Consumer handoff:'',
                                endl ''- protocol_upgrade means the application should switch protocols after the header block'',
                                endl ''- iohttpparser does not interpret WebSocket or other upgraded bytes'',
                                endl ''- after a 101 response, framing ownership moves to the upgraded protocol handler'']
                               (exit_main 0) c } })"

section \<open>expect_trailers.c\<close>

definition expect_trailers_wire :: "byte list" where
  "expect_trailers_wire = http_lines
     [''POST /upload HTTP/1.1'', ''Host: example.com'', ''Transfer-Encoding: chunked'', ''Expect: 100-continue'',
      ''Trailer: Digest'', '''', ''4'', ''Wiki'', ''5'', ''pedia'', ''0'', ''Digest: sha-256=demo'', '''']"

definition expect_trailers_main ::
    "token_test \<Rightarrow> ihtp_parser_state_t \<Rightarrow> mem \<Rightarrow> (console \<Rightarrow> bool) \<Rightarrow> program" where
  "expect_trailers_main is_token undef body_buf ok c =
     (let wire = expect_trailers_wire @ [0];
          policy = IHTP_POLICY_IOHTTP;
          dec = zero_decoder False;
          st = ihtp_parser_state_init (Some undef) IHTP_PARSER_MODE_REQUEST
      in do { len \<leftarrow> c_strlen_at wire 0;
              (status, st, req, consumed) \<leftarrow> request_step wire st 0 len policy;
              if status \<noteq> IHTP_OK then fail_main ok (endl ''Failed to parse request'') c
              else do { (status, req) \<leftarrow> ihtp_request_apply_semantics is_token wire req (Some policy);
                        if status \<noteq> IHTP_OK then fail_main ok (endl ''Failed to apply request semantics'') c
                        else
                          let req = the req
                          in print_lines ok
                               [labelled ''Method:   '' (ascii (ihtp_method_to_str (req_method req))),
                                labelled ''Expect:   ''
                                  (ascii (if req_expects_continue req then ''100-continue'' else ''none'')),
                                labelled ''Trailer:  ''
                                  (ascii (if req_has_trailer_fields req then ''advertised'' else ''none'')),
                                labelled ''Body:     '' (fmt_d (int (body_mode_code (req_body_mode req)))),
                                [LF],
                                endl ''Consumer handoff:'',
                                endl ''- if expects_continue is set, the consumer may emit 100 Continue before reading the body'',
                                endl ''- has_trailer_fields tells the consumer that trailing fields may follow the chunked body'',
                                endl ''- this example leaves consume_trailer disabled to keep trailer ownership in consumer code'']
                               (\<lambda>c.
                               if req_body_mode req \<noteq> IHTP_BODY_CHUNKED
                               then fail_main ok (endl ''Expected chunked body mode'') c
                               else do { len \<leftarrow> c_strlen_at wire 0;
                                         let body_len = size_sub len consumed
                                         in do { body_buf \<leftarrow> c_memcpy_from body_buf 0 wire consumed (body_len + 1);
                                                 (trailing, dec, body_buf, body_len) \<leftarrow>
                                                   ihtp_decode_chunked (Some dec) body_buf (Some 0) (Some body_len);
                                                 if trailing < 0
                                                 then fail_main ok (labelled ''Chunked decode failed: '' (fmt_d trailing)) c
                                                 else do { prefix \<leftarrow> fmt_prec_s body_buf (Some 0) (the body_len);
                                                           print_lines ok
                                                             [labelled ''Decoded body prefix: '' prefix,
                                                              labelled ''Trailing bytes returned to consumer: '' (fmt_d trailing),
                                                              endl ''Consumer note: trailer bytes stay outside parser semantics and remain consumer-owned.'']
                                                             (exit_main 0) c } } }) c } })"

section \<open>basic_parse.c\<close>

definition basic_parse_wire :: "byte list" where
  "basic_parse_wire = http_lines
     [''POST /upload HTTP/1.1'', ''Host: example.com'', ''Transfer-Encoding: chunked'', ''Trailer: Digest'',
      ''Expect: 100-continue'', '''', ''4'', ''Wiki'', ''5'', ''pedia'', ''0'', ''Digest: sha-256=demo'', '''']"

function print_headers ::
    "(console \<Rightarrow> bool) \<Rightarrow> mem \<Rightarrow> ihtp_header_t list \<Rightarrow> nat \<Rightarrow> nat \<Rightarrow> program \<Rightarrow> program" where
  "print_headers ok mem hs n i rest c =
     (if i < n then
        do { h \<leftarrow> hdr_read hs i;
             name \<leftarrow> fmt_prec_s mem (hdr_name h) (hdr_name_len h);
             val \<leftarrow> fmt_prec_s mem (hdr_value h) (hdr_value_len h);
             CHECKED_PRINTF ok (ascii ''  '' @ name @ ascii '': '' @ val @ [LF]) (print_headers ok mem hs n (Suc i) rest) c }
      else rest c)"
  by pat_completeness auto
termination
  by (relation "measure (\<lambda>(ok, mem, hs, n, i, rest, c). n - i)") auto

declare print_headers.simps [simp del]

definition basic_parse_report ::
    "mem \<Rightarrow> ihtp_request_t \<Rightarrow> nat \<Rightarrow> ihtp_chunked_decoder_t \<Rightarrow> mem \<Rightarrow> (console \<Rightarrow> bool) \<Rightarrow> program" where
  "basic_parse_report full req consumed dec body_buf ok =
     CHECKED_PRINTF ok (labelled ''Method:  '' (ascii (ihtp_method_to_str (req_method req)))) (\<lambda>c.
     do { path \<leftarrow> fmt_prec_s full (req_path req) (req_path_len req);
          print_lines ok
            [labelled ''Path:    '' path,
             labelled ''Version: HTTP/1.'' (fmt_d (int (version_code (req_version req)))),
             labelled ''Headers: '' (fmt_zu (req_num_headers req)),
             labelled ''Body:    '' (fmt_d (int (body_mode_code (req_body_mode req)))),
             labelled ''Expect:  '' (ascii (if req_expects_continue req then ''100-continue'' else ''none'')),
             labelled ''Upgrade: '' (yes_no (req_protocol_upgrade req)),
             labelled ''Trailer: '' (ascii (if req_has_trailer_fields req then ''advertised'' else ''none''))]
            (print_headers ok full (req_headers req) (req_num_headers req) 0
              (CHECKED_PRINTF ok (ascii ''Consumed: '' @ fmt_zu consumed @ ascii '' bytes'' @ [LF]) (\<lambda>c.
               if req_body_mode req = IHTP_BODY_CHUNKED
               then do { len \<leftarrow> c_strlen_at full 0;
                         let body_len = size_sub len consumed
                         in do { body_buf \<leftarrow> c_memcpy_from body_buf 0 full consumed (body_len + 1);
                                 (trailing, dec, body_buf, body_len) \<leftarrow>
                                   ihtp_decode_chunked (Some dec) body_buf (Some 0) (Some body_len);
                                 if trailing < 0
                                 then fail_main ok (labelled ''Chunked decode error: '' (fmt_d trailing)) c
                                 else do { body \<leftarrow> fmt_prec_s body_buf (Some 0) (the body_len);
                                           print_lines ok
                                             [labelled ''Decoded body: '' body,
                                              labelled ''Trailing bytes after chunked decode: '' (fmt_d trailing)]
                                             (exit_main 0) c } } }
               else exit_main 0 c))) c })"

definition basic_parse_main ::
    "build_flags \<Rightarrow> cmpestri_t \<Rightarrow> (string \<Rightarrow> bool) \<Rightarrow> ihtp_parser_state_t \<Rightarrow> mem \<Rightarrow> (console \<Rightarrow> bool) \<Rightarrow> program" where
  "basic_parse_main flags cmpestri cpu undef body_buf ok =
     CHECKED_PRINTF ok
       (ascii ''iohttpparser '' @ ascii ihtp_version @ ascii '' (SIMD level: 0x'' @
        fmt_02x (ihtp_scanner_simd_level flags cpu) @ ascii '')'' @ [LF, LF]) (\<lambda>c.
     let full = basic_parse_wire @ [0];
         is_token = vt_is_token (ihtp_scanner_select_vtable flags cmpestri (ihtp_scanner_simd_level flags cpu));
         policy = IHTP_POLICY_IOHTTP;
         dec = zero_decoder True;
         st = ihtp_parser_state_init (Some undef) IHTP_PARSER_MODE_REQUEST
     in do { len \<leftarrow> c_strlen_at full 0;
             let split = len div 2
             in do { (status, st, req, consumed) \<leftarrow>
                       ihtp_parse_request_stateful full st (Some 0) split (Some zero_request) (Some policy) (Some 0);
                     if status \<noteq> IHTP_INCOMPLETE
                     then fail_main ok
                            (labelled ''Expected incremental parse to be incomplete, got '' (fmt_d (status_code status))) c
                     else do { (status, st, req, consumed) \<leftarrow>
                                 ihtp_parse_request_stateful full st (Some 0) len req (Some policy) consumed;
                               if status \<noteq> IHTP_OK
                               then fail_main ok (labelled ''Parse error: '' (fmt_d (status_code status))) c
                               else do { (status, req) \<leftarrow> ihtp_request_apply_semantics is_token full req (Some policy);
                                         if status \<noteq> IHTP_OK then fail_main ok (endl ''Semantics error'') c
                                         else basic_parse_report full (the req) (the consumed) dec body_buf ok c } } } })"

section \<open>Transcripts\<close>

text \<open>
  What a program does that only prints some texts: each write may be the one that fails.
\<close>

fun transcript :: "(console \<Rightarrow> bool) \<Rightarrow> byte list list \<Rightarrow> console \<Rightarrow> int \<times> console" where
  "transcript ok [] c = (0, c)"
| "transcript ok (s # ss) c = (if ok c then transcript ok ss (c\<lparr> con_out := con_out c @ s \<rparr>) else (1, c))"

lemma transcript_all: "\<forall>c. ok c \<Longrightarrow> transcript ok ss c = (0, c\<lparr> con_out := con_out c @ concat ss \<rparr>)"
  by (induction ss arbitrary: c) simp_all

lemma transcript_code: "fst (transcript ok ss c) \<in> {0, 1} \<and> con_err (snd (transcript ok ss c)) = con_err c"
  by (induction ss arbitrary: c) simp_all

lemma printf_transcript:
  "(\<And>c. rest c = Some (transcript ok ss c)) \<Longrightarrow> CHECKED_PRINTF ok s rest c = Some (transcript ok (s # ss) c)"
  by (simp add: CHECKED_PRINTF_def exit_main_def)

lemma exit_transcript: "exit_main 0 c = Some (transcript ok [] c)"
  by (simp add: exit_main_def)

lemma print_lines_transcript:
  "(\<And>c. rest c = Some (transcript ok ts c)) \<Longrightarrow> print_lines ok ss rest c = Some (transcript ok (ss @ ts) c)"
proof (induction ss arbitrary: c)
  case (Cons s ss)
  show ?case unfolding print_lines.simps append_Cons
    by (rule printf_transcript) (rule Cons.IH, rule Cons.prems)
qed simp

lemma print_lines_exit: "print_lines ok ss (exit_main 0) c = Some (transcript ok ss c)"
  using print_lines_transcript [OF exit_transcript, of ok ss c] by simp

section \<open>Formatting what was printed\<close>

lemma fmt_prec_s_span:
  assumes "p + n \<le> length mem" and "n < 2 ^ 31" and "0 \<notin> set (span mem p n)"
  shows "fmt_prec_s mem (Some p) n = Some (span mem p n)"
proof -
  have prec: "sint (word_of_nat n :: 32 word) = int n"
    using assms(2) by (simp add: signed_of_nat signed_take_bit_int_eq_self)
  have "takeWhile (\<lambda>b. b \<noteq> 0) (span mem p n) = span mem p n"
    using assms(3) by (simp add: takeWhile_eq_all_conv) metis
  with assms(1) show ?thesis unfolding fmt_prec_s_def prec by (simp add: span_def)
qed

lemma c_strlen_at_literal: "0 \<notin> set xs \<Longrightarrow> c_strlen_at (xs @ [0]) 0 = Some (length xs)"
  using c_string_at [of xs 0 "[]" "[0]"] by (simp add: c_strlen_at_def)

lemma printed_target:
  "span (render_request m t v fs @ post) (length m + 1) (length t) = t"
  using span_mid [of "length m + 1" "m @ [SP]" "length t" t] by (simp add: render_request_def)

lemma fmt_printed_target:
  assumes "request_parts_ok policy m t fs" and "length (render_request m t v fs @ post) < 2 ^ 31"
  shows "fmt_prec_s (render_request m t v fs @ post) (Some (length m + 1)) (length t) = Some t"
proof -
  have "0 \<notin> set t" using request_not_NUL [OF assms(1), of v] by (simp add: render_request_def)
  moreover have "length m + 1 + length t \<le> length (render_request m t v fs @ post)" by (simp add: render_request_def)
  ultimately show ?thesis
    using fmt_prec_s_span [of "length m + 1" "length t" "render_request m t v fs @ post"] assms(2)
    unfolding printed_target by simp
qed

text \<open>The fields that the header loop prints.\<close>

definition field_line :: "byte list \<times> byte list \<Rightarrow> byte list" where
  "field_line f = ascii ''  '' @ fst f @ ascii '': '' @ snd f @ [LF]"

lemma print_headers_transcript:
  assumes "headers_in mem hs n" and "\<And>c. rest c = Some (transcript ok ts c)"
    and "list_all (\<lambda>(nm, vl). 0 \<notin> set nm \<and> 0 \<notin> set vl) (header_fields mem hs n)" and "length mem < 2 ^ 31"
  shows "print_headers ok mem hs n i rest c =
           Some (transcript ok (map field_line (drop i (header_fields mem hs n)) @ ts) c)"
proof (induction "n - i" arbitrary: i c)
  case 0
  then show ?case by (subst print_headers.simps) (simp add: assms(2) header_fields_def)
next
  case (Suc k)
  then have i: "i < n" by simp
  have n: "n \<le> length hs" using assms(1) by (simp add: headers_in_def)
  let ?h = "hs ! i"
  have "hdr_in mem ?h" using assms(1) i n by (auto simp: headers_in_def list_all_length)
  then obtain p v where pv: "hdr_name ?h = Some p" "p + hdr_name_len ?h \<le> length mem"
    "hdr_value ?h = Some v" "v + hdr_value_len ?h \<le> length mem" by (auto simp: hdr_in_def)
  let ?f = "(span mem p (hdr_name_len ?h), span mem v (hdr_value_len ?h))"
  have f: "header_fields mem hs n ! i = ?f" "i < length (header_fields mem hs n)"
    using pv i n by (simp_all add: header_fields_def header_text_def)
  then have nul: "0 \<notin> set (fst ?f)" "0 \<notin> set (snd ?f)" using assms(3) by (auto simp: list_all_length)
  have d: "drop i (header_fields mem hs n) = ?f # drop (Suc i) (header_fields mem hs n)"
    using f by (metis Cons_nth_drop_Suc)
  have "print_headers ok mem hs n i rest c = CHECKED_PRINTF ok (field_line ?f) (print_headers ok mem hs n (Suc i) rest) c"
    using i n pv nul assms(4) fmt_prec_s_span [of p "hdr_name_len ?h" mem] fmt_prec_s_span [of v "hdr_value_len ?h" mem]
    by (subst print_headers.simps) (simp add: hdr_read_def field_line_def)
  also have "\<dots> = Some (transcript ok (field_line ?f # map field_line (drop (Suc i) (header_fields mem hs n)) @ ts) c)"
    by (rule printf_transcript) (use Suc in auto)
  finally show ?case unfolding d by simp
qed

section \<open>What the programs print\<close>

definition connect_tunnel_lines :: "byte list list" where
  "connect_tunnel_lines = map endl
     [''Method:      CONNECT'', ''Authority:   vpn.example.com:443'', ''Body mode:   0'', ''Keep-alive:  yes'',
      ''Upgrade:     no'', ''Expect:      none'', ''Consumed:    97'', '''', ''Consumer handoff:'',
      ''- CONNECT stays visible through req.method == IHTP_METHOD_CONNECT'',
      ''- req.path is the authority-form target for tunnel setup'',
      ''- no redundant CONNECT boolean is needed in the parser API'']"

definition response_upgrade_lines :: "byte list list" where
  "response_upgrade_lines = map endl
     [''Status:    101'', ''Upgrade:   yes'', ''Body mode: 0'', ''Consumed:  77'', '''', ''Consumer handoff:'',
      ''- protocol_upgrade means the application should switch protocols after the header block'',
      ''- iohttpparser does not interpret WebSocket or other upgraded bytes'',
      ''- after a 101 response, framing ownership moves to the upgraded protocol handler'']"

definition expect_trailers_lines :: "byte list list" where
  "expect_trailers_lines = map endl
     [''Method:   POST'', ''Expect:   100-continue'', ''Trailer:  advertised'', ''Body:     2'', '''',
      ''Consumer handoff:'',
      ''- if expects_continue is set, the consumer may emit 100 Continue before reading the body'',
      ''- has_trailer_fields tells the consumer that trailing fields may follow the chunked body'',
      ''- this example leaves consume_trailer disabled to keep trailer ownership in consumer code'',
      ''Decoded body prefix: Wikipedia'', ''Trailing bytes returned to consumer: 24'',
      ''Consumer note: trailer bytes stay outside parser semantics and remain consumer-owned.'']"

definition basic_parse_lines :: "int \<Rightarrow> byte list list" where
  "basic_parse_lines level =
     (ascii ''iohttpparser 0.1.0 (SIMD level: 0x'' @ fmt_02x level @ ascii '')'' @ [LF, LF]) # map endl
     [''Method:  POST'', ''Path:    /upload'', ''Version: HTTP/1.1'', ''Headers: 4'', ''Body:    2'',
      ''Expect:  100-continue'', ''Upgrade: no'', ''Trailer: advertised'',
      ''  Host: example.com'', ''  Transfer-Encoding: chunked'', ''  Trailer: Digest'', ''  Expect: 100-continue'',
      ''Consumed: 111 bytes'', ''Decoded body: Wikipedia'', ''Trailing bytes after chunked decode: 0'']"

abbreviation "vpn_fields \<equiv> [field ''Host'' ''vpn.example.com:443'', field ''Proxy-Connection'' ''keep-alive'']"

abbreviation "basic_fields \<equiv>
  [host, field ''Transfer-Encoding'' ''chunked'', field ''Trailer'' ''Digest'', field ''Expect'' ''100-continue'']"

lemmas example_wire_defs = connect_tunnel_wire_def upgrade_example_wire_def expect_trailers_wire_def
  basic_parse_wire_def http_lines_def

lemma example_wires:
  "connect_tunnel_wire = req11 ''CONNECT'' ''vpn.example.com:443'' vpn_fields"
  "upgrade_example_wire = resp11 ''101'' ''Switching Protocols'' upgrade_fields"
  "expect_trailers_wire = req11 ''POST'' ''/upload'' expect_fields @ encode_body False wiki [] @
     (trailer_text [ascii ''Digest: sha-256=demo''] @ [CR, LF])"
  "basic_parse_wire = req11 ''POST'' ''/upload'' basic_fields @
     encode_body True wiki [ascii ''Digest: sha-256=demo'']"
  by (simp_all add: example_wire_defs printed_defs)

lemma example_parts:
  "request_parts_ok (Some IHTP_POLICY_STRICT) (ascii ''CONNECT'') (ascii ''vpn.example.com:443'') vpn_fields"
  "request_parts_ok (Some IHTP_POLICY_STRICT) (ascii ''POST'') (ascii ''/upload'') basic_fields"
  unfolding request_parts_ok_def by (intro conjI; code_simp)+

lemma example_accepted:
  "request_accepted IHTP_POLICY_STRICT IHTP_HTTP_11 vpn_fields"
  "request_accepted IHTP_POLICY_STRICT IHTP_HTTP_11 basic_fields"
  by code_simp+

lemma example_lengths:
  "length (req11 ''CONNECT'' ''vpn.example.com:443'' vpn_fields) = 97"
  "length (resp11 ''101'' ''Switching Protocols'' upgrade_fields) = 77"
  "length (req11 ''POST'' ''/upload'' expect_fields) = 111"
  "length (req11 ''POST'' ''/upload'' basic_fields) = 111"
  by (simp_all add: printed_defs)

text \<open>What the semantics layer decides about them.\<close>

abbreviation "vpn_request \<equiv> printed_request 0 (ascii ''CONNECT'') (ascii ''vpn.example.com:443'') IHTP_HTTP_11 vpn_fields"
abbreviation "expect_request \<equiv> printed_request 0 (ascii ''POST'') (ascii ''/upload'') IHTP_HTTP_11 expect_fields"
abbreviation "basic_request \<equiv> printed_request 0 (ascii ''POST'') (ascii ''/upload'') IHTP_HTTP_11 basic_fields"
abbreviation "upgrade_response \<equiv> printed_response 0 IHTP_HTTP_11 (ascii ''101'') (ascii ''Switching Protocols'') upgrade_fields"

definition request_flags :: "ihtp_request_t \<Rightarrow> ihtp_method_t \<times> ihtp_body_mode_t \<times> bool list" where
  "request_flags req = (req_method req, req_body_mode req,
     [req_keep_alive req, req_protocol_upgrade req, req_expects_continue req, req_has_trailer_fields req])"

lemma example_payload: "concat wiki = ascii ''Wikipedia''" "0 \<notin> set (ascii ''Wikipedia'')" "0 \<notin> set (concat wiki)"
  by (simp_all add: ascii_def)

lemma example_trailer_length: "int (length (trailer_text [ascii ''Digest: sha-256=demo''] @ [CR, LF])) = 24"
  by (simp add: ascii_def)

lemma example_decisions:
  "request_flags (request_decision vpn_fields vpn_request) = (IHTP_METHOD_CONNECT, IHTP_BODY_NONE, [True, False, False, False])"
  "request_flags (request_decision expect_fields expect_request) = (IHTP_METHOD_POST, IHTP_BODY_CHUNKED, [True, False, True, True])"
  "request_flags (request_decision basic_fields basic_request) = (IHTP_METHOD_POST, IHTP_BODY_CHUNKED, [True, False, True, True])"
  "resp_status_code (response_decision upgrade_fields upgrade_response) = 101"
  "resp_body_mode (response_decision upgrade_fields upgrade_response) = IHTP_BODY_NONE"
  "resp_protocol_upgrade (response_decision upgrade_fields upgrade_response)"
  by code_simp+

lemma decision_keeps [simp]:
  "req_path (request_decision fs req) = req_path req" "req_path_len (request_decision fs req) = req_path_len req"
  "req_version (request_decision fs req) = req_version req" "req_headers (request_decision fs req) = req_headers req"
  "req_num_headers (request_decision fs req) = req_num_headers req"
  by (simp_all add: request_decision_def)

lemma printed_request_parts:
  "req_path (printed_request p m t v fs) = Some (p + length m + 1)"
  "req_path_len (printed_request p m t v fs) = length t" "req_version (printed_request p m t v fs) = v"
  "req_num_headers (printed_request p m t v fs) = length fs"
  by (simp_all add: printed_request_def)

lemmas text_defs = labelled_def endl_def yes_no_def fmt_d_def fmt_zu.simps

text \<open>A request that arrives in two parts: the first call asks for more, the second ends like one call.\<close>

lemma two_calls:
  assumes "request_stateful (take n mem) 0 n (Some policy) (fresh_state IHTP_PARSER_MODE_REQUEST) zero_request =
             Some (IHTP_INCOMPLETE, s1, r1, k1)"
    and "n \<le> m" and "m \<le> length mem"
    and "request_step mem (ihtp_parser_state_init (Some undef) IHTP_PARSER_MODE_REQUEST) 0 m policy =
           Some (IHTP_OK, state, Some req, k)"
  shows "ihtp_parse_request_stateful mem (ihtp_parser_state_init (Some undef) IHTP_PARSER_MODE_REQUEST) (Some 0) n
             (Some zero_request) (Some policy) (Some 0) = Some (IHTP_INCOMPLETE, Some s1, Some r1, Some k1)"
    and "ihtp_parse_request_stateful mem (Some s1) (Some 0) m (Some r1) (Some policy) (Some k1) =
           Some (IHTP_OK, state, Some req, Some k)"
proof -
  let ?P = "request_parse (Some policy)" and ?c = "(fresh_state IHTP_PARSER_MODE_REQUEST, zero_request)"
  have ready: "config_ready req_hdrs IHTP_MAX_HEADERS n ?c" by (rule config_ready_mono [OF fresh_ready(1)]) simp
  have "?P (take n mem @ drop n mem) n ?c = ?P (take n mem) n ?c"
    by (rule request_inc.parse_frame [OF ready]) (use assms(2,3) in simp)
  then have one: "?P mem n ?c = Some (IHTP_INCOMPLETE, (s1, r1), k1)"
    using assms(1) by (simp add: request_parse_def regroup_def)
  from request_inc.parse_resume [OF ready assms(2,3) one] assms(4) have
    "?P mem m (s1, r1) = Some (IHTP_OK, (the state, req), k)"
    by (auto simp: request_step_init bind_eq_Some_conv request_parse_def regroup_def same_outcome_def split: prod.splits)
  moreover have "state = Some (the state)" using assms(4) by (auto simp: request_step_init bind_eq_Some_conv)
  moreover have f: "request_stateful mem 0 n (Some policy) (fresh_state IHTP_PARSER_MODE_REQUEST) zero_request =
      Some (IHTP_INCOMPLETE, s1, r1, k1)"
    using one by (auto simp: request_parse_def regroup_def split: prod.splits)
  ultimately show "ihtp_parse_request_stateful mem (Some s1) (Some 0) m (Some r1) (Some policy) (Some k1) =
           Some (IHTP_OK, state, Some req, Some k)"
    using request_stateful_mode [OF f]
    by (auto simp: ihtp_parse_request_stateful_def fresh_state_def request_parse_def regroup_def split: prod.splits)
  show "ihtp_parse_request_stateful mem (ihtp_parser_state_init (Some undef) IHTP_PARSER_MODE_REQUEST) (Some 0) n
             (Some zero_request) (Some policy) (Some 0) = Some (IHTP_INCOMPLETE, Some s1, Some r1, Some k1)"
    using f by (simp add: state_init_fresh ihtp_parse_request_stateful_def fresh_state_def)
qed

lemma basic_parse_first:
  "\<exists>s1 r1 k1. request_stateful (take 78 basic_parse_wire) 0 78 (Some IHTP_POLICY_STRICT)
     (fresh_state IHTP_PARSER_MODE_REQUEST) zero_request = Some (IHTP_INCOMPLETE, s1, r1, k1)"
proof -
  have "case request_stateful (take 78 basic_parse_wire) 0 78 (Some IHTP_POLICY_STRICT)
      (fresh_state IHTP_PARSER_MODE_REQUEST) zero_request of Some (st, _) \<Rightarrow> st = IHTP_INCOMPLETE | None \<Rightarrow> False"
    by code_simp
  then show ?thesis by (auto split: option.splits)
qed

context token_scanner
begin

text \<open>A request in front of the NUL of its literal.\<close>

lemma literal_request:
  assumes "request_parts_ok (Some IHTP_POLICY_STRICT) m t fs" and "request_accepted IHTP_POLICY_STRICT v fs"
    and "0 \<notin> set rest" and "length (render_request m t v fs @ rest @ [0]) < 2 ^ 31"
  defines "head \<equiv> render_request m t v fs" and "req \<equiv> printed_request 0 m t v fs"
  shows "\<exists>state. request_step (head @ rest @ [0]) (ihtp_parser_state_init (Some undef) IHTP_PARSER_MODE_REQUEST) 0
             (length (head @ rest)) IHTP_POLICY_STRICT = Some (IHTP_OK, state, Some req, length head)"
    and "ihtp_request_apply_semantics is_token (head @ rest @ [0]) (Some req) (Some IHTP_POLICY_STRICT) =
           Some (IHTP_OK, Some (request_decision fs req))"
    and "c_strlen_at (head @ rest @ [0]) 0 = Some (length (head @ rest))"
    and "fmt_prec_s (head @ rest @ [0]) (req_path (request_decision fs req)) (req_path_len (request_decision fs req)) = Some t"
  using decided_request_step [OF assms(1) _ refl, of 0 "[]" v rest "[0]" undef] assms(2)
    c_strlen_at_literal [of "head @ rest"] request_not_NUL [OF assms(1), of v] assms(3)
    fmt_printed_target [OF assms(1), of v "rest @ [0]"] assms(4)
  by (auto simp: head_def req_def printed_request_parts)

lemma connect_tunnel_run:
  "connect_tunnel_main is_token undef ok c = Some (transcript ok connect_tunnel_lines c)"
proof -
  define d where "d = request_decision vpn_fields vpn_request"
  have d: "req_method d = IHTP_METHOD_CONNECT" "req_body_mode d = IHTP_BODY_NONE" "req_keep_alive d"
    "\<not> req_protocol_upgrade d" "\<not> req_expects_continue d"
    using example_decisions(1) unfolding request_flags_def d_def [symmetric] by simp_all
  note lit = literal_request [OF example_parts(1) example_accepted(1), of "[]", unfolded append_Nil d_def [symmetric]]
  from lit(1) [of undef] obtain state where
    s: "request_step (req11 ''CONNECT'' ''vpn.example.com:443'' vpn_fields @ [0])
          (ihtp_parser_state_init (Some undef) IHTP_PARSER_MODE_REQUEST) 0
          (length (req11 ''CONNECT'' ''vpn.example.com:443'' vpn_fields)) IHTP_POLICY_STRICT =
        Some (IHTP_OK, state, Some vpn_request, length (req11 ''CONNECT'' ''vpn.example.com:443'' vpn_fields))"
    using example_lengths(1) by auto
  have "connect_tunnel_main is_token undef ok c = print_lines ok connect_tunnel_lines (exit_main 0) c"
    unfolding connect_tunnel_main_def Let_def example_wires presets
    using lit(2-4) example_lengths(1) s
    by (simp add: d connect_tunnel_lines_def text_defs ascii_def)
  then show ?thesis by (simp add: print_lines_exit)
qed

lemma response_upgrade_run:
  "response_upgrade_main is_token undef ok c = Some (transcript ok response_upgrade_lines c)"
proof -
  let ?head = "resp11 ''101'' ''Switching Protocols'' upgrade_fields"
  define d where "d = response_decision upgrade_fields upgrade_response"
  have d: "resp_status_code d = 101" "resp_body_mode d = IHTP_BODY_NONE" "resp_protocol_upgrade d"
    using example_decisions(4-6) unfolding d_def [symmetric] by simp_all
  from decided_response_step [where policy = IHTP_POLICY_STRICT, OF wire_parts_10 _ refl, of 0 "[]" IHTP_HTTP_11 "[]" "[0]" undef]
    wires_accepted(9) obtain state where
    s: "response_step (?head @ [0]) (ihtp_parser_state_init (Some undef) IHTP_PARSER_MODE_RESPONSE) 0 (length ?head)
          IHTP_POLICY_STRICT = Some (IHTP_OK, state, Some upgrade_response, length ?head)"
      "ihtp_response_apply_semantics is_token (?head @ [0]) (Some upgrade_response) (Some IHTP_POLICY_STRICT) =
        Some (IHTP_OK, Some d)"
    by (auto simp: d_def)
  have len: "c_strlen_at (?head @ [0]) 0 = Some (length ?head)"
    by (rule c_strlen_at_literal [OF response_not_NUL [OF wire_parts_10]])
  have "response_upgrade_main is_token undef ok c = print_lines ok response_upgrade_lines (exit_main 0) c"
    unfolding response_upgrade_main_def Let_def example_wires presets len bind.simps s prod.case option.sel
    unfolding example_lengths
    by (simp add: d response_upgrade_lines_def text_defs ascii_def)
  then show ?thesis by (simp add: print_lines_exit)
qed

lemma payload_length: "length (concat xss) \<le> length (encode_body ct xss ls)"
  by (induction xss) (auto simp: encode_body_def encode_chunk_def)

text \<open>Copying the body behind the head with its NUL, decoding it in place, printing the payload.\<close>

lemma literal_body:
  assumes "list_all (\<lambda>xs. xs \<noteq> []) xss" and "list_all (\<lambda>l. line_text l \<and> l \<noteq> []) ls"
    and "length (encode_body ct xss ls @ rest) < length buf" and "length buf < 2 ^ 31" and "0 \<notin> set (concat xss)"
  defines "body \<equiv> encode_body ct xss ls @ rest"
  shows "\<exists>buf' d buf2. c_memcpy_from buf 0 (head @ body @ [0]) (length head) (length body + 1) = Some buf' \<and>
           ihtp_decode_chunked (Some (zero_decoder ct)) buf' (Some 0) (Some (length body)) =
             Some (int (length rest), Some d, buf2, Some (length (concat xss))) \<and>
           fmt_prec_s buf2 (Some 0) (length (concat xss)) = Some (concat xss)"
proof -
  let ?post = "0 # drop (length body + 1) buf"
  have copy: "c_memcpy_from buf 0 (head @ body @ [0]) (length head) (length body + 1) = Some (body @ ?post)"
    using c_memcpy_front [of "length body + 1" buf "length head" head "body @ [0]" "[]"] assms(3) by (simp add: body_def)
  have "length body < 2 ^ 31" using assms(3,4) by (simp add: body_def)
  from decoded_in_buffer [OF assms(1,2) this [unfolded body_def], of ?post] obtain d stale where
    dec: "ihtp_decode_chunked (Some (zero_decoder ct)) (body @ ?post) (Some 0) (Some (length body)) =
       Some (int (length rest), Some d, concat xss @ rest @ stale @ ?post, Some (length (concat xss)))"
    by (auto simp: body_def)
  have "length (concat xss) \<le> length body"
    using payload_length [of xss ct ls] by (simp add: body_def)
  then have "length (concat xss) < 2 ^ 31" using \<open>length body < 2 ^ 31\<close> by simp
  then have "fmt_prec_s (concat xss @ rest @ stale @ ?post) (Some 0) (length (concat xss)) = Some (concat xss)"
    using fmt_prec_s_span [of 0 "length (concat xss)" "concat xss @ rest @ stale @ ?post"] assms(5)
    by (simp add: span_def)
  with copy dec show ?thesis by blast
qed

lemma expect_trailers_main_run:
  assumes "length body_buf = 256"
  shows "expect_trailers_main is_token undef body_buf ok c = Some (transcript ok expect_trailers_lines c)"
proof -
  let ?head = "req11 ''POST'' ''/upload'' expect_fields"
  let ?rest = "trailer_text [ascii ''Digest: sha-256=demo''] @ [CR, LF]"
  define body where "body = encode_body False wiki [] @ ?rest"
  have body: "length body = 46" "0 \<notin> set body" by (simp_all add: body_def printed_defs)
  define d where "d = request_decision expect_fields expect_request"
  have d: "req_method d = IHTP_METHOD_POST" "req_body_mode d = IHTP_BODY_CHUNKED" "req_expects_continue d" "req_has_trailer_fields d"
    using example_decisions(2) unfolding request_flags_def d_def [symmetric] by simp_all
  have "length (?head @ body @ [0]) < 2 ^ 31" using example_lengths(3) body(1) by simp
  note lit = literal_request [OF wire_parts_7 wires_accepted(5) body(2) this, unfolded d_def [symmetric]]
  from lit(1) [of undef] obtain state where
    s: "request_step (?head @ body @ [0]) (ihtp_parser_state_init (Some undef) IHTP_PARSER_MODE_REQUEST) 0
          (length (?head @ body)) IHTP_POLICY_STRICT = Some (IHTP_OK, state, Some expect_request, length ?head)" by blast
  have wire: "expect_trailers_wire @ [0] = ?head @ body @ [0]" by (simp add: example_wires body_def)
  obtain buf' dec buf2 where b:
    "c_memcpy_from body_buf 0 (?head @ body @ [0]) (length ?head) (length body + 1) = Some buf'"
    "ihtp_decode_chunked (Some (zero_decoder False)) buf' (Some 0) (Some (length body)) =
       Some (24, Some dec, buf2, Some (length (concat wiki)))"
    "fmt_prec_s buf2 (Some 0) (length (concat wiki)) = Some (concat wiki)"
    using literal_body [OF body_parts(1) _ _ _ example_payload(3), of "[]" False ?rest body_buf ?head,
        folded body_def, unfolded example_trailer_length] assms body by (fastforce simp del: concat.simps)
  have sub: "size_sub (length (?head @ body)) (length ?head) = length body" by simp
  have "expect_trailers_main is_token undef body_buf ok c = print_lines ok expect_trailers_lines (exit_main 0) c"
    unfolding expect_trailers_main_def Let_def wire presets lit(3) bind.simps s prod.case lit(2) option.sel sub b(1)
    by (simp add: d b b(3) [simplified] expect_trailers_lines_def text_defs ascii_def)
  then show ?thesis by (simp add: print_lines_exit)
qed

lemma basic_parse_run:
  assumes "length body_buf = 256"
    and "is_token = vt_is_token (ihtp_scanner_select_vtable flags cmpestri (ihtp_scanner_simd_level flags cpu))"
  shows "basic_parse_main flags cmpestri cpu undef body_buf ok c =
           Some (transcript ok (basic_parse_lines (ihtp_scanner_simd_level flags cpu)) c)"
proof -
  let ?head = "req11 ''POST'' ''/upload'' basic_fields"
  define body where "body = encode_body True wiki [ascii ''Digest: sha-256=demo'']"
  have body: "length body = 46" "0 \<notin> set body" by (simp_all add: body_def printed_defs)
  define d where "d = request_decision basic_fields basic_request"
  have d: "req_method d = IHTP_METHOD_POST" "req_body_mode d = IHTP_BODY_CHUNKED" "req_expects_continue d"
      "req_has_trailer_fields d" "\<not> req_protocol_upgrade d"
    using example_decisions(3) unfolding request_flags_def d_def [symmetric] by simp_all
  have dv: "req_version d = IHTP_HTTP_11" "req_num_headers d = 4" by (simp_all add: d_def printed_request_parts)
  have full: "length (?head @ body @ [0]) < 2 ^ 31" using example_lengths(4) body(1) by simp
  note lit = literal_request [OF example_parts(2) example_accepted(2) body(2) full, unfolded d_def [symmetric]]
  have wire: "basic_parse_wire @ [0] = ?head @ body @ [0]" "length (?head @ body) = 157"
    using example_lengths(4) body(1) by (simp_all add: example_wires body_def)
  have n: "length (?head @ body) div 2 = 78" using wire(2) by simp
  have first: "take 78 basic_parse_wire = take 78 (?head @ body @ [0])"
    using wire(2) by (simp add: example_wires body_def [symmetric])
  obtain state where
    s: "request_step (?head @ body @ [0]) (ihtp_parser_state_init (Some undef) IHTP_PARSER_MODE_REQUEST) 0
          (length (?head @ body)) IHTP_POLICY_STRICT = Some (IHTP_OK, state, Some basic_request, length ?head)"
    using lit(1) [of undef] by blast
  from basic_parse_first obtain s1 r1 k1 where
    f: "request_stateful (take 78 (?head @ body @ [0])) 0 78 (Some IHTP_POLICY_STRICT)
          (fresh_state IHTP_PARSER_MODE_REQUEST) zero_request = Some (IHTP_INCOMPLETE, s1, r1, k1)"
    unfolding first by blast
  have calls:
    "ihtp_parse_request_stateful (?head @ body @ [0]) (ihtp_parser_state_init (Some undef) IHTP_PARSER_MODE_REQUEST)
       (Some 0) 78 (Some zero_request) (Some IHTP_POLICY_STRICT) (Some 0) =
       Some (IHTP_INCOMPLETE, Some s1, Some r1, Some k1)"
    "ihtp_parse_request_stateful (?head @ body @ [0]) (Some s1) (Some 0) (length (?head @ body)) (Some r1)
       (Some IHTP_POLICY_STRICT) (Some k1) = Some (IHTP_OK, state, Some basic_request, Some (length ?head))"
    by (rule two_calls [OF f _ _ s], use wire(2) in simp, simp)+
  obtain buf' dec buf2 where b:
    "c_memcpy_from body_buf 0 (?head @ body @ [0]) (length ?head) (length body + 1) = Some buf'"
    "ihtp_decode_chunked (Some (zero_decoder True)) buf' (Some 0) (Some (length body)) =
       Some (0, Some dec, buf2, Some (length (concat wiki)))"
    "fmt_prec_s buf2 (Some 0) (length (concat wiki)) = Some (concat wiki)"
    using literal_body [OF body_parts(1,3) _ _ example_payload(3), of True "[]" body_buf ?head,
        unfolded append_Nil2 list.size(3), folded body_def] assms(1) body by (fastforce simp del: concat.simps)
  have sub: "size_sub (length (?head @ body)) (length ?head) = length body" by simp
  have flds: "header_fields (?head @ body @ [0]) (req_headers d) (req_num_headers d) = basic_fields"
    using printed_request_fields [OF example_parts(2), of 0 "[]" IHTP_HTTP_11 "body @ [0]"] by (simp add: d_def)
  have ins: "headers_in (?head @ body @ [0]) (req_headers d) (req_num_headers d)"
    using parsed_request_headers [OF printed_request_parsed [of "Some IHTP_POLICY_STRICT" _ _ basic_fields 0 "[]",
          OF _ _ refl, where rest = "body @ [0]" and post = "[]" and v = IHTP_HTTP_11 and undef = undef]]
      example_parts(2) by (simp add: d_def resolve_policy_def)
  have nul: "list_all (\<lambda>(nm, vl). 0 \<notin> set nm \<and> 0 \<notin> set vl) basic_fields" by code_simp
  define len where "len = length ?head"
  have len: "len = 111" by (simp add: len_def example_lengths)
  have report: "basic_parse_report (?head @ body @ [0]) d len (zero_decoder True) body_buf ok c =
      Some (transcript ok (tl (basic_parse_lines level)) c)" for c level
  proof -
    let ?L1 = "labelled ''Method:  '' (ascii (ihtp_method_to_str (req_method d)))"
    let ?L2 = "[labelled ''Path:    '' (ascii ''/upload''),
             labelled ''Version: HTTP/1.'' (fmt_d (int (version_code (req_version d)))),
             labelled ''Headers: '' (fmt_zu (req_num_headers d)),
             labelled ''Body:    '' (fmt_d (int (body_mode_code (req_body_mode d)))),
             labelled ''Expect:  '' (ascii (if req_expects_continue d then ''100-continue'' else ''none'')),
             labelled ''Upgrade: '' (yes_no (req_protocol_upgrade d)),
             labelled ''Trailer: '' (ascii (if req_has_trailer_fields d then ''advertised'' else ''none''))]"
    let ?L3 = "ascii ''Consumed: '' @ fmt_zu len @ ascii '' bytes'' @ [LF]"
    let ?L4 = "[labelled ''Decoded body: '' (concat wiki), labelled ''Trailing bytes after chunked decode: '' (fmt_d 0)]"
    have "(?L1 # ?L2 @ map field_line basic_fields @ ?L3 # ?L4) = tl (basic_parse_lines level)"
      by (simp add: basic_parse_lines_def text_defs len d dv field_line_def ascii_def)
    moreover have "basic_parse_report (?head @ body @ [0]) d len (zero_decoder True) body_buf ok c =
        Some (transcript ok (?L1 # ?L2 @ map field_line (drop 0 basic_fields) @ ?L3 # ?L4) c)"
      unfolding basic_parse_report_def lit(4) bind.simps
    proof (rule printf_transcript, rule print_lines_transcript,
        rule print_headers_transcript [OF ins, unfolded flds], rule printf_transcript)
      fix c
      show "(if req_body_mode d = IHTP_BODY_CHUNKED then (do { l \<leftarrow> c_strlen_at (?head @ body @ [0]) 0;
          let body_len = size_sub l len
          in do { body_buf \<leftarrow> c_memcpy_from body_buf 0 (?head @ body @ [0]) len (body_len + 1);
                  (trailing, dec, body_buf, body_len) \<leftarrow>
                    ihtp_decode_chunked (Some (zero_decoder True)) body_buf (Some 0) (Some body_len);
                  if trailing < 0 then fail_main ok (labelled ''Chunked decode error: '' (fmt_d trailing)) c
                  else do { body \<leftarrow> fmt_prec_s body_buf (Some 0) (the body_len);
                            print_lines ok [labelled ''Decoded body: '' body,
                                labelled ''Trailing bytes after chunked decode: '' (fmt_d trailing)] (exit_main 0) c } } })
          else exit_main 0 c) = Some (transcript ok ?L4 c)"
        unfolding lit(3) bind.simps Let_def len_def sub b prod.case option.sel by (simp add: d print_lines_exit del: concat.simps print_lines.simps)
    qed (use nul full in simp_all)
    ultimately show ?thesis by simp
  qed
  have head: "basic_parse_lines level = (ascii ''iohttpparser '' @ ascii ihtp_version @ ascii '' (SIMD level: 0x'' @
      fmt_02x level @ ascii '')'' @ [LF, LF]) # tl (basic_parse_lines level)" for level
    by (simp add: basic_parse_lines_def ihtp_version_def IHTP_VERSION_STRING_def ascii_def)
  show ?thesis
    unfolding basic_parse_main_def Let_def wire(1) assms(2) [symmetric] presets
    by (subst head, rule printf_transcript, unfold lit(3) bind.simps n calls(1) prod.case,
        simp only: simp_thms if_False if_True calls(2) bind.simps prod.case lit(2) option.sel report [unfolded len_def])
qed

end

end
