(* ===== verification/Ihtp_Programs.thy ===== *)
theory Ihtp_Programs
  imports Ihtp_Examples
begin

text \<open>
  What the benchmark programs share: their globals, output, \<open>strtoull\<close>, and the formats they use.
\<close>

section \<open>Globals and output\<close>

datatype output_mode_t = OUTPUT_HUMAN | OUTPUT_TSV

record bench_globals =
  bg_con :: console
  bg_sink :: "64 word"

definition print_out :: "(console \<Rightarrow> bool) \<Rightarrow> byte list \<Rightarrow> bench_globals \<Rightarrow> bench_globals" where
  "print_out ok s g =
     (if ok (bg_con g) then g\<lparr> bg_con := (bg_con g)\<lparr> con_out := con_out (bg_con g) @ s \<rparr> \<rparr> else g)"

definition print_err :: "(console \<Rightarrow> bool) \<Rightarrow> byte list \<Rightarrow> bench_globals \<Rightarrow> bench_globals" where
  "print_err ok s g =
     (if ok (bg_con g) then g\<lparr> bg_con := (bg_con g)\<lparr> con_err := con_err (bg_con g) @ s \<rparr> \<rparr> else g)"

section \<open>Numbers in arguments\<close>

text \<open>
  \<open>strtoull\<close> with base 10, on the bytes of an argument before its NUL: the value and what is left.
  A minus sign negates the value modulo \<open>2 ^ 64\<close>.
\<close>

definition c_isspace :: "byte \<Rightarrow> bool" where
  "c_isspace c \<longleftrightarrow> c = SP \<or> 0x09 \<le> c \<and> c \<le> 0x0D"

definition c_strtoull :: "byte list \<Rightarrow> 64 word \<times> byte list" where
  "c_strtoull s =
     (let t = dropWhile c_isspace s;
          signed = (t \<noteq> [] \<and> (hd t = 0x2D \<or> hd t = 0x2B));
          u = (if signed then tl t else t);
          ds = takeWhile ihtp_is_digit u;
          v = decimal_value ds
      in if ds = [] then (0, s)
         else (if 2 ^ 64 \<le> v then - 1
               else if signed \<and> hd t = 0x2D then - word_of_int v else word_of_int v,
               drop (length ds) u))"

section \<open>Formats\<close>

text \<open>\<open>%-12s\<close>: padded with spaces behind.\<close>

definition fmt_left :: "nat \<Rightarrow> byte list \<Rightarrow> byte list" where
  "fmt_left w s = s @ replicate (w - length s) SP"

definition TAB :: "byte list" where "TAB = [HTAB]"

definition true_false :: "bool \<Rightarrow> byte list" where
  "true_false b = ascii (if b then ''true'' else ''false'')"

section \<open>What is printed and added up\<close>

text \<open>
  A program that ignores failing writes prints its lines one after the other; what it adds to
  \<open>g_sink\<close> does not change what it prints.
\<close>

definition print_all :: "(console \<Rightarrow> bool) \<Rightarrow> byte list list \<Rightarrow> bench_globals \<Rightarrow> bench_globals" where
  "print_all ok ss g = fold (print_out ok) ss g"

definition added :: "nat \<Rightarrow> bench_globals \<Rightarrow> bench_globals" where
  "added n g = g\<lparr> bg_sink := bg_sink g + word_of_nat n \<rparr>"

lemma print_all_simps [simp]: "print_all ok [] g = g" "print_all ok (s # ss) g = print_all ok ss (print_out ok s g)"
  "print_all ok (ss @ ts) g = print_all ok ts (print_all ok ss g)"
  by (simp_all add: print_all_def)

lemma added_simps [simp]: "added 0 g = g" "added m (added n g) = added (n + m) g"
  "print_out ok s (added n g) = added n (print_out ok s g)" "bg_sink (print_out ok s g) = bg_sink g"
  "bg_sink (added n g) = bg_sink g + word_of_nat n" "bg_con (added n g) = bg_con g"
  by (simp_all add: added_def print_out_def add_ac)

lemma print_all_added [simp]: "print_all ok ss (added n g) = added n (print_all ok ss g)"
  by (induction ss arbitrary: g) simp_all

lemma print_all_sink [simp]: "bg_sink (print_all ok ss g) = bg_sink g"
  by (induction ss arbitrary: g) simp_all

text \<open>When no write fails, the output is exactly the lines.\<close>

lemma print_all_ok:
  "\<forall>c. ok c \<Longrightarrow> print_all ok ss g = g\<lparr> bg_con := (bg_con g)\<lparr> con_out := con_out (bg_con g) @ concat ss \<rparr> \<rparr>"
  by (induction ss arbitrary: g) (simp_all add: print_out_def)

end
