(* ===== verification/Ihtp_Bench.thy ===== *)
theory Ihtp_Bench
  imports Ihtp_Dispatch
begin

text \<open>
  The scanner benchmark bench/bench_parser.c: its cases, its loops and the sequence of backends of
  its \<open>main\<close>, with the two sums the loops keep.  All backends compute the same sums; for one case
  this does not follow from the contract of a backend, because the length entered for it is larger
  than its string.  Timing, printing and option parsing are left out.
\<close>

section \<open>Cases\<close>

record find_case_t =
  fc_name :: string
  fc_buf :: mem
  fc_len :: nat
  fc_delims :: mem

record token_case_t =
  tc_name :: string
  tc_buf :: mem
  tc_len :: nat

text \<open>A string literal is an object with its terminating NUL.\<close>

definition literal :: "byte list \<Rightarrow> mem" where
  "literal s = s @ [0]"

definition long_header_case :: find_case_t where
  "long_header_case =
     \<lparr> fc_name = ''long-header-crlf'',
       fc_buf = literal (ascii ''X-Forwarded-For: 203.0.113.1, 198.51.100.2, 192.0.2.10'' @ [CR, LF]),
       fc_len = 61, fc_delims = literal [CR, LF] \<rparr>"

definition find_cases :: "find_case_t list" where
  "find_cases =
     [\<lparr> fc_name = ''request-space'', fc_buf = literal (ascii ''GET /alpha/beta HTTP/1.1'' @ [CR, LF]), fc_len = 26,
         fc_delims = literal (ascii '' '') \<rparr>,
      \<lparr> fc_name = ''header-crlf'', fc_buf = literal (ascii ''Content-Type: text/plain'' @ [CR, LF]), fc_len = 26,
         fc_delims = literal [CR, LF] \<rparr>,
      \<lparr> fc_name = ''query-delim'', fc_buf = literal (ascii ''/search?q=alpha&lang=en''), fc_len = 23,
         fc_delims = literal (ascii ''=&'') \<rparr>,
      \<lparr> fc_name = ''not-found'', fc_buf = literal (ascii ''token-without-colon''), fc_len = 19,
         fc_delims = literal (ascii '':'') \<rparr>,
      \<lparr> fc_name = ''status-space'', fc_buf = literal (ascii ''HTTP/1.1 204 No Content'' @ [CR, LF]), fc_len = 25,
         fc_delims = literal (ascii '' '') \<rparr>,
      \<lparr> fc_name = ''cookie-semi'', fc_buf = literal (ascii ''session=alpha; Path=/; HttpOnly; SameSite=Lax''),
         fc_len = 46, fc_delims = literal (ascii '';'') \<rparr>,
      long_header_case,
      \<lparr> fc_name = ''wide-not-found'',
         fc_buf = literal (ascii ''abcdefghijklmnopqrstuvwxyz0123456789ABCDEFGHIJKLMNOPQRSTUVWXYZ''), fc_len = 62,
         fc_delims = literal (ascii '':'') \<rparr>]"

definition token_cases :: "token_case_t list" where
  "token_cases =
     [\<lparr> tc_name = ''method'', tc_buf = literal (ascii ''GET''), tc_len = 3 \<rparr>,
      \<lparr> tc_name = ''header'', tc_buf = literal (ascii ''Content-Type''), tc_len = 12 \<rparr>,
      \<lparr> tc_name = ''invalid-space'', tc_buf = literal (ascii ''bad header''), tc_len = 10 \<rparr>,
      \<lparr> tc_name = ''invalid-colon'', tc_buf = literal (ascii ''bad:name''), tc_len = 8 \<rparr>,
      \<lparr> tc_name = ''conn-token'', tc_buf = literal (ascii ''keep-alive''), tc_len = 10 \<rparr>,
      \<lparr> tc_name = ''long-header'', tc_buf = literal (ascii ''X-Forwarded-For''), tc_len = 15 \<rparr>,
      \<lparr> tc_name = ''wide-valid'', tc_buf = literal (ascii ''abcdefghijklmnopqrstuvwxyz012345''), tc_len = 32 \<rparr>,
      \<lparr> tc_name = ''invalid-del'', tc_buf = literal (ascii ''bad'' @ [0x7F] @ ascii ''name''), tc_len = 8 \<rparr>]"

section \<open>Loops\<close>

text \<open>The globals: the dispatcher's, and the sums \<open>find_sink\<close> (size_t) and \<open>token_sink\<close> (unsigned).\<close>

record sinks =
  find_sink :: "64 word"
  token_sink :: "32 word"

type_synonym bench_state = "scanner_globals \<times> sinks"
type_synonym find_fn = "scanner_globals \<Rightarrow> mem \<Rightarrow> nat \<Rightarrow> nat \<Rightarrow> mem \<Rightarrow> (nat \<times> scanner_globals) ub"
type_synonym token_fn = "scanner_globals \<Rightarrow> mem \<Rightarrow> nat \<Rightarrow> nat \<Rightarrow> (bool \<times> scanner_globals) ub"

text \<open>A backend's own functions do not touch the dispatcher.\<close>

definition direct_find :: "(mem \<Rightarrow> nat \<Rightarrow> nat \<Rightarrow> mem \<Rightarrow> nat ub) \<Rightarrow> find_fn" where
  "direct_find f g mem p n delims = do { r \<leftarrow> f mem p n delims; Some (r, g) }"

definition direct_token :: "(mem \<Rightarrow> nat \<Rightarrow> nat \<Rightarrow> bool ub) \<Rightarrow> token_fn" where
  "direct_token f g mem p n = do { r \<leftarrow> f mem p n; Some (r, g) }"

primrec run_find_bench :: "find_fn \<Rightarrow> find_case_t \<Rightarrow> nat \<Rightarrow> bench_state \<Rightarrow> bench_state ub" where
  "run_find_bench fn test_case 0 st = Some st"
| "run_find_bench fn test_case (Suc k) st =
     do { (result, g) \<leftarrow> fn (fst st) (fc_buf test_case) 0 (fc_len test_case) (fc_delims test_case);
          run_find_bench fn test_case k
            (g, (snd st)\<lparr> find_sink := find_sink (snd st) + word_of_nat (size_sub result 0) \<rparr>) }"

primrec run_token_bench :: "token_fn \<Rightarrow> token_case_t \<Rightarrow> nat \<Rightarrow> bench_state \<Rightarrow> bench_state ub" where
  "run_token_bench fn test_case 0 st = Some st"
| "run_token_bench fn test_case (Suc k) st =
     do { (ok, g) \<leftarrow> fn (fst st) (tc_buf test_case) 0 (tc_len test_case);
          run_token_bench fn test_case k
            (g, (snd st)\<lparr> token_sink := token_sink (snd st) + (if ok then 1 else 0) \<rparr>) }"

primrec run_find_cases :: "find_fn \<Rightarrow> find_case_t list \<Rightarrow> nat \<Rightarrow> bench_state \<Rightarrow> bench_state ub" where
  "run_find_cases fn [] k st = Some st"
| "run_find_cases fn (c # cs) k st = do { st \<leftarrow> run_find_bench fn c k st; run_find_cases fn cs k st }"

primrec run_token_cases :: "token_fn \<Rightarrow> token_case_t list \<Rightarrow> nat \<Rightarrow> bench_state \<Rightarrow> bench_state ub" where
  "run_token_cases fn [] k st = Some st"
| "run_token_cases fn (c # cs) k st = do { st \<leftarrow> run_token_bench fn c k st; run_token_cases fn cs k st }"

definition run_backend_group ::
    "find_fn \<Rightarrow> token_fn \<Rightarrow> find_case_t list \<Rightarrow> token_case_t list \<Rightarrow> nat \<Rightarrow> bench_state \<Rightarrow> bench_state ub" where
  "run_backend_group find_fn token_fn fcs tcs iterations st =
     do { st \<leftarrow> run_find_cases find_fn fcs iterations st; run_token_cases token_fn tcs iterations st }"

definition run_backend_groups ::
    "build_flags \<Rightarrow> cmpestri_t \<Rightarrow> (string \<Rightarrow> bool) \<Rightarrow> nat \<Rightarrow> bench_state \<Rightarrow> bench_state ub" where
  "run_backend_groups flags cmpestri cpu iterations st =
     (let simd_level = ihtp_scanner_simd_level flags cpu
      in do { st \<leftarrow> run_backend_group (ihtp_scan_find_char flags cmpestri cpu) (ihtp_scan_is_token flags cmpestri cpu)
                      find_cases token_cases iterations st;
              st \<leftarrow> run_backend_group (direct_find ihtp_scan_find_char_scalar) (direct_token ihtp_scan_is_token_scalar)
                      find_cases token_cases iterations st;
              st \<leftarrow> (if have_sse42 flags \<and> simd_level AND 0x01 \<noteq> 0
                     then run_backend_group (direct_find (ihtp_scan_find_char_sse42 cmpestri))
                            (direct_token ihtp_scan_is_token_sse42) find_cases token_cases iterations st
                     else Some st);
              if have_avx2 flags \<and> simd_level AND 0x02 \<noteq> 0
              then run_backend_group (direct_find ihtp_scan_find_char_avx2) (direct_token ihtp_scan_is_token_avx2)
                     find_cases token_cases iterations st
              else Some st })"

section \<open>What the loops add up\<close>

lemma size_sub_0 [simp]: "size_sub n 0 = n"
  by (simp add: size_sub_def)

text \<open>A function that answers every call alike, on all dispatcher states that satisfy \<open>I\<close>.\<close>

definition finds :: "(scanner_globals \<Rightarrow> bool) \<Rightarrow> find_fn \<Rightarrow> find_case_t \<Rightarrow> nat \<Rightarrow> bool" where
  "finds I fn c r \<longleftrightarrow>
     (\<forall>g. I g \<longrightarrow> (\<exists>g'. I g' \<and> fn g (fc_buf c) 0 (fc_len c) (fc_delims c) = Some (r, g')))"

definition tells :: "(scanner_globals \<Rightarrow> bool) \<Rightarrow> token_fn \<Rightarrow> token_case_t \<Rightarrow> bool \<Rightarrow> bool" where
  "tells I fn c b \<longleftrightarrow> (\<forall>g. I g \<longrightarrow> (\<exists>g'. I g' \<and> fn g (tc_buf c) 0 (tc_len c) = Some (b, g')))"

definition add_sums :: "nat \<Rightarrow> nat \<Rightarrow> sinks \<Rightarrow> sinks" where
  "add_sums a b s = \<lparr> find_sink = find_sink s + word_of_nat a, token_sink = token_sink s + word_of_nat b \<rparr>"

lemma add_sums_add [simp]: "add_sums a b (add_sums a' b' s) = add_sums (a' + a) (b' + b) s"
  by (simp add: add_sums_def)

lemma add_sums_0 [simp]: "add_sums 0 0 s = s"
  by (simp add: add_sums_def)

lemma run_find_bench_sum:
  "finds I fn c r \<Longrightarrow> I g \<Longrightarrow> \<exists>g'. I g' \<and> run_find_bench fn c k (g, s) = Some (g', add_sums (k * r) 0 s)"
proof (induction k arbitrary: g s)
  case 0
  then show ?case by auto
next
  case (Suc k)
  then obtain g1 where g1: "I g1" "fn g (fc_buf c) 0 (fc_len c) (fc_delims c) = Some (r, g1)"
    unfolding finds_def by blast
  have "s\<lparr> find_sink := find_sink s + word_of_nat r \<rparr> = add_sums r 0 s" by (simp add: add_sums_def)
  with Suc.IH [OF Suc.prems(1) g1(1), of "add_sums r 0 s"] g1 show ?case by simp
qed

lemma run_token_bench_sum:
  "tells I fn c b \<Longrightarrow> I g \<Longrightarrow>
     \<exists>g'. I g' \<and> run_token_bench fn c k (g, s) = Some (g', add_sums 0 (k * of_bool b) s)"
proof (induction k arbitrary: g s)
  case 0
  then show ?case by auto
next
  case (Suc k)
  then obtain g1 where g1: "I g1" "fn g (tc_buf c) 0 (tc_len c) = Some (b, g1)"
    unfolding tells_def by blast
  have "s\<lparr> token_sink := token_sink s + (if b then 1 else 0) \<rparr> = add_sums 0 (of_bool b) s" by (simp add: add_sums_def)
  with Suc.IH [OF Suc.prems(1) g1(1), of "add_sums 0 (of_bool b) s"] g1 show ?case by (simp del: of_bool_eq)
qed

lemma run_find_cases_sum:
  "list_all2 (finds I fn) cs rs \<Longrightarrow> I g \<Longrightarrow>
     \<exists>g'. I g' \<and> run_find_cases fn cs k (g, s) = Some (g', add_sums (k * sum_list rs) 0 s)"
proof (induction arbitrary: g s rule: list_all2_induct)
  case (Cons c cs r rs)
  from run_find_bench_sum [OF Cons.hyps(1) Cons.prems, of k s] obtain g1 where
    "I g1" "run_find_bench fn c k (g, s) = Some (g1, add_sums (k * r) 0 s)" by blast
  with Cons.IH [of g1 "add_sums (k * r) 0 s"] show ?case by (simp add: algebra_simps)
qed auto

lemma run_token_cases_sum:
  "list_all2 (tells I fn) cs bs \<Longrightarrow> I g \<Longrightarrow>
     \<exists>g'. I g' \<and> run_token_cases fn cs k (g, s) = Some (g', add_sums 0 (k * sum_list (map of_bool bs)) s)"
proof (induction arbitrary: g s rule: list_all2_induct)
  case (Cons c cs b bs)
  from run_token_bench_sum [OF Cons.hyps(1) Cons.prems, of k s] obtain g1 where
    "I g1" "run_token_bench fn c k (g, s) = Some (g1, add_sums 0 (k * of_bool b) s)" by blast
  with Cons.IH [of g1 "add_sums 0 (k * of_bool b) s"] show ?case by (simp add: algebra_simps del: of_bool_eq)
qed auto

section \<open>Every backend on the cases\<close>

definition find_results :: "nat list" where
  "find_results = [3, 24, 9, 19, 8, 13, 54, 62]"

definition token_results :: "bool list" where
  "token_results = [True, True, False, False, True, True, True, False]"

definition lifts_find :: "(scanner_globals \<Rightarrow> bool) \<Rightarrow> find_fn \<Rightarrow> (mem \<Rightarrow> nat \<Rightarrow> nat \<Rightarrow> mem \<Rightarrow> nat ub) \<Rightarrow> bool" where
  "lifts_find I fn f \<longleftrightarrow>
     (\<forall>g mem p n ds r. I g \<longrightarrow> f mem p n ds = Some r \<longrightarrow> (\<exists>g'. I g' \<and> fn g mem p n ds = Some (r, g')))"

definition lifts_token :: "(scanner_globals \<Rightarrow> bool) \<Rightarrow> token_fn \<Rightarrow> (mem \<Rightarrow> nat \<Rightarrow> nat \<Rightarrow> bool ub) \<Rightarrow> bool" where
  "lifts_token I fn f \<longleftrightarrow>
     (\<forall>g mem p n b. I g \<longrightarrow> f mem p n = Some b \<longrightarrow> (\<exists>g'. I g' \<and> fn g mem p n = Some (b, g')))"

text \<open>A case whose length does not exceed its string: the contract of a backend gives the result.\<close>

definition case_ok :: "find_case_t \<Rightarrow> nat \<Rightarrow> bool" where
  "case_ok c r \<longleftrightarrow>
     (let ds = butlast (fc_delims c)
      in fc_delims c = literal ds \<and> 0 \<notin> set ds \<and> fc_len c \<le> length (fc_buf c) \<and>
         scan_from (\<lambda>b. b \<in> set ds) (fc_buf c) 0 (fc_len c) = r)"

lemma finds_literal:
  assumes "delim_scanner f" and "lifts_find I fn f" and "case_ok c r"
  shows "finds I fn c r"
proof -
  have "f (fc_buf c) 0 (fc_len c) (butlast (fc_delims c) @ 0 # []) = Some r"
    using delim_scanner.find_char_spec [OF assms(1), of 0 "fc_len c" "fc_buf c" "butlast (fc_delims c)" "[]"] assms(3)
    by (simp add: case_ok_def Let_def)
  moreover have "butlast (fc_delims c) @ 0 # [] = fc_delims c"
    using assms(3) by (simp add: case_ok_def Let_def literal_def)
  ultimately show ?thesis using assms(2) unfolding finds_def lifts_find_def by metis
qed

lemma cases_ok:
  "list_all2 case_ok (take 6 find_cases) (take 6 find_results)"
  "list_all2 case_ok (drop 7 find_cases) (drop 7 find_results)"
  by code_simp+

lemma tells_token:
  assumes "token_scanner f" and "lifts_token I fn f" and "tc_len c \<le> length (tc_buf c)"
    and "list_all tchar (span (tc_buf c) 0 (tc_len c)) = b"
  shows "tells I fn c b"
proof -
  have "f (tc_buf c) 0 (tc_len c) = Some b"
    using token_scanner.is_token_spec [OF assms(1), of 0 "tc_len c" "tc_buf c"] assms(3,4) by simp
  with assms(2) show ?thesis unfolding tells_def lifts_token_def by blast
qed

lemma backend_tokens:
  assumes "token_scanner f" and "lifts_token I fn f"
  shows "list_all2 (tells I fn) token_cases token_results"
proof -
  have "list_all2 (\<lambda>c b. tc_len c \<le> length (tc_buf c) \<and> list_all tchar (span (tc_buf c) 0 (tc_len c)) = b)
      token_cases token_results" by code_simp
  then show ?thesis by (rule list_all2_mono) (use tells_token [OF assms] in blast)
qed

lemma backend_finds:
  assumes "delim_scanner f" and "lifts_find I fn f"
    and "f (fc_buf long_header_case) 0 (fc_len long_header_case) (fc_delims long_header_case) = Some 54"
  shows "list_all2 (finds I fn) find_cases find_results"
proof -
  have lit: "list_all2 case_ok cs rs \<Longrightarrow> list_all2 (finds I fn) cs rs" for cs rs
    by (erule list_all2_mono) (rule finds_literal [OF assms(1,2)])
  have long: "finds I fn long_header_case 54"
    using assms(2,3) unfolding finds_def lifts_find_def by blast
  have split: "take 6 find_cases @ long_header_case # drop 7 find_cases = find_cases"
    "take 6 find_results @ 54 # drop 7 find_results = find_results"
    by (simp_all add: find_cases_def find_results_def)
  have "list_all2 (finds I fn) (take 6 find_cases @ long_header_case # drop 7 find_cases)
      (take 6 find_results @ 54 # drop 7 find_results)"
    by (rule list_all2_appendI [OF lit [OF cases_ok(1)]]) (rule list.rel_intros(2) [OF long lit [OF cases_ok(2)]])
  then show ?thesis by (simp only: split)
qed

section \<open>The case with too large a length\<close>

text \<open>
  The entered length is 61, the object has 57 bytes.  The search ends at the carriage return, byte
  54; the byte-wise loops read nothing behind it, and PCMPESTRI is given the bytes up to 47 only.
\<close>

lemma loop_hit:
  "table_for D table \<Longrightarrow> i \<le> k \<Longrightarrow> k < len \<Longrightarrow> buf + k < length mem \<Longrightarrow>
     (\<forall>j. i \<le> j \<and> j < k \<longrightarrow> mem ! (buf + j) \<notin> D) \<Longrightarrow> mem ! (buf + k) \<in> D \<Longrightarrow>
     find_char_loop table mem buf len i = Some (buf + k)"
proof (induction "k - i" arbitrary: i)
  case 0
  then show ?case by (subst find_char_loop.simps) (simp add: rd_in table_for_def)
next
  case (Suc n)
  then have i: "i < k" by simp
  with Suc.prems have "table ! unat (mem ! (buf + i)) = 0" unfolding table_for_def by (metis order_refl)
  with Suc.hyps(1) [of "Suc i"] Suc.hyps(2) Suc.prems i show ?case
    by (subst find_char_loop.simps) (simp add: rd_in)
qed

lemma long_header_facts:
  defines "mem \<equiv> fc_buf long_header_case"
  shows "length mem = 57" "mem ! 54 \<in> {CR, LF}" "\<forall>j<54. mem ! j \<notin> {CR, LF}"
proof -
  have "list_all (\<lambda>j. mem ! j \<notin> {CR, LF}) [0..<54]" unfolding mem_def by code_simp
  then show "\<forall>j<54. mem ! j \<notin> {CR, LF}" by (simp add: list_all_iff)
  show "length mem = 57" "mem ! 54 \<in> {CR, LF}" unfolding mem_def by code_simp+
qed

lemma crlf_table:
  "\<exists>table. build_delim_table (fc_delims long_header_case) 0 (replicate 256 0) = Some table \<and> table_for {CR, LF} table"
  using build_delim_table_spec [OF _ table_for_empty, of "[CR, LF]" "[]" "[]"]
  by (simp add: long_header_case_def literal_def)

lemma scalar_long:
  "ihtp_scan_find_char_scalar (fc_buf long_header_case) 0 (fc_len long_header_case) (fc_delims long_header_case) = Some 54"
proof -
  from crlf_table obtain table where t: "build_delim_table (fc_delims long_header_case) 0 (replicate 256 0) = Some table"
    "table_for {CR, LF} table" by blast
  have "fc_len long_header_case = 61" by (simp add: long_header_case_def)
  with loop_hit [OF t(2), of 0 54 61 0 "fc_buf long_header_case"] long_header_facts t(1) show ?thesis
    by (simp add: ihtp_scan_find_char_scalar_def)
qed

lemma avx2_long:
  "ihtp_scan_find_char_avx2 (fc_buf long_header_case) 0 (fc_len long_header_case) (fc_delims long_header_case) = Some 54"
proof -
  let ?mem = "fc_buf long_header_case"
  from crlf_table obtain table where t: "build_delim_table (fc_delims long_header_case) 0 (replicate 256 0) = Some table"
    "table_for {CR, LF} table" by blast
  have len: "fc_len long_header_case = 61" by (simp add: long_header_case_def)
  have "index_of (\<lambda>b. b \<in> {CR, LF}) (span ?mem 0 32) = None" by code_simp
  with avx2_find_block_spec [OF t(2), of 0 0 0 ?mem] long_header_facts(1)
  have "avx2_find_block table ?mem 0 0 0 = Some None" by simp
  then have "avx2_find_blocks table ?mem 0 61 0 = Some (Inr 32)"
    by (subst avx2_find_blocks.simps, subst avx2_find_blocks.simps) simp
  with loop_hit [OF t(2), of 32 54 61 0 ?mem] long_header_facts t(1) show ?thesis
    by (simp add: ihtp_scan_find_char_avx2_def len)
qed

lemma sse42_long:
  assumes "cmpestri_documented cmpestri"
  shows "ihtp_scan_find_char_sse42 cmpestri (fc_buf long_header_case) 0 (fc_len long_header_case)
           (fc_delims long_header_case) = Some 54"
proof -
  let ?mem = "fc_buf long_header_case" and ?needle = "[CR, LF] @ replicate 14 0"
  have len: "fc_len long_header_case = 61" and ds: "fc_delims long_header_case = [CR, LF] @ 0 # []"
    by (simp_all add: long_header_case_def literal_def)
  have block: "cmpestri ?needle 2 (span ?mem i 16) = 16"
    if "index_of (\<lambda>b. b \<in> {CR, LF}) (span ?mem i 16) = None" "length (span ?mem i 16) = 16" for i
    using assms that unfolding cmpestri_documented_def by simp
  have none: "index_of (\<lambda>b. b \<in> {CR, LF}) (span ?mem 0 16) = None" "index_of (\<lambda>b. b \<in> {CR, LF}) (span ?mem 16 16) = None"
    "index_of (\<lambda>b. b \<in> {CR, LF}) (span ?mem 32 16) = None" "length (span ?mem 0 16) = 16" "length (span ?mem 16 16) = 16"
    "length (span ?mem 32 16) = 16" by code_simp+
  have rd: "rd_bytes ?mem i 16 = Some (span ?mem i 16)" if "i \<le> 41" for i
    using that long_header_facts(1) by (simp add: rd_bytes_def)
  have blocks: "sse42_blocks cmpestri ?needle 2 ?mem 0 61 0 = Some (Inr 48)"
    using block [OF none(1,4)] block [OF none(2,5)] block [OF none(3,6)]
    by (simp add: sse42_blocks.simps [of _ _ _ _ _ _ 0] sse42_blocks.simps [of _ _ _ _ _ _ 16]
        sse42_blocks.simps [of _ _ _ _ _ _ 32] sse42_blocks.simps [of _ _ _ _ _ _ 48] rd)
  have "sse42_tail ?mem 0 61 ([CR, LF] @ 0 # []) 2 48 = Some 54" by code_simp
  moreover have "c_strlen ([CR, LF] @ 0 # []) 0 = Some 2" "rd_bytes ([CR, LF] @ 0 # []) 0 2 = Some [CR, LF]" by code_simp+
  ultimately show ?thesis
    unfolding ihtp_scan_find_char_sse42_def len ds using blocks by (simp add: numeral_2_eq_2)
qed

section \<open>The sums of the program\<close>

lemma direct_lifts: "lifts_find I (direct_find f) f" "lifts_token I (direct_token t) t"
  by (auto simp: lifts_find_def lifts_token_def direct_find_def direct_token_def)

lemma dispatch_lifts:
  "lifts_find (scanner_ok flags cmpestri cpu) (ihtp_scan_find_char flags cmpestri cpu)
     (vt_find_char (ihtp_scanner_select_vtable flags cmpestri (ihtp_scanner_simd_level flags cpu)))"
  "lifts_token (scanner_ok flags cmpestri cpu) (ihtp_scan_is_token flags cmpestri cpu)
     (vt_is_token (ihtp_scanner_select_vtable flags cmpestri (ihtp_scanner_simd_level flags cpu)))"
  using scanner_get_ok [of flags cmpestri cpu]
  by (fastforce simp: lifts_find_def lifts_token_def ihtp_scan_find_char_def ihtp_scan_is_token_def)+

lemma group_sum:
  assumes "scanner_backend t f" and "lifts_find I fn f" and "lifts_token I tk t"
    and "f (fc_buf long_header_case) 0 (fc_len long_header_case) (fc_delims long_header_case) = Some 54" and "I g"
  shows "\<exists>g'. I g' \<and> run_backend_group fn tk find_cases token_cases k (g, s) = Some (g', add_sums (k * 192) (k * 5) s)"
proof -
  have sums: "sum_list find_results = 192" "sum_list (map of_bool token_results) = (5 :: nat)"
    by (simp_all add: find_results_def token_results_def)
  from run_find_cases_sum [OF backend_finds [OF scanner_backend.axioms(2) [OF assms(1)] assms(2,4)] assms(5), of k s]
  obtain g1 where g1: "I g1" "run_find_cases fn find_cases k (g, s) = Some (g1, add_sums (k * 192) 0 s)"
    unfolding sums by blast
  from run_token_cases_sum [OF backend_tokens [OF scanner_backend.axioms(1) [OF assms(1)] assms(3)] g1(1), of k
      "add_sums (k * 192) 0 s"] g1(2)
  show ?thesis unfolding sums by (simp add: run_backend_group_def)
qed

lemma vtable_long:
  "cmpestri_documented cmpestri \<Longrightarrow>
     vt_find_char (ihtp_scanner_select_vtable flags cmpestri level) (fc_buf long_header_case) 0
       (fc_len long_header_case) (fc_delims long_header_case) = Some 54"
  by (simp add: ihtp_scanner_select_vtable_def Let_def scalar_long avx2_long sse42_long)

lemma sse42_backend:
  "cmpestri_documented cmpestri \<Longrightarrow> scanner_backend ihtp_scan_is_token_sse42 (ihtp_scan_find_char_sse42 cmpestri)"
  by unfold_locales (simp_all add: ihtp_scan_is_token_sse42_def find_char_sse42_spec leaf_specs)

lemma groups_sum:
  assumes "cmpestri_documented cmpestri" and "scanner_ok flags cmpestri cpu g"
  defines "level \<equiv> ihtp_scanner_simd_level flags cpu"
  defines "n \<equiv> 2 + of_bool (have_sse42 flags \<and> level AND 1 \<noteq> 0) + of_bool (have_avx2 flags \<and> level AND 2 \<noteq> 0)"
  shows "\<exists>g'. scanner_ok flags cmpestri cpu g' \<and>
           run_backend_groups flags cmpestri cpu k (g, s) = Some (g', add_sums (n * k * 192) (n * k * 5) s)"
proof -
  let ?I = "scanner_ok flags cmpestri cpu"
  note direct = direct_lifts [where I = ?I]
  define after where "after m = add_sums (m * k * 192) (m * k * 5) s" for m
  have next_group: "add_sums (k * 192) (k * 5) (after m) = after (Suc m)" for m
    by (simp add: after_def algebra_simps)
  have one: "\<exists>g'. ?I g' \<and> run_backend_group (direct_find f) (direct_token t) find_cases token_cases k (g, after m) =
        Some (g', after (Suc m))"
    if "scanner_backend t f" "?I g"
      "f (fc_buf long_header_case) 0 (fc_len long_header_case) (fc_delims long_header_case) = Some 54" for t f g m
    using group_sum [OF that(1) direct(1) direct(2) that(3,2), of k "after m"] unfolding next_group .
  from group_sum [OF select_vtable_backend [OF assms(1)] dispatch_lifts vtable_long [OF assms(1)] assms(2), of k "after 0"]
  obtain g1 where 1: "?I g1" "run_backend_group (ihtp_scan_find_char flags cmpestri cpu)
      (ihtp_scan_is_token flags cmpestri cpu) find_cases token_cases k (g, after 0) = Some (g1, after 1)"
    unfolding next_group by auto
  from one [OF scalar.scanner_backend_axioms 1(1) scalar_long, of 1] obtain g2 where
    2: "?I g2" "run_backend_group (direct_find ihtp_scan_find_char_scalar) (direct_token ihtp_scan_is_token_scalar)
      find_cases token_cases k (g1, after 1) = Some (g2, after 2)"
    by (auto simp: numeral_2_eq_2)
  define a where "a = (of_bool (have_sse42 flags \<and> level AND 1 \<noteq> 0) :: nat)"
  from one [OF sse42_backend [OF assms(1)] 2(1) sse42_long [OF assms(1)], of 2] obtain g3 where
    3: "?I g3" "(if have_sse42 flags \<and> level AND 1 \<noteq> 0
       then run_backend_group (direct_find (ihtp_scan_find_char_sse42 cmpestri)) (direct_token ihtp_scan_is_token_sse42)
         find_cases token_cases k (g2, after 2)
       else Some (g2, after 2)) = Some (g3, after (2 + a))"
    using 2(1) by (cases "have_sse42 flags \<and> level AND 1 \<noteq> 0") (auto simp: a_def)
  from one [OF avx2.scanner_backend_axioms 3(1) avx2_long, of "2 + a"] obtain g4 where
    4: "?I g4" "(if have_avx2 flags \<and> level AND 2 \<noteq> 0
       then run_backend_group (direct_find ihtp_scan_find_char_avx2) (direct_token ihtp_scan_is_token_avx2)
         find_cases token_cases k (g3, after (2 + a))
       else Some (g3, after (2 + a))) = Some (g4, after n)"
    using 3(1) by (cases "have_avx2 flags \<and> level AND 2 \<noteq> 0") (auto simp: a_def n_def)
  have "run_backend_groups flags cmpestri cpu k (g, after 0) = Some (g4, after n)"
    unfolding run_backend_groups_def Let_def level_def [symmetric] 1(2) bind.simps 2(2) 3(2) 4(2) by (rule refl)
  moreover have "after 0 = s" by (simp add: after_def)
  ultimately show ?thesis using 4(1) unfolding after_def by auto
qed

end
