(* ===== verification/Ihtp_Mains.thy ===== *)
theory Ihtp_Mains
  imports Ihtp_Programs Ihtp_Bench
begin

text \<open>
  The programs bench/bench_parser.c and bench/bench_extended_contract.c around their loops: options,
  what they print, exit codes.  The lines with measured times are parameters.  The programs ignore
  whether a write succeeds; a program returns its exit code and what it writes to the two streams.
\<close>

section \<open>The scanner benchmark\<close>

text \<open>The loop over the arguments; \<open>Inl\<close> is the argument that is no iteration count.\<close>

fun read_bench_args :: "byte list list \<Rightarrow> 64 word \<times> output_mode_t \<Rightarrow> byte list + 64 word \<times> output_mode_t" where
  "read_bench_args [] opts = Inr opts"
| "read_bench_args (arg # args) opts =
     (if arg = ascii ''--tsv'' then read_bench_args args (fst opts, OUTPUT_TSV)
      else let (parsed, left) = c_strtoull arg
           in if left = arg \<or> left \<noteq> [] \<or> parsed = 0 then Inl arg
              else read_bench_args args (parsed, snd opts))"

definition print_header :: "build_flags \<Rightarrow> output_mode_t \<Rightarrow> 64 word \<Rightarrow> int \<Rightarrow> byte list" where
  "print_header flags mode iterations simd_level =
     (let active_backend = ascii (ihtp_scanner_backend_name_for_level flags simd_level);
          hex = ascii ''0x'' @ hex_string (nat simd_level)
      in case mode of
           OUTPUT_TSV \<Rightarrow>
             ascii ''format'' @ TAB @ ascii ''tsv'' @ TAB @ endl ''v1'' @
             ascii ''meta'' @ TAB @ ascii ''iterations'' @ TAB @ fmt_zu (unat iterations) @ [LF] @
             ascii ''meta'' @ TAB @ ascii ''simd_level'' @ TAB @ hex @ [LF] @
             ascii ''meta'' @ TAB @ ascii ''active_backend'' @ TAB @ active_backend @ [LF] @
             ascii ''columns'' @ TAB @ ascii ''backend'' @ TAB @ ascii ''operation'' @ TAB @ ascii ''case'' @ TAB @
               ascii ''len'' @ TAB @ ascii ''elapsed_ns'' @ TAB @ endl ''ns_per_op''
         | OUTPUT_HUMAN \<Rightarrow>
             endl ''iohttpparser scanner benchmark'' @
             labelled ''iterations: '' (fmt_zu (unat iterations)) @
             labelled ''simd-level: '' (hex @ [LF]) @
             labelled ''active-backend: '' (active_backend @ [LF]))"

text \<open>The backends that are compared, and the lines about one of them.\<close>

definition compared_backends :: "build_flags \<Rightarrow> int \<Rightarrow> string list" where
  "compared_backends flags simd_level =
     [''dispatch'', ''scalar''] @
     (if have_sse42 flags \<and> simd_level AND 0x01 \<noteq> 0 then [''sse42''] else []) @
     (if have_avx2 flags \<and> simd_level AND 0x02 \<noteq> 0 then [''avx2''] else [])"

definition group_rows ::
    "(output_mode_t \<Rightarrow> string \<Rightarrow> find_case_t \<Rightarrow> byte list) \<Rightarrow> (output_mode_t \<Rightarrow> string \<Rightarrow> token_case_t \<Rightarrow> byte list) \<Rightarrow>
       output_mode_t \<Rightarrow> string \<Rightarrow> byte list" where
  "group_rows find_row token_row mode backend =
     concat (map (find_row mode backend) find_cases) @ concat (map (token_row mode backend) token_cases)"

definition sinks_line :: "output_mode_t \<Rightarrow> sinks \<Rightarrow> byte list" where
  "sinks_line mode s =
     (case mode of
        OUTPUT_TSV \<Rightarrow> ascii ''meta'' @ TAB @ ascii ''sinks'' @ TAB @ fmt_zu (unat (find_sink s)) @ ascii '':'' @
          fmt_zu (unat (token_sink s)) @ [LF]
      | OUTPUT_HUMAN \<Rightarrow> LF # labelled ''sinks: '' (fmt_zu (unat (find_sink s)) @ SP # fmt_zu (unat (token_sink s))))"

text \<open>
  \<open>main\<close>.  The lines of the groups do not depend on the loops, and come before the line of the sums.
\<close>

definition scanner_bench_main ::
    "build_flags \<Rightarrow> cmpestri_t \<Rightarrow> (string \<Rightarrow> bool) \<Rightarrow> (output_mode_t \<Rightarrow> string \<Rightarrow> find_case_t \<Rightarrow> byte list) \<Rightarrow>
       (output_mode_t \<Rightarrow> string \<Rightarrow> token_case_t \<Rightarrow> byte list) \<Rightarrow> byte list \<Rightarrow> byte list list \<Rightarrow> bench_state \<Rightarrow> (int \<times> console \<times> bench_state) ub" where
  "scanner_bench_main flags cmpestri cpu find_row token_row prog args st =
     (let simd_level = ihtp_scanner_simd_level flags cpu
      in if 2 < length args
         then Some (2, \<lparr> con_out = [], con_err = ascii ''usage: '' @ prog @ endl '' [iterations] [--tsv]'' \<rparr>, st)
         else case read_bench_args args (1000000, OUTPUT_HUMAN) of
           Inl arg \<Rightarrow> Some (2, \<lparr> con_out = [], con_err = labelled ''invalid iterations: '' arg \<rparr>, st)
         | Inr (iterations, mode) \<Rightarrow>
             do { (g, sums) \<leftarrow> run_backend_groups flags cmpestri cpu (unat iterations) st;
                  Some (0, \<lparr> con_out = print_header flags mode iterations simd_level @
                               concat (map (group_rows find_row token_row mode) (compared_backends flags simd_level)) @ sinks_line mode sums,
                             con_err = [] \<rparr>, (g, sums)) })"

lemma scanner_bench_main_runs:
  fixes sums :: sinks
  assumes "cmpestri_documented cmpestri" and "scanner_ok flags cmpestri cpu g" and "length args \<le> 2"
    and "read_bench_args args (1000000, OUTPUT_HUMAN) = Inr (iterations, mode)"
  defines "level \<equiv> ihtp_scanner_simd_level flags cpu"
  defines "sums' \<equiv> add_sums (length (compared_backends flags level) * unat iterations * 192)
      (length (compared_backends flags level) * unat iterations * 5) sums"
  shows "\<exists>g'. scanner_bench_main flags cmpestri cpu find_row token_row prog args (g, sums) =
           Some (0, \<lparr> con_out = print_header flags mode iterations level @
                        concat (map (group_rows find_row token_row mode) (compared_backends flags level)) @ sinks_line mode sums',
                      con_err = [] \<rparr>, (g', sums'))"
proof -
  have "length (compared_backends flags level) =
      2 + of_bool (have_sse42 flags \<and> level AND 1 \<noteq> 0) + of_bool (have_avx2 flags \<and> level AND 2 \<noteq> 0)"
    by (simp add: compared_backends_def)
  with groups_sum [OF assms(1,2), of "unat iterations" sums] assms(3,4) show ?thesis
    by (auto simp: scanner_bench_main_def Let_def level_def sums'_def)
qed

section \<open>The contract benchmark\<close>

record contract_options_t =
  co_mode :: output_mode_t
  co_iterations :: "64 word"
  co_scenario :: "byte list option"

definition default_contract_options :: contract_options_t where
  "default_contract_options = \<lparr> co_mode = OUTPUT_HUMAN, co_iterations = 200000, co_scenario = None \<rparr>"

fun read_contract_options :: "byte list list \<Rightarrow> contract_options_t \<Rightarrow> byte list + contract_options_t" where
  "read_contract_options [] opts = Inr opts"
| "read_contract_options (arg # args) opts =
     (if arg = ascii ''--format=tsv'' then read_contract_options args (opts\<lparr> co_mode := OUTPUT_TSV \<rparr>)
      else if take 13 arg = ascii ''--iterations=''
      then read_contract_options args (opts\<lparr> co_iterations := fst (c_strtoull (drop 13 arg)) \<rparr>)
      else if take 11 arg = ascii ''--scenario=''
      then read_contract_options args (opts\<lparr> co_scenario := Some (drop 11 arg) \<rparr>)
      else Inl arg)"

text \<open>
  Calls in a row, each of which may change \<open>g_sink\<close>; \<open>consumed\<close> is what the last one reported.
  \<open>Inl\<close> is the number of a call that failed, and \<open>g_sink\<close> at that time.
\<close>

primrec call_times ::
    "(64 word \<Rightarrow> (nat option \<times> 64 word) ub) \<Rightarrow> nat \<Rightarrow> nat \<Rightarrow> nat \<Rightarrow> 64 word \<Rightarrow> (nat \<times> 64 word + nat \<times> 64 word) ub" where
  "call_times fn i 0 consumed sink = Some (Inr (consumed, sink))"
| "call_times fn i (Suc k) consumed sink =
     do { (r, sink) \<leftarrow> fn sink;
          case r of
            None \<Rightarrow> Some (Inl (i, sink))
          | Some consumed \<Rightarrow> call_times fn (Suc i) k consumed (sink + word_of_nat consumed) }"

text \<open>What is written to the error stream before the exit, or the printed line, and \<open>g_sink\<close>.\<close>

definition bench_scenario ::
    "(output_mode_t \<Rightarrow> extended_scenario_t \<Rightarrow> nat \<Rightarrow> byte list) \<Rightarrow> output_mode_t \<Rightarrow> extended_scenario_t \<Rightarrow> nat \<Rightarrow> 64 word \<Rightarrow>
       (byte list \<times> 64 word + byte list \<times> 64 word) ub" where
  "bench_scenario row mode sc iterations sink =
     (let fn = (\<lambda>sink. sc_fn sc sink (literal (sc_wire sc)) 0 (sc_len sc))
      in do { r \<leftarrow> call_times fn 0 1000 0 sink;
              case r of
                Inl (i, sink) \<Rightarrow> Some (Inl (labelled ''warmup failed: scenario='' (ascii (sc_name sc)), sink))
              | Inr (consumed, sink) \<Rightarrow>
                  do { r \<leftarrow> call_times fn 0 iterations consumed sink;
                       case r of
                         Inl (i, sink) \<Rightarrow> Some (Inl (labelled ''run failed: scenario=''
                           (ascii (sc_name sc) @ ascii '' iter='' @ fmt_zu i), sink))
                       | Inr (consumed, sink) \<Rightarrow> Some (Inr (row mode sc consumed, sink)) } })"

primrec run_scenarios ::
    "(output_mode_t \<Rightarrow> extended_scenario_t \<Rightarrow> nat \<Rightarrow> byte list) \<Rightarrow> contract_options_t \<Rightarrow> extended_scenario_t list \<Rightarrow>
       byte list \<Rightarrow> 64 word \<Rightarrow> (int \<times> console \<times> 64 word) ub" where
  "run_scenarios row opts [] out sink = Some (of_bool (sink = 0), \<lparr> con_out = out, con_err = [] \<rparr>, sink)"
| "run_scenarios row opts (sc # scs) out sink =
     (if co_scenario opts \<noteq> None \<and> ascii (sc_name sc) \<noteq> the (co_scenario opts)
      then run_scenarios row opts scs out sink
      else do { r \<leftarrow> bench_scenario row (co_mode opts) sc (unat (co_iterations opts)) sink;
                case r of
                  Inl (msg, sink) \<Rightarrow> Some (2, \<lparr> con_out = out, con_err = msg \<rparr>, sink)
                | Inr (line, sink) \<Rightarrow> run_scenarios row opts scs (out @ line) sink })"

definition contract_columns :: "output_mode_t \<Rightarrow> byte list" where
  "contract_columns mode =
     (if mode = OUTPUT_TSV
      then ascii ''scenario_group'' @ TAB @ ascii ''scenario'' @ TAB @ ascii ''baseline'' @ TAB @ ascii ''wire_len'' @ TAB @
        ascii ''work_len'' @ TAB @ ascii ''elapsed_ns'' @ TAB @ ascii ''req_per_s'' @ TAB @ ascii ''mib_per_s'' @ TAB @
        endl ''ns_per_op''
      else [])"

definition contract_bench_main ::
    "(output_mode_t \<Rightarrow> extended_scenario_t \<Rightarrow> nat \<Rightarrow> byte list) \<Rightarrow> extended_scenario_t list \<Rightarrow> byte list list \<Rightarrow> 64 word \<Rightarrow>
       (int \<times> console \<times> 64 word) ub" where
  "contract_bench_main row scs args sink =
     (case read_contract_options args default_contract_options of
        Inl arg \<Rightarrow> Some (2, \<lparr> con_out = [], con_err = labelled ''unknown option: '' arg \<rparr>, sink)
      | Inr opts \<Rightarrow> run_scenarios row opts scs (contract_columns (co_mode opts)) sink)"

lemma call_times_succeed:
  assumes "\<And>sink. \<exists>work sink'. fn sink = Some (Some work, sink')"
  shows "\<exists>r. call_times fn i k consumed sink = Some (Inr r)"
proof (induction k arbitrary: i consumed sink)
  case (Suc k)
  obtain work sink' where "fn sink = Some (Some work, sink')" using assms by blast
  with Suc.IH show ?case by simp
qed simp

lemma bench_scenario_succeeds:
  assumes "succeeds sc"
  shows "\<exists>work sink'. bench_scenario row mode sc iterations sink = Some (Inr (row mode sc work, sink'))"
proof -
  let ?fn = "\<lambda>sink. sc_fn sc sink (literal (sc_wire sc)) 0 (sc_len sc)"
  have ok: "\<exists>work sink'. ?fn sink = Some (Some work, sink')" for sink
    using assms unfolding succeeds_def literal_def by metis
  obtain c s where "call_times ?fn 0 1000 0 sink = Some (Inr (c, s))"
    using call_times_succeed [of ?fn 0 1000 0 sink] ok by auto
  moreover obtain c' s' where "call_times ?fn 0 iterations c s = Some (Inr (c', s'))"
    using call_times_succeed [of ?fn 0 iterations c s] ok by auto
  ultimately have "bench_scenario row mode sc iterations sink = Some (Inr (row mode sc c', s'))"
    by (simp add: bench_scenario_def)
  then show ?thesis by blast
qed

definition chosen_scenarios :: "contract_options_t \<Rightarrow> extended_scenario_t list \<Rightarrow> extended_scenario_t list" where
  "chosen_scenarios opts scs = filter (\<lambda>sc. \<forall>f. co_scenario opts = Some f \<longrightarrow> ascii (sc_name sc) = f) scs"

lemma run_scenarios_succeed:
  assumes "list_all succeeds scs"
  shows "\<exists>works sink'. length works = length (chosen_scenarios opts scs) \<and>
           run_scenarios row opts scs out sink =
           Some (of_bool (sink' = 0), \<lparr> con_out = out @ concat (map2 (row (co_mode opts)) (chosen_scenarios opts scs) works),
                                       con_err = [] \<rparr>, sink')"
  using assms
proof (induction scs arbitrary: out sink)
  case Nil
  show ?case by (simp add: chosen_scenarios_def)
next
  case (Cons sc scs)
  show ?case
  proof (cases "co_scenario opts \<noteq> None \<and> ascii (sc_name sc) \<noteq> the (co_scenario opts)")
    case True
    then have "chosen_scenarios opts (sc # scs) = chosen_scenarios opts scs" by (auto simp: chosen_scenarios_def)
    with True Cons show ?thesis by simp
  next
    case False
    then have chosen: "chosen_scenarios opts (sc # scs) = sc # chosen_scenarios opts scs"
      by (auto simp: chosen_scenarios_def)
    obtain work sink1 where one: "bench_scenario row (co_mode opts) sc (unat (co_iterations opts)) sink =
        Some (Inr (row (co_mode opts) sc work, sink1))"
      using bench_scenario_succeeds [of sc] Cons.prems by fastforce
    from Cons.IH [of "out @ row (co_mode opts) sc work" sink1] Cons.prems obtain works sink' where
      "length works = length (chosen_scenarios opts scs)"
      "run_scenarios row opts scs (out @ row (co_mode opts) sc work) sink1 =
         Some (of_bool (sink' = 0), \<lparr> con_out = (out @ row (co_mode opts) sc work) @
           concat (map2 (row (co_mode opts)) (chosen_scenarios opts scs) works), con_err = [] \<rparr>, sink')" by auto
    then have "length (work # works) = length (sc # chosen_scenarios opts scs) \<and>
        run_scenarios row opts (sc # scs) out sink =
        Some (of_bool (sink' = 0), \<lparr> con_out = out @ concat (map2 (row (co_mode opts)) (sc # chosen_scenarios opts scs)
          (work # works)), con_err = [] \<rparr>, sink')"
      using False one by auto
    then show ?thesis unfolding chosen by blast
  qed
qed

end
