(* ===== verification/Ihtp_Wires.thy ===== *)
theory Ihtp_Wires
  imports Ihtp_Examples Ihtp_Bench
begin

text \<open>
  The wires and the scenario table of bench/bench_throughput_compare.c, and the proof that every wire
  is one message of the grammar, so that the parsers accept the whole of it.
\<close>

section \<open>Wires\<close>

definition req_pico_bench :: "byte list" where
  "req_pico_bench = http_lines
     [''GET /wp-content/uploads/2010/03/hello-kitty-darth-vader-pink.jpg HTTP/1.1'',
      ''Host: www.kittyhell.com'',
      ''User-Agent: Mozilla/5.0 (Macintosh; U; Intel Mac OS X 10.6; ja-JP-mac; rv:1.9.2.3) Gecko/20100401 Firefox/3.6.3 Pathtraq/0.9'',
      ''Accept: text/html,application/xhtml+xml,application/xml;q=0.9,*/*;q=0.8'',
      ''Accept-Language: ja,en-us;q=0.7,en;q=0.3'',
      ''Accept-Encoding: gzip,deflate'',
      ''Accept-Charset: Shift_JIS,utf-8;q=0.7,*;q=0.7'',
      ''Keep-Alive: 115'',
      ''Connection: keep-alive'',
      ''Cookie: wp_ozh_wsa_visits=2; wp_ozh_wsa_visit_lasttime=xxxxxxxxxx; __utma=xxxxxxxxx.xxxxxxxxxx.xxxxxxxxxx.xxxxxxxxxx.xxxxxxxxxx.x; __utmz=xxxxxxxxx.xxxxxxxxxx.x.x.utmccn=(referral)|utmcsr=reader.livedoor.com|utmcct=/reader/|utmcmd=referral'',
      '''']"

definition req_line_only :: "byte list" where
  "req_line_only = http_lines [''GET /v1/ping?x=1&y=2 HTTP/1.1'', '''']"

definition req_line_hot :: "byte list" where
  "req_line_hot = http_lines [''GET /v1/ping?x=1&y=2 HTTP/1.1'', ''Host: a'', '''']"

definition req_line_connect :: "byte list" where
  "req_line_connect = http_lines [''CONNECT example.test:443 HTTP/1.1'', '''']"

definition req_line_options :: "byte list" where
  "req_line_options = http_lines [''OPTIONS /v1/ping?x=1&y=2 HTTP/1.1'', '''']"

definition req_line_long_target :: "byte list" where
  "req_line_long_target = http_lines
     [''GET /wp-content/uploads/2010/03/hello-kitty-darth-vader-pink.jpg HTTP/1.1'', '''']"

definition req_small :: "byte list" where
  "req_small = http_lines [''GET /api/v1/ping HTTP/1.1'', ''Host: example.test'', '''']"

definition req_headers_wire :: "byte list" where
  "req_headers_wire = http_lines
     [''GET /resource/alpha?x=1&y=2 HTTP/1.1'', ''Host: example.test'', ''Connection: keep-alive'',
      ''Accept: application/json'', ''User-Agent: bench-client/1.0'',
      ''X-Forwarded-For: 203.0.113.10, 198.51.100.42'', '''']"

definition hdr_common_heavy :: "byte list" where
  "hdr_common_heavy = http_lines
     [''GET /r HTTP/1.1'', ''Host: example.test'', ''Connection: keep-alive'', ''Content-Length: 0'',
      ''Expect: 100-continue'', ''Upgrade: websocket'', '''']"

definition hdr_name_heavy :: "byte list" where
  "hdr_name_heavy = http_lines
     [''GET /r HTTP/1.1'',
      ''X-Extremely-Long-Alpha-Header-Name-0001: 1'', ''X-Extremely-Long-Beta-Header-Name-0002: 1'',
      ''X-Extremely-Long-Gamma-Header-Name-0003: 1'', ''X-Extremely-Long-Delta-Header-Name-0004: 1'',
      ''X-Extremely-Long-Epsilon-Header-Name-0005: 1'', ''X-Extremely-Long-Zeta-Header-Name-0006: 1'',
      ''X-Extremely-Long-Eta-Header-Name-0007: 1'', ''X-Extremely-Long-Theta-Header-Name-0008: 1'', '''']"

definition hdr_count_04_minimal :: "byte list" where
  "hdr_count_04_minimal = http_lines (''GET /r HTTP/1.1'' # replicate 4 ''X: 1'' @ [''''])"

definition hdr_count_16_minimal :: "byte list" where
  "hdr_count_16_minimal = http_lines (''GET /r HTTP/1.1'' # replicate 16 ''X: 1'' @ [''''])"

definition hdr_count_32_minimal :: "byte list" where
  "hdr_count_32_minimal = http_lines (''GET /r HTTP/1.1'' # replicate 32 ''X: 1'' @ [''''])"

definition hdr_value_heavy :: "byte list" where
  "hdr_value_heavy = http_lines
     (''GET /r HTTP/1.1'' #
      map (\<lambda>c. c # '': token0001 token0002 token0003 token0004 token0005 token0006 token0007 token0008'')
        ''ABCDEFGH'' @ [''''])"

definition hdr_value_ascii_clean :: "byte list" where
  "hdr_value_ascii_clean = http_lines
     (''GET /r HTTP/1.1'' #
      map (\<lambda>(c, d). c # '': '' @ replicate 64 d) (zip ''ABCDEF'' ''abcdef'') @ [''''])"

definition hdr_value_obs_text :: "byte list" where
  "hdr_value_obs_text =
     http_lines [''GET /r HTTP/1.1''] @
     ascii ''A: '' @ map word_of_int [0x80..0x9F] @ [CR, LF] @
     ascii ''B: '' @ map word_of_int [0xA0..0xBF] @ [CR, LF] @
     ascii ''C: '' @ map word_of_int [0xC0..0xDF] @ [CR, LF] @
     ascii ''D: '' @ map word_of_int [0xE0..0xFF] @ [CR, LF] @ [CR, LF]"

definition hdr_value_trim_heavy :: "byte list" where
  "hdr_value_trim_heavy =
     http_lines [''GET /r HTTP/1.1''] @
     concat (map (\<lambda>c. ascii [c] @ ascii '':'' @ [HTAB, SP, HTAB, SP] @
       ascii ''token0001 token0002 token0003 token0004 token0005'' @ [SP, HTAB, SP] @ [CR, LF]) ''ABCDEF'') @
     [CR, LF]"

definition hdr_uncommon_valid :: "byte list" where
  "hdr_uncommon_valid = http_lines
     [''GET /r HTTP/1.1'', ''X-Custom-Alpha-Token: abcdef1234567890'', ''X-Trace-Vector-Path: a,b,c,d,e,f,g'',
      ''X-Long-Meta-Field: token1 token2 token3 token4 token5'',
      ''X-Forwarded-Proto-Chain: https,http,https'', '''']"

definition req_connect :: "byte list" where
  "req_connect = http_lines
     [''CONNECT vpn.example.test:443 HTTP/1.1'', ''Host: vpn.example.test:443'',
      ''Proxy-Connection: keep-alive'', '''']"

definition resp_small :: "byte list" where
  "resp_small = http_lines [''HTTP/1.1 204 No Content'', ''Connection: keep-alive'', '''']"

definition resp_headers_wire :: "byte list" where
  "resp_headers_wire = http_lines
     [''HTTP/1.1 304 Not Modified'', ''Connection: keep-alive'', ''Cache-Control: max-age=60'',
      ''ETag: \"abc123\"'', ''Server: iohttp/1.0'', '''']"

definition resp_upgrade :: "byte list" where
  "resp_upgrade = http_lines
     [''HTTP/1.1 101 Switching Protocols'', ''Connection: Upgrade'', ''Upgrade: websocket'', '''']"

section \<open>Scenarios\<close>

record scenario_t =
  ts_name :: string
  ts_kind :: scenario_kind_t
  ts_wire :: "byte list"
  ts_len :: nat
  ts_connect_only :: bool

definition compare_scenarios :: "scenario_t list" where
  "compare_scenarios = [
     scenario_t.make ''req-pico-bench'' SCENARIO_REQUEST req_pico_bench (length req_pico_bench) False,
     scenario_t.make ''req-line-only'' SCENARIO_REQUEST req_line_only (length req_line_only) False,
     scenario_t.make ''req-line-hot'' SCENARIO_REQUEST req_line_hot (length req_line_hot) False,
     scenario_t.make ''req-line-connect'' SCENARIO_REQUEST req_line_connect (length req_line_connect) False,
     scenario_t.make ''req-line-options'' SCENARIO_REQUEST req_line_options (length req_line_options) False,
     scenario_t.make ''req-line-long-target'' SCENARIO_REQUEST req_line_long_target (length req_line_long_target)
       False,
     scenario_t.make ''req-small'' SCENARIO_REQUEST req_small (length req_small) False,
     scenario_t.make ''req-headers'' SCENARIO_REQUEST req_headers_wire (length req_headers_wire) False,
     scenario_t.make ''hdr-common-heavy'' SCENARIO_REQUEST hdr_common_heavy (length hdr_common_heavy) False,
     scenario_t.make ''hdr-name-heavy'' SCENARIO_REQUEST hdr_name_heavy (length hdr_name_heavy) False,
     scenario_t.make ''hdr-count-04-minimal'' SCENARIO_REQUEST hdr_count_04_minimal (length hdr_count_04_minimal)
       False,
     scenario_t.make ''hdr-count-16-minimal'' SCENARIO_REQUEST hdr_count_16_minimal (length hdr_count_16_minimal)
       False,
     scenario_t.make ''hdr-count-32-minimal'' SCENARIO_REQUEST hdr_count_32_minimal (length hdr_count_32_minimal)
       False,
     scenario_t.make ''hdr-value-heavy'' SCENARIO_REQUEST hdr_value_heavy (length hdr_value_heavy) False,
     scenario_t.make ''hdr-value-ascii-clean'' SCENARIO_REQUEST hdr_value_ascii_clean
       (length hdr_value_ascii_clean) False,
     scenario_t.make ''hdr-value-obs-text'' SCENARIO_REQUEST hdr_value_obs_text (length hdr_value_obs_text) False,
     scenario_t.make ''hdr-value-trim-heavy'' SCENARIO_REQUEST hdr_value_trim_heavy (length hdr_value_trim_heavy)
       False,
     scenario_t.make ''hdr-uncommon-valid'' SCENARIO_REQUEST hdr_uncommon_valid (length hdr_uncommon_valid) False,
     scenario_t.make ''req-connect'' SCENARIO_REQUEST req_connect (length req_connect) True,
     scenario_t.make ''resp-small'' SCENARIO_RESPONSE resp_small (length resp_small) False,
     scenario_t.make ''resp-headers'' SCENARIO_RESPONSE resp_headers_wire (length resp_headers_wire) False,
     scenario_t.make ''resp-upgrade'' SCENARIO_RESPONSE resp_upgrade (length resp_upgrade) False]"

section \<open>Wires are messages\<close>

lemma ascii_append: "ascii (s @ t) = ascii s @ ascii t"
  by (simp add: ascii_def)

lemma ascii_Nil: "ascii '''' = []"
  by (simp add: ascii_def)

abbreviation text_field :: "string \<times> string \<Rightarrow> byte list \<times> byte list" where
  "text_field f \<equiv> (ascii (fst f), ascii (snd f))"

abbreviation field_text :: "string \<times> string \<Rightarrow> string" where
  "field_text f \<equiv> fst f @ '': '' @ snd f"

lemma header_lines_text:
  "concat (map (\<lambda>l. ascii l @ [CR, LF]) (map field_text fs)) = concat (map render_header (map text_field fs))"
  by (induction fs) (simp_all add: render_header_def ascii_append, simp add: ascii_def)

lemma version_text: "ascii '' HTTP/1.1'' = [SP] @ ascii ''HTTP/1.'' @ [version_byte IHTP_HTTP_11]"
  "ascii ''HTTP/1.1 '' = ascii ''HTTP/1.'' @ [version_byte IHTP_HTTP_11, SP]" "ascii '' '' = [SP]"
  by (simp_all add: ascii_def)

text \<open>
  Conditions on the texts that suffice and are quick to evaluate, on the bits of the characters:
  names of letters, digits and hyphens, printable values that do not start or end with a space.
\<close>

fun printable :: "char \<Rightarrow> bool" where
  "printable (Char b0 b1 b2 b3 b4 b5 b6 b7) \<longleftrightarrow>
     \<not> b7 \<and> (b5 \<or> b6) \<and> \<not> (b0 \<and> b1 \<and> b2 \<and> b3 \<and> b4 \<and> b5 \<and> b6)"

fun plain_char :: "char \<Rightarrow> bool" where
  "plain_char (Char b0 b1 b2 b3 b4 b5 b6 b7) \<longleftrightarrow> \<not> b7 \<and>
     (if b6 then (b0 \<or> b1 \<or> b2 \<or> b3 \<or> b4) \<and> \<not> (b4 \<and> b3 \<and> (b2 \<or> b1 \<and> b0))
      else b5 \<and> (b4 \<and> \<not> (b3 \<and> (b2 \<or> b1)) \<or> \<not> b4 \<and> b3 \<and> b2 \<and> \<not> b1 \<and> b0))"

lemma unat_of_char: "unat (of_char c :: byte) = of_char c"
proof -
  have "(of_char c :: byte) = word_of_nat (of_char c)" by (rule of_nat_of_char [symmetric])
  moreover have "of_char c < (256 :: nat)" by (cases c) (simp add: of_bool_def)
  ultimately show ?thesis by (simp add: unat_of_nat)
qed

lemma inj_ascii: "inj ascii"
proof -
  have "inj (of_char :: char \<Rightarrow> byte)" by (metis injI of_char_eq_iff unat_of_char)
  then show ?thesis by (simp add: ascii_def)
qed

lemma printable_range: "printable c \<Longrightarrow> 32 \<le> (of_char c :: nat) \<and> (of_char c :: nat) < 127"
  by (cases c) (auto simp: of_bool_def)

lemma plain_range:
  "plain_char c \<Longrightarrow> (of_char c :: nat) \<in> {48..57} \<union> {65..90} \<union> {97..122} \<union> {45}"
  by (cases c) (auto simp: of_bool_def split: if_splits)

lemma printable_text: "printable c \<Longrightarrow> text_byte (of_char c)"
  using printable_range [of c] by (auto simp: text_byte_def word_le_nat_alt unat_of_char dest: arg_cong [where f = unat])

lemma printable_target: "printable c \<Longrightarrow> c \<noteq> CHR '' '' \<Longrightarrow> target_byte False (of_char c)"
  using printable_range [of c] of_char_eq_iff [where ?'a = nat, of c "CHR '' ''"]
  by (auto simp: target_byte_def word_less_nat_alt unat_of_char dest: arg_cong [where f = unat])

lemma printable_lws: "printable c \<Longrightarrow> ihtp_is_lws (of_char c) \<longleftrightarrow> c = CHR '' ''"
  using printable_range [of c] of_char_eq_iff [where ?'a = nat, of c "CHR '' ''"]
  by (auto simp: ihtp_is_lws_def unat_of_char dest: arg_cong [where f = unat])

lemma plain_tchar: "plain_char c \<Longrightarrow> tchar (of_char c)"
  using plain_range [of c]
  by (auto simp: tchar_def is_alpha_def ihtp_is_digit_def ascii_def word_le_nat_alt unat_of_char word_unat_eq_iff)

definition plain_field :: "string \<times> string \<Rightarrow> bool" where
  "plain_field = (\<lambda>(n, v). n \<noteq> '''' \<and> list_all plain_char n \<and> v \<noteq> '''' \<and> list_all printable v \<and>
     hd v \<noteq> CHR '' '' \<and> last v \<noteq> CHR '' '')"

lemma ascii_classes:
  "list_all plain_char s \<Longrightarrow> list_all tchar (ascii s)" "list_all printable s \<Longrightarrow> list_all text_byte (ascii s)"
  "list_all (\<lambda>c. printable c \<and> c \<noteq> CHR '' '') s \<Longrightarrow> list_all (target_byte False) (ascii s)"
  by (auto simp: ascii_def list_all_iff plain_tchar printable_text printable_target)

lemma ascii_Nil_iff [simp]: "ascii s = [] \<longleftrightarrow> s = ''''"
  by (simp add: ascii_def)

lemma dropWhile_unless: "xs \<noteq> [] \<Longrightarrow> \<not> P (hd xs) \<Longrightarrow> dropWhile P xs = xs"
  by (cases xs) simp_all

lemma trim_nothing: "s \<noteq> [] \<Longrightarrow> \<not> ihtp_is_lws (hd s) \<Longrightarrow> \<not> ihtp_is_lws (last s) \<Longrightarrow> trim_ows s = s"
  by (simp add: trim_ows_def ltrim_def rtrim_def dropWhile_unless hd_rev)

lemma plain_field_ok:
  assumes "plain_field f" and "length (fst f) + length (snd f) + 2 \<le> IHTP_MAX_HEADER_LINE"
  shows "field_ok (text_field f)"
proof (cases f)
  case (Pair n v)
  with assms have n: "n \<noteq> ''''" "list_all plain_char n" and v: "v \<noteq> ''''" "list_all printable v"
    and ends: "hd v \<noteq> CHR '' ''" "last v \<noteq> CHR '' ''" and len: "length n + length v + 2 \<le> IHTP_MAX_HEADER_LINE"
    by (auto simp: plain_field_def)
  have "printable (hd v)" "printable (last v)" using v by (simp_all add: list_all_iff)
  then have "\<not> ihtp_is_lws (hd (ascii v))" "\<not> ihtp_is_lws (last (ascii v))"
    using ends v(1) by (simp_all add: ascii_def hd_map last_map printable_lws)
  with n v len show ?thesis
    using ascii_classes(1) [OF n(2)] ascii_classes(2) [OF v(2)] by (simp add: Pair field_ok_def trim_nothing)
qed

abbreviation short_fields :: "(string \<times> string) list \<Rightarrow> bool" where
  "short_fields fs \<equiv> (\<forall>f\<in>set fs. length (fst f) + length (snd f) + 2 \<le> IHTP_MAX_HEADER_LINE) \<and>
     length fs \<le> IHTP_MAX_HEADERS"

lemma plain_fields_ok: "list_all plain_field fs \<Longrightarrow> short_fields fs \<Longrightarrow> list_all field_ok (map text_field fs)"
  using plain_field_ok by (simp add: list_all_iff)

definition request_wire :: "byte list \<Rightarrow> string \<Rightarrow> string \<Rightarrow> (string \<times> string) list \<Rightarrow> bool" where
  "request_wire w m t fs \<longleftrightarrow>
     w = req11 m t (map text_field fs) \<and>
     request_parts_ok (Some IHTP_POLICY_STRICT) (ascii m) (ascii t) (map text_field fs)"

definition response_wire :: "byte list \<Rightarrow> string \<Rightarrow> string \<Rightarrow> (string \<times> string) list \<Rightarrow> bool" where
  "response_wire w ds reason fs \<longleftrightarrow>
     w = resp11 ds reason (map text_field fs) \<and> response_parts_ok (ascii ds) (ascii reason) (map text_field fs)"

lemma request_wireI:
  assumes "w = http_lines ls" and "ls = (m @ '' '' @ t @ '' HTTP/1.1'') # map field_text fs @ ['''']"
    and "short_fields fs" and "list_all plain_field fs"
    and "m \<noteq> '''' \<and> list_all plain_char m \<and> t \<noteq> '''' \<and> list_all (\<lambda>c. printable c \<and> c \<noteq> CHR '' '') t"
    and "length m + length t + 10 \<le> IHTP_MAX_REQUEST_LINE"
  shows "request_wire w m t fs"
proof -
  have "w = req11 m t (map text_field fs)"
    using assms(1,2) header_lines_text [of fs]
    by (simp add: http_lines_def render_request_def ascii_append ascii_Nil version_text) (simp add: ascii_def)
  moreover have "list_all tchar (ascii m)" "list_all (target_byte False) (ascii t)"
    using assms(5) ascii_classes(1,3) by blast+
  ultimately show ?thesis
    using assms(3-6) plain_fields_ok [of fs] by (simp add: request_wire_def request_parts_ok_def IHTP_POLICY_STRICT_def)
qed

lemma response_wireI:
  assumes "w = http_lines ls" and "ls = (''HTTP/1.1 '' @ ds @ '' '' @ reason) # map field_text fs @ ['''']"
    and "short_fields fs" and "list_all plain_field fs"
    and "response_parts_ok (ascii ds) (ascii reason) []"
  shows "response_wire w ds reason fs"
proof -
  have "w = resp11 ds reason (map text_field fs)"
    using assms(1,2) header_lines_text [of fs]
    by (simp add: http_lines_def render_response_def ascii_append ascii_Nil version_text) (simp add: ascii_def)
  then show ?thesis
    using assms(3-5) plain_fields_ok [of fs] by (simp add: response_wire_def response_parts_ok_def)
qed

text \<open>A target without spaces is one under every policy.\<close>

lemma request_parts_any_policy:
  assumes "request_parts_ok (Some IHTP_POLICY_STRICT) m t fs"
  shows "request_parts_ok policy m t fs"
  using assms by (auto simp: request_parts_ok_def target_byte_def list_all_iff IHTP_POLICY_STRICT_def)

type_synonym parser_fn_t = "mem \<Rightarrow> nat \<Rightarrow> nat \<Rightarrow> scenario_kind_t \<Rightarrow> scenario_result"

definition parses :: "parser_fn_t \<Rightarrow> scenario_t \<Rightarrow> bool" where
  "parses fn sc \<longleftrightarrow> fn (literal (ts_wire sc)) 0 (ts_len sc) (ts_kind sc) = Some (Some (ts_len sc))"

lemma request_wire_parses:
  assumes "request_wire w m t fs"
  shows "parse_ihtp_stateful_with_policy undef (literal w) 0 (length w) SCENARIO_REQUEST policy = Some (Some (length w))"
  using assms printed_request_step [OF request_parts_any_policy, where pre = "[]" and rest = "[]" and post = "[0]"
      and p = 0 and v = IHTP_HTTP_11 and policy = policy and undef = undef, of "ascii m" "ascii t" "map text_field fs"]
  by (auto simp: request_wire_def parse_ihtp_stateful_with_policy_def literal_def)

lemma response_wire_parses:
  assumes "response_wire w ds reason fs"
  shows "parse_ihtp_stateful_with_policy undef (literal w) 0 (length w) SCENARIO_RESPONSE policy = Some (Some (length w))"
  using assms printed_response_step [where pre = "[]" and rest = "[]" and post = "[0]"
      and p = 0 and v = IHTP_HTTP_11 and policy = policy and undef = undef and ds = "ascii ds" and reason = "ascii reason"
      and fs = "map text_field fs"]
  by (auto simp: response_wire_def parse_ihtp_stateful_with_policy_def literal_def)

section \<open>Fields with white space around the value\<close>

definition padded_header :: "byte list \<times> byte list \<Rightarrow> byte list" where
  "padded_header = (\<lambda>(name, raw). name @ COLON # raw @ [CR, LF])"

definition padded_ok :: "byte list \<times> byte list \<Rightarrow> bool" where
  "padded_ok = (\<lambda>(name, raw). name \<noteq> [] \<and> list_all tchar name \<and> list_all text_byte (trim_ows raw) \<and>
     LF \<notin> set raw \<and> length name + length raw + 1 \<le> IHTP_MAX_HEADER_LINE)"

lemma header_lines_padded:
  assumes "list_all padded_ok fs" and "c + length fs \<le> mx"
  shows "\<exists>hs'. header_lines policy mx p (hs, c) (concat (map padded_header fs)) (hs', c + length fs)"
  using assms
proof (induction fs arbitrary: p hs c)
  case Nil
  show ?case by (rule exI) (simp, rule header_lines.no_line)
next
  case (Cons f fs)
  obtain name raw where f: "f = (name, raw)" by (cases f)
  let ?line = "name @ COLON # raw"
  from Cons.prems(1) have ok: "padded_ok (name, raw)" by (simp add: f)
  have "LF \<notin> set name" using ok tchar_not_special by (fastforce simp: padded_ok_def list_all_iff)
  then have "header_line_ok policy ?line [CR, LF]"
    using ok by (simp add: header_line_ok_def eol_ok_def padded_ok_def)
  moreover have "Ihtp_Headers.field_line ?line name raw"
    using ok by (simp add: Ihtp_Headers.field_line_def padded_ok_def)
  moreover have "c < mx" using Cons.prems(2) by simp
  moreover obtain hs' where "header_lines policy mx (p + length ?line + length [CR, LF])
      (hs[c := field_header p (length name) raw], Suc c) (concat (map padded_header fs)) (hs', Suc c + length fs)"
    using Cons.IH [of "Suc c"] Cons.prems by fastforce
  ultimately have "header_lines policy mx p (hs, c) (?line @ [CR, LF] @ concat (map padded_header fs))
      (hs', Suc c + length fs)" by (rule header_lines.a_field)
  then show ?case by (auto simp: f padded_header_def)
qed

lemma padded_request_parses:
  assumes "request_parts_ok (Some IHTP_POLICY_STRICT) m t []" and "list_all padded_ok fs"
    and "length fs \<le> IHTP_MAX_HEADERS"
    and w: "w = m @ [SP] @ t @ [SP] @ ascii ''HTTP/1.'' @ [version_byte v, CR, LF] @ concat (map padded_header fs) @ [CR, LF]"
  shows "parse_ihtp_stateful_with_policy undef (literal w) 0 (length w) SCENARIO_REQUEST policy = Some (Some (length w))"
proof -
  let ?line = "m @ SP # t @ SP # ascii ''HTTP/1.'' @ [version_byte v]" and ?pol = "Some policy"
  have parts: "request_parts_ok ?pol m t []" using assms(1) by (rule request_parts_any_policy)
  have line: "request_line_of ?pol ?line m t v" using parts by (simp add: request_line_of_def request_parts_ok_def)
  have "LF \<notin> set m" using parts tchar_not_special by (fastforce simp: request_parts_ok_def list_all_iff)
  moreover have "LF \<notin> set t" using parts by (fastforce simp: request_parts_ok_def list_all_iff target_byte_def)
  moreover have "LF \<notin> set (ascii ''HTTP/1.'' @ [version_byte v])" by (cases v) (simp_all add: ascii_def)
  ultimately have eol: "eol_ok ?pol ?line [CR, LF]" by (simp add: eol_ok_def)
  have len: "length ?line \<le> IHTP_MAX_REQUEST_LINE" using parts by (simp add: request_parts_ok_def)
  from header_lines_padded [OF assms(2), of 0 IHTP_MAX_HEADERS] assms(3) obtain hs where
    "header_lines ?pol IHTP_MAX_HEADERS (0 + (length ?line + length [CR, LF])) (no_headers, 0)
       (concat (map padded_header fs)) (hs, length fs)" by fastforce
  then have "header_section ?pol (0 + (length ?line + length [CR, LF])) (concat (map padded_header fs) @ [CR, LF]) hs
      (length fs) (length (concat (map padded_header fs)) + 2)"
    unfolding header_section_def
    by - (rule exI [where x = "concat (map padded_header fs)"], rule exI [where x = "[CR, LF]"], rule exI [where x = "[]"],
        simp add: eol_ok_def)
  moreover have "w = ?line @ [CR, LF] @ (concat (map padded_header fs) @ [CR, LF])" by (simp add: w)
  moreover have "length w = length ?line + length [CR, LF] + (length (concat (map padded_header fs)) + 2)"
    by (simp add: w)
  ultimately have "\<exists>req. request_message ?pol 0 w req (length w)"
    unfolding request_message_def using eol len line by blast
  moreover have "span (literal w) 0 (length w) = w" by (simp add: span_def literal_def)
  moreover have "0 + length w \<le> length (literal w)" by (simp add: literal_def)
  ultimately obtain req where "ihtp_parse_request undef (literal w) (Some 0) (length w) (Some zero_request) ?pol (Some 0) =
      Some (IHTP_OK, Some req, Some (length w))"
    using request_grammar [of 0 "length w" "literal w" undef zero_request ?pol 0] by (auto simp: resolve_policy_def)
  then have "parse_ihtp_with_policy undef zero_request zero_response (literal w) 0 (length w) SCENARIO_REQUEST policy =
      Some (Some (length w))" by (simp add: parse_ihtp_with_policy_def)
  then show ?thesis unfolding parse_entries_agree [of undef zero_request zero_response _ _ _ _ _ undef] .
qed

section \<open>The wires of the table\<close>

lemmas limits = IHTP_MAX_HEADER_LINE_def IHTP_MAX_HEADERS_def IHTP_MAX_REQUEST_LINE_def

lemmas wires_pico_defs = req_pico_bench_def

lemma wires_pico:
  "request_wire req_pico_bench ''GET'' ''/wp-content/uploads/2010/03/hello-kitty-darth-vader-pink.jpg''
    [(''Host'', ''www.kittyhell.com''),
     (''User-Agent'', ''Mozilla/5.0 (Macintosh; U; Intel Mac OS X 10.6; ja-JP-mac; rv:1.9.2.3) Gecko/20100401 Firefox/3.6.3 Pathtraq/0.9''),
     (''Accept'', ''text/html,application/xhtml+xml,application/xml;q=0.9,*/*;q=0.8''),
     (''Accept-Language'', ''ja,en-us;q=0.7,en;q=0.3''),
     (''Accept-Encoding'', ''gzip,deflate''),
     (''Accept-Charset'', ''Shift_JIS,utf-8;q=0.7,*;q=0.7''),
     (''Keep-Alive'', ''115''),
     (''Connection'', ''keep-alive''),
     (''Cookie'', ''wp_ozh_wsa_visits=2; wp_ozh_wsa_visit_lasttime=xxxxxxxxxx; __utma=xxxxxxxxx.xxxxxxxxxx.xxxxxxxxxx.xxxxxxxxxx.xxxxxxxxxx.x; __utmz=xxxxxxxxx.xxxxxxxxxx.x.x.utmccn=(referral)|utmcsr=reader.livedoor.com|utmcct=/reader/|utmcmd=referral'')]"
  by (rule request_wireI, rule wires_pico_defs, simp, simp add: limits, code_simp, code_simp, simp add: limits)+

lemmas wires_line_defs = req_line_only_def req_line_hot_def req_line_connect_def req_line_options_def req_line_long_target_def req_small_def

lemma wires_line:
  "request_wire req_line_only ''GET'' ''/v1/ping?x=1&y=2''
    []"
  "request_wire req_line_hot ''GET'' ''/v1/ping?x=1&y=2''
    [(''Host'', ''a'')]"
  "request_wire req_line_connect ''CONNECT'' ''example.test:443''
    []"
  "request_wire req_line_options ''OPTIONS'' ''/v1/ping?x=1&y=2''
    []"
  "request_wire req_line_long_target ''GET'' ''/wp-content/uploads/2010/03/hello-kitty-darth-vader-pink.jpg''
    []"
  "request_wire req_small ''GET'' ''/api/v1/ping''
    [(''Host'', ''example.test'')]"
  by (rule request_wireI, rule wires_line_defs, simp, simp add: limits, code_simp, code_simp, simp add: limits)+

lemmas wires_fields_defs = req_headers_wire_def hdr_common_heavy_def hdr_uncommon_valid_def req_connect_def

lemma wires_fields:
  "request_wire req_headers_wire ''GET'' ''/resource/alpha?x=1&y=2''
    [(''Host'', ''example.test''),
     (''Connection'', ''keep-alive''),
     (''Accept'', ''application/json''),
     (''User-Agent'', ''bench-client/1.0''),
     (''X-Forwarded-For'', ''203.0.113.10, 198.51.100.42'')]"
  "request_wire hdr_common_heavy ''GET'' ''/r''
    [(''Host'', ''example.test''),
     (''Connection'', ''keep-alive''),
     (''Content-Length'', ''0''),
     (''Expect'', ''100-continue''),
     (''Upgrade'', ''websocket'')]"
  "request_wire hdr_uncommon_valid ''GET'' ''/r''
    [(''X-Custom-Alpha-Token'', ''abcdef1234567890''),
     (''X-Trace-Vector-Path'', ''a,b,c,d,e,f,g''),
     (''X-Long-Meta-Field'', ''token1 token2 token3 token4 token5''),
     (''X-Forwarded-Proto-Chain'', ''https,http,https'')]"
  "request_wire req_connect ''CONNECT'' ''vpn.example.test:443''
    [(''Host'', ''vpn.example.test:443''),
     (''Proxy-Connection'', ''keep-alive'')]"
  by (rule request_wireI, rule wires_fields_defs, simp, simp add: limits, code_simp, code_simp, simp add: limits)+

lemmas wires_name_defs = hdr_name_heavy_def

lemma wires_name:
  "request_wire hdr_name_heavy ''GET'' ''/r''
    [(''X-Extremely-Long-Alpha-Header-Name-0001'', ''1''),
     (''X-Extremely-Long-Beta-Header-Name-0002'', ''1''),
     (''X-Extremely-Long-Gamma-Header-Name-0003'', ''1''),
     (''X-Extremely-Long-Delta-Header-Name-0004'', ''1''),
     (''X-Extremely-Long-Epsilon-Header-Name-0005'', ''1''),
     (''X-Extremely-Long-Zeta-Header-Name-0006'', ''1''),
     (''X-Extremely-Long-Eta-Header-Name-0007'', ''1''),
     (''X-Extremely-Long-Theta-Header-Name-0008'', ''1'')]"
  by (rule request_wireI, rule wires_name_defs, simp, simp add: limits, code_simp, code_simp, simp add: limits)+

lemma count_wire:
  assumes "k \<le> IHTP_MAX_HEADERS"
  shows "request_wire (http_lines (''GET /r HTTP/1.1'' # replicate k ''X: 1'' @ [''''])) ''GET'' ''/r'' (replicate k (''X'', ''1''))"
proof (rule request_wireI [OF refl])
  have "plain_field (''X'', ''1'')" by code_simp
  then show "list_all plain_field (replicate k (''X'', ''1''))" by (simp add: list_all_iff)
  show "short_fields (replicate k (''X'', ''1''))" using assms by (simp add: limits)
qed (simp, code_simp, simp add: limits)

lemma wires_count:
  "request_wire hdr_count_04_minimal ''GET'' ''/r'' (replicate 4 (''X'', ''1''))"
  "request_wire hdr_count_16_minimal ''GET'' ''/r'' (replicate 16 (''X'', ''1''))"
  "request_wire hdr_count_32_minimal ''GET'' ''/r'' (replicate 32 (''X'', ''1''))"
  unfolding hdr_count_04_minimal_def hdr_count_16_minimal_def hdr_count_32_minimal_def
  by (rule count_wire, simp add: limits)+

lemmas wires_value_defs = hdr_value_heavy_def

lemma wires_value:
  "request_wire hdr_value_heavy ''GET'' ''/r''
    (map (\<lambda>c. ([c], ''token0001 token0002 token0003 token0004 token0005 token0006 token0007 token0008''))
     ''ABCDEFGH'')"
  by (rule request_wireI, rule wires_value_defs, simp, simp add: limits, code_simp, code_simp, simp add: limits)+

lemmas wires_clean_defs = hdr_value_ascii_clean_def

lemma wires_clean:
  "request_wire hdr_value_ascii_clean ''GET'' ''/r''
    (map (\<lambda>(c, d). ([c], replicate 64 d)) (zip ''ABCDEF'' ''abcdef''))"
  by (rule request_wireI, rule wires_clean_defs, simp, simp add: limits, code_simp, code_simp, simp add: limits)+

lemmas wires_resp_defs = resp_small_def resp_headers_wire_def resp_upgrade_def

lemma wires_resp:
  "response_wire resp_small ''204'' ''No Content''
    [(''Connection'', ''keep-alive'')]"
  "response_wire resp_headers_wire ''304'' ''Not Modified''
    [(''Connection'', ''keep-alive''),
     (''Cache-Control'', ''max-age=60''),
     (''ETag'', ''\"abc123\"''),
     (''Server'', ''iohttp/1.0'')]"
  "response_wire resp_upgrade ''101'' ''Switching Protocols''
    [(''Connection'', ''Upgrade''),
     (''Upgrade'', ''websocket'')]"
  by (rule response_wireI, rule wires_resp_defs, simp, simp add: limits, code_simp, unfold response_parts_ok_def, intro conjI; code_simp)+

lemma http_line: "http_lines [''GET /r HTTP/1.1''] = ascii ''GET'' @ [SP] @ ascii ''/r'' @ [SP] @ ascii ''HTTP/1.'' @
    [version_byte IHTP_HTTP_11, CR, LF]"
  by (simp add: http_lines_def ascii_def)

lemma short_request_parts: "request_parts_ok (Some IHTP_POLICY_STRICT) (ascii ''GET'') (ascii ''/r'') []"
  unfolding request_parts_ok_def by (intro conjI; code_simp)

abbreviation obs_fields :: "(byte list \<times> byte list) list" where
  "obs_fields \<equiv> [(ascii ''A'', SP # map word_of_int [0x80..0x9F]), (ascii ''B'', SP # map word_of_int [0xA0..0xBF]),
     (ascii ''C'', SP # map word_of_int [0xC0..0xDF]), (ascii ''D'', SP # map word_of_int [0xE0..0xFF])]"

lemma obs_fields_ok: "list_all padded_ok obs_fields \<and> length obs_fields \<le> IHTP_MAX_HEADERS"
  by (intro conjI; code_simp)

lemma obs_wire:
  "hdr_value_obs_text = ascii ''GET'' @ [SP] @ ascii ''/r'' @ [SP] @ ascii ''HTTP/1.'' @
     [version_byte IHTP_HTTP_11, CR, LF] @ concat (map padded_header obs_fields) @ [CR, LF]"
  unfolding hdr_value_obs_text_def http_line by (simp add: padded_header_def) (simp add: ascii_def)

abbreviation trim_fields :: "(byte list \<times> byte list) list" where
  "trim_fields \<equiv> map (\<lambda>c. (ascii [c], [HTAB, SP, HTAB, SP] @
     ascii ''token0001 token0002 token0003 token0004 token0005'' @ [SP, HTAB, SP])) ''ABCDEF''"

lemma trim_fields_ok: "list_all padded_ok trim_fields \<and> length trim_fields \<le> IHTP_MAX_HEADERS"
  by (intro conjI; code_simp)

lemma trim_wire:
  "hdr_value_trim_heavy = ascii ''GET'' @ [SP] @ ascii ''/r'' @ [SP] @ ascii ''HTTP/1.'' @
     [version_byte IHTP_HTTP_11, CR, LF] @ concat (map padded_header trim_fields) @ [CR, LF]"
  unfolding hdr_value_trim_heavy_def http_line by (simp add: padded_header_def) (simp add: ascii_def)

lemmas padded_wires = padded_request_parses [OF short_request_parts conjunct1 [OF obs_fields_ok] conjunct2 [OF obs_fields_ok]
    obs_wire] padded_request_parses [OF short_request_parts conjunct1 [OF trim_fields_ok] conjunct2 [OF trim_fields_ok]
    trim_wire]

lemma compare_scenarios_parse:
  "list_all (parses (\<lambda>mem buf len kind. parse_ihtp_stateful_with_policy undef mem buf len kind policy)) compare_scenarios"
  unfolding compare_scenarios_def list.pred_inject(2) parses_def scenario_t.make_def scenario_t.simps
  by (intro conjI list.pred_inject(1) padded_wires wires_pico [THEN request_wire_parses] wires_line [THEN request_wire_parses]
      wires_fields [THEN request_wire_parses] wires_name [THEN request_wire_parses] wires_count [THEN request_wire_parses]
      wires_value [THEN request_wire_parses] wires_clean [THEN request_wire_parses] wires_resp [THEN response_wire_parses])

end
