(* ===== verification/Ihtp_Throughput.thy ===== *)
theory Ihtp_Throughput
  imports Ihtp_Wires Ihtp_Programs
begin

text \<open>
  The throughput comparison bench/bench_throughput_compare.c: the wrappers of the two other parsers
  (which are parameters), the measuring loop and \<open>main\<close> with its options.  The line with the
  measured times is a parameter as well.  The uninitialised locals are the same in every call.
\<close>

section \<open>Parsers\<close>

text \<open>
  picohttpparser: the return values of its two functions, called with \<open>IHTP_MAX_HEADERS\<close> headers and
  no earlier length; what they write is not read.
\<close>

record pico_api =
  phr_parse_request :: "mem \<Rightarrow> nat \<Rightarrow> nat \<Rightarrow> nat \<Rightarrow> int ub"
  phr_parse_response :: "mem \<Rightarrow> nat \<Rightarrow> nat \<Rightarrow> nat \<Rightarrow> int ub"

definition parse_pico :: "pico_api \<Rightarrow> mem \<Rightarrow> nat \<Rightarrow> nat \<Rightarrow> scenario_kind_t \<Rightarrow> scenario_result" where
  "parse_pico pico mem buf len kind =
     (case kind of
        SCENARIO_REQUEST \<Rightarrow>
          do { ret \<leftarrow> phr_parse_request pico mem buf len IHTP_MAX_HEADERS;
               if ret \<le> 0 then Some None
               else if nat ret = len then Some (Some (nat ret)) else Some None }
      | SCENARIO_RESPONSE \<Rightarrow>
          do { ret \<leftarrow> phr_parse_response pico mem buf len IHTP_MAX_HEADERS;
               if ret \<le> 0 then Some None
               else if nat ret = len then Some (Some (nat ret)) else Some None })"

text \<open>
  llhttp: a parser is initialised for a type and with the callback in its settings; it carries the
  user's data, and may call the callback while it runs.
\<close>

datatype llhttp_type_t = HTTP_REQUEST | HTTP_RESPONSE

record llhttp_capture_t =
  cap_complete :: bool

definition llhttp_on_message_complete :: "llhttp_capture_t \<Rightarrow> int \<times> llhttp_capture_t" where
  "llhttp_on_message_complete capture = (0, capture\<lparr> cap_complete := True \<rparr>)"

record ('e, 'p) llhttp_api =
  HPE_OK :: 'e
  HPE_PAUSED_UPGRADE :: 'e
  llhttp_init :: "llhttp_type_t \<Rightarrow> (llhttp_capture_t \<Rightarrow> int \<times> llhttp_capture_t) \<Rightarrow> 'p"
  llhttp_execute :: "'p \<Rightarrow> llhttp_capture_t \<Rightarrow> mem \<Rightarrow> nat \<Rightarrow> nat \<Rightarrow> ('e \<times> 'p \<times> llhttp_capture_t) ub"
  llhttp_finish :: "'p \<Rightarrow> llhttp_capture_t \<Rightarrow> ('e \<times> 'p \<times> llhttp_capture_t) ub"

definition parse_llhttp :: "('e, 'p) llhttp_api \<Rightarrow> mem \<Rightarrow> nat \<Rightarrow> nat \<Rightarrow> scenario_kind_t \<Rightarrow> scenario_result" where
  "parse_llhttp llhttp mem buf len kind =
     (let capture = \<lparr> cap_complete = False \<rparr>;
          type = (if kind = SCENARIO_REQUEST then HTTP_REQUEST else HTTP_RESPONSE);
          parser = llhttp_init llhttp type llhttp_on_message_complete
      in do { (execute_err, parser, capture) \<leftarrow> llhttp_execute llhttp parser capture mem buf len;
              if execute_err \<noteq> HPE_OK llhttp \<and> execute_err \<noteq> HPE_PAUSED_UPGRADE llhttp then Some None
              else do { (finish_err, parser, capture) \<leftarrow> llhttp_finish llhttp parser capture;
                        if finish_err \<noteq> HPE_OK llhttp \<and> finish_err \<noteq> HPE_PAUSED_UPGRADE llhttp then Some None
                        else if \<not> cap_complete capture \<and> execute_err \<noteq> HPE_PAUSED_UPGRADE llhttp \<and>
                                finish_err \<noteq> HPE_PAUSED_UPGRADE llhttp
                        then Some None
                        else Some (Some len) } })"

definition parsers ::
    "ihtp_parser_state_t \<Rightarrow> ihtp_request_t \<Rightarrow> ihtp_response_t \<Rightarrow> pico_api \<Rightarrow> ('e, 'p) llhttp_api \<Rightarrow>
       (string \<times> parser_fn_t) list" where
  "parsers undef req resp pico llhttp =
     [(''iohttpparser-strict'', parse_ihtp_strict undef req resp),
      (''iohttpparser-lenient'', parse_ihtp_lenient undef req resp),
      (''iohttpparser-stateful-strict'', parse_ihtp_stateful_strict undef),
      (''iohttpparser-stateful-lenient'', parse_ihtp_stateful_lenient undef),
      (''picohttpparser'', parse_pico pico),
      (''llhttp'', parse_llhttp llhttp)]"

section \<open>The measuring loop\<close>

text \<open>A piece of code runs to its end, leaves its function early, or ends the program.\<close>

datatype flow = Ran bench_globals | Left_early bench_globals | Exited int bench_globals

primrec parse_times ::
    "(console \<Rightarrow> bool) \<Rightarrow> scenario_result \<Rightarrow> (nat \<Rightarrow> byte list) \<Rightarrow> nat \<Rightarrow> nat \<Rightarrow> bench_globals \<Rightarrow> flow ub" where
  "parse_times ok parse msg i 0 g = Some (Ran g)"
| "parse_times ok parse msg i (Suc k) g =
     do { r \<leftarrow> parse;
          case r of
            None \<Rightarrow> Some (if ok (bg_con g) then Exited 2 (print_err ok (msg i) g) else Left_early g)
          | Some consumed \<Rightarrow>
              parse_times ok parse msg (Suc i) k (g\<lparr> bg_sink := bg_sink g + word_of_nat consumed \<rparr>) }"

definition measure_scenario ::
    "(console \<Rightarrow> bool) \<Rightarrow> string \<Rightarrow> parser_fn_t \<Rightarrow> scenario_t \<Rightarrow> nat \<Rightarrow> bench_globals \<Rightarrow> flow ub" where
  "measure_scenario ok name parse_fn sc iterations g =
     (let parse = parse_fn (literal (ts_wire sc)) 0 (ts_len sc) (ts_kind sc);
          which = ascii ''parser='' @ ascii name @ ascii '' scenario='' @ ascii (ts_name sc)
      in do { r \<leftarrow> parse_times ok parse (\<lambda>_. ascii ''warmup failed: '' @ which @ [LF]) 0 1000 g;
              case r of
                Ran g \<Rightarrow> parse_times ok parse
                  (\<lambda>i. ascii ''parse failed: '' @ which @ ascii '' iter='' @ fmt_zu i @ [LF]) 0 iterations g
              | _ \<Rightarrow> Some r })"

text \<open>\<open>row\<close> is the line that is printed about a scenario, with the measured times.\<close>

primrec bench_parser ::
    "(console \<Rightarrow> bool) \<Rightarrow> (output_mode_t \<Rightarrow> string \<Rightarrow> scenario_t \<Rightarrow> byte list) \<Rightarrow> output_mode_t \<Rightarrow> string \<Rightarrow>
       parser_fn_t \<Rightarrow> scenario_t list \<Rightarrow> nat \<Rightarrow> bool \<Rightarrow> byte list option \<Rightarrow> bench_globals \<Rightarrow> flow ub" where
  "bench_parser ok row mode name parse_fn [] iterations connect_only scenario_filter g = Some (Ran g)"
| "bench_parser ok row mode name parse_fn (sc # scs) iterations connect_only scenario_filter g =
     (if connect_only \<noteq> ts_connect_only sc
      then bench_parser ok row mode name parse_fn scs iterations connect_only scenario_filter g
      else if scenario_filter \<noteq> None \<and> ascii (ts_name sc) \<noteq> the scenario_filter
      then bench_parser ok row mode name parse_fn scs iterations connect_only scenario_filter g
      else do { r \<leftarrow> measure_scenario ok name parse_fn sc iterations g;
                case r of
                  Ran g \<Rightarrow> bench_parser ok row mode name parse_fn scs iterations connect_only scenario_filter
                             (print_out ok (row mode name sc) g)
                | Left_early g \<Rightarrow> Some (Ran g)
                | Exited code g \<Rightarrow> Some r })"

primrec run_parsers ::
    "(console \<Rightarrow> bool) \<Rightarrow> (output_mode_t \<Rightarrow> string \<Rightarrow> scenario_t \<Rightarrow> byte list) \<Rightarrow> output_mode_t \<Rightarrow>
       (string \<times> parser_fn_t) list \<Rightarrow> scenario_t list \<Rightarrow> nat \<Rightarrow> bool \<Rightarrow> byte list option \<Rightarrow> byte list option \<Rightarrow>
       bench_globals \<Rightarrow> flow ub" where
  "run_parsers ok row mode [] scs iterations connect_only scenario_filter parser_filter g = Some (Ran g)"
| "run_parsers ok row mode (p # ps) scs iterations connect_only scenario_filter parser_filter g =
     (if parser_filter \<noteq> None \<and> ascii (fst p) \<noteq> the parser_filter
      then run_parsers ok row mode ps scs iterations connect_only scenario_filter parser_filter g
      else do { r \<leftarrow> bench_parser ok row mode (fst p) (snd p) scs iterations connect_only scenario_filter g;
                case r of
                  Ran g \<Rightarrow> run_parsers ok row mode ps scs iterations connect_only scenario_filter parser_filter g
                | _ \<Rightarrow> Some r })"

section \<open>Options\<close>

record options_t =
  op_iterations :: "64 word"
  op_mode :: output_mode_t
  op_connect_only :: bool
  op_scenario :: "byte list option"
  op_parser :: "byte list option"
  op_trace_parser :: "byte list option"
  op_trace_scenario :: "byte list option"

definition default_options :: options_t where
  "default_options =
     \<lparr> op_iterations = 200000, op_mode = OUTPUT_HUMAN, op_connect_only = False, op_scenario = None,
       op_parser = None, op_trace_parser = None, op_trace_scenario = None \<rparr>"

text \<open>The loop over the arguments; \<open>Inl\<close> is the argument that is no iteration count.\<close>

fun read_options :: "byte list list \<Rightarrow> options_t \<Rightarrow> byte list + options_t" where
  "read_options [] opts = Inr opts"
| "read_options (arg # args) opts =
     (if arg = ascii ''--tsv'' then read_options args (opts\<lparr> op_mode := OUTPUT_TSV \<rparr>)
      else if arg = ascii ''--connect-only'' then read_options args (opts\<lparr> op_connect_only := True \<rparr>)
      else if arg = ascii ''--scenario'' \<and> args \<noteq> []
      then read_options (tl args) (opts\<lparr> op_scenario := Some (hd args) \<rparr>)
      else if arg = ascii ''--parser'' \<and> args \<noteq> []
      then read_options (tl args) (opts\<lparr> op_parser := Some (hd args) \<rparr>)
      else if arg = ascii ''--trace-parser'' \<and> args \<noteq> []
      then read_options (tl args) (opts\<lparr> op_trace_parser := Some (hd args) \<rparr>)
      else if arg = ascii ''--trace-scenario'' \<and> args \<noteq> []
      then read_options (tl args) (opts\<lparr> op_trace_scenario := Some (hd args) \<rparr>)
      else let (parsed, left) = c_strtoull arg
           in if left = arg \<or> left \<noteq> [] \<or> parsed = 0 then Inl arg
              else read_options args (opts\<lparr> op_iterations := parsed \<rparr>))"

declare read_options.simps [simp del]

section \<open>The program\<close>

definition print_filter :: "(console \<Rightarrow> bool) \<Rightarrow> byte list \<Rightarrow> byte list option \<Rightarrow> bench_globals \<Rightarrow> bench_globals" where
  "print_filter ok label f g = (case f of None \<Rightarrow> g | Some s \<Rightarrow> print_out ok (label @ s @ [LF]) g)"

definition tsv_preamble :: "(console \<Rightarrow> bool) \<Rightarrow> options_t \<Rightarrow> bench_globals \<Rightarrow> bench_globals" where
  "tsv_preamble ok opts g =
     (let g = print_out ok (ascii ''meta'' @ TAB @ ascii ''iterations'' @ TAB @ fmt_zu (unat (op_iterations opts)) @ [LF]) g;
          g = print_out ok (ascii ''meta'' @ TAB @ ascii ''connect_only'' @ TAB @ true_false (op_connect_only opts) @ [LF]) g;
          g = print_filter ok (ascii ''meta'' @ TAB @ ascii ''scenario_filter'' @ TAB) (op_scenario opts) g;
          g = print_filter ok (ascii ''meta'' @ TAB @ ascii ''parser_filter'' @ TAB) (op_parser opts) g
      in print_out ok
           (ascii ''columns'' @ TAB @ ascii ''parser'' @ TAB @ ascii ''scenario'' @ TAB @ ascii ''kind'' @ TAB @
            ascii ''len'' @ TAB @ ascii ''elapsed_ns'' @ TAB @ ascii ''req_per_s'' @ TAB @ ascii ''mib_per_s'' @ TAB @
            ascii ''ns_per_req'' @ [LF]) g)"

definition human_preamble :: "(console \<Rightarrow> bool) \<Rightarrow> options_t \<Rightarrow> bench_globals \<Rightarrow> bench_globals" where
  "human_preamble ok opts g =
     (let g = print_out ok (endl ''Standalone throughput comparison benchmark'') g;
          g = print_out ok (labelled ''iterations: '' (fmt_zu (unat (op_iterations opts)))) g;
          g = print_out ok (labelled ''connect_only: '' (true_false (op_connect_only opts) @ [LF])) g;
          g = print_filter ok (ascii ''scenario_filter: '') (op_scenario opts) g;
          g = print_filter ok (ascii ''parser_filter: '') (op_parser opts) g;
          g = (if op_scenario opts \<noteq> None \<or> op_parser opts \<noteq> None then print_out ok [LF] g else g)
      in print_out ok
           (fmt_left 20 (ascii ''parser'') @ SP # fmt_left 12 (ascii ''scenario'') @ SP # fmt_left 8 (ascii ''kind'') @
            SP # fmt_left 4 (ascii ''len'') @ SP # fmt_left 12 (ascii ''elapsed_ns'') @
            SP # fmt_left 12 (ascii ''req/s'') @ SP # fmt_left 12 (ascii ''MiB/s'') @
            SP # fmt_left 10 (ascii ''ns/req'') @ [LF]) g)"

definition sink_line :: "output_mode_t \<Rightarrow> 64 word \<Rightarrow> byte list" where
  "sink_line mode sink =
     (case mode of
        OUTPUT_TSV \<Rightarrow> ascii ''meta'' @ TAB @ ascii ''sink'' @ TAB @ fmt_zu (unat sink) @ [LF]
      | OUTPUT_HUMAN \<Rightarrow> LF # labelled ''sink: '' (fmt_zu (unat sink)))"

text \<open>\<open>main\<close>, built without \<open>IHTP_PERF_TRACE\<close>.\<close>

definition throughput_main ::
    "(console \<Rightarrow> bool) \<Rightarrow> (output_mode_t \<Rightarrow> string \<Rightarrow> scenario_t \<Rightarrow> byte list) \<Rightarrow> (string \<times> parser_fn_t) list \<Rightarrow>
       byte list \<Rightarrow> byte list list \<Rightarrow> bench_globals \<Rightarrow> (int \<times> bench_globals) ub" where
  "throughput_main ok row ps prog args g =
     (if 11 < length args
      then Some (2, print_err ok (ascii ''usage: '' @ prog @
             ascii '' [iterations] [--tsv] [--connect-only] [--scenario NAME] '' @
             endl ''[--parser NAME] [--trace-parser NAME --trace-scenario NAME]'') g)
      else case read_options args default_options of
        Inl arg \<Rightarrow> Some (2, print_err ok (labelled ''invalid iterations: '' arg) g)
      | Inr opts \<Rightarrow>
          if op_trace_parser opts \<noteq> None \<or> op_trace_scenario opts \<noteq> None
          then Some (2, print_err ok (endl ''trace mode requires IOHTTPPARSER_PERF_TRACE=ON at build time'') g)
          else if op_mode opts = OUTPUT_TSV \<and> \<not> ok (bg_con g) then Some (2, g)
          else
            let g = (if op_mode opts = OUTPUT_TSV
                     then tsv_preamble ok opts (print_out ok (ascii ''format'' @ TAB @ ascii ''tsv'' @ TAB @ ascii ''v1'' @ [LF]) g)
                     else human_preamble ok opts g)
            in do { r \<leftarrow> run_parsers ok row (op_mode opts) ps compare_scenarios (unat (op_iterations opts))
                           (op_connect_only opts) (op_scenario opts) (op_parser opts) g;
                    Some (case r of
                            Exited code g \<Rightarrow> (code, g)
                          | Left_early g \<Rightarrow> (0, print_out ok (sink_line (op_mode opts) (bg_sink g)) g)
                          | Ran g \<Rightarrow> (0, print_out ok (sink_line (op_mode opts) (bg_sink g)) g)) })"

text \<open>The four entries of this library.\<close>

definition library_entries :: "string list" where
  "library_entries = [''iohttpparser-strict'', ''iohttpparser-lenient'', ''iohttpparser-stateful-strict'',
     ''iohttpparser-stateful-lenient'']"

lemma library_entry_parses:
  assumes "(name, fn) \<in> set (parsers undef req resp pico llhttp)" and "name \<in> set library_entries"
    and "sc \<in> set compare_scenarios"
  shows "parses fn sc"
proof -
  have all: "parses (\<lambda>mem buf len kind. parse_ihtp_stateful_with_policy undef mem buf len kind policy) sc" for policy
    using compare_scenarios_parse [of undef policy] assms(3) by (simp add: list_all_iff)
  have "parses (parse_ihtp_strict undef req resp) sc" "parses (parse_ihtp_lenient undef req resp) sc"
    "parses (parse_ihtp_stateful_strict undef) sc" "parses (parse_ihtp_stateful_lenient undef) sc"
    using all unfolding parses_def parse_ihtp_strict_def parse_ihtp_lenient_def parse_ihtp_stateful_strict_def
      parse_ihtp_stateful_lenient_def parse_entries_agree [of undef req resp _ _ _ _ _ undef] by blast+
  with assms(1,2) show ?thesis by (auto simp: parsers_def library_entries_def)
qed

section \<open>What the program adds up and prints\<close>

lemma parse_times_all:
  "parse_times ok (Some (Some n)) msg i k g = Some (Ran (added (k * n) g))"
proof (induction k arbitrary: i g)
  case (Suc k)
  have "parse_times ok (Some (Some n)) msg i (Suc k) g = parse_times ok (Some (Some n)) msg (Suc i) k (added n g)"
    by (simp add: added_def)
  then show ?case by (simp add: Suc.IH)
qed simp

lemma measure_scenario_all:
  assumes "parses fn sc"
  shows "measure_scenario ok name fn sc iterations g = Some (Ran (added ((1000 + iterations) * ts_len sc) g))"
  using assms by (simp add: measure_scenario_def parses_def parse_times_all add_mult_distrib del: parse_times.simps)

text \<open>The scenarios that the options select.\<close>

definition selected :: "bool \<Rightarrow> byte list option \<Rightarrow> scenario_t \<Rightarrow> bool" where
  "selected connect_only scenario_filter sc \<longleftrightarrow>
     ts_connect_only sc = connect_only \<and> (\<forall>f. scenario_filter = Some f \<longrightarrow> ascii (ts_name sc) = f)"

lemma bench_parser_all:
  assumes "list_all (parses fn) scs"
  shows "bench_parser ok row mode name fn scs iterations connect_only scenario_filter g =
           (let chosen = filter (selected connect_only scenario_filter) scs
            in Some (Ran (print_all ok (map (row mode name) chosen)
                 (added ((1000 + iterations) * sum_list (map ts_len chosen)) g))))"
  using assms
proof (induction scs arbitrary: g)
  case (Cons sc scs)
  then show ?case
    by (cases scenario_filter) (auto simp: selected_def measure_scenario_all add_mult_distrib2 Let_def)
qed simp

lemma run_parsers_none:
  assumes "name \<notin> set (map fst ps)"
  shows "run_parsers ok row mode ps scs iterations connect_only scenario_filter (Some (ascii name)) g = Some (Ran g)"
  using assms injD [OF inj_ascii] by (induction ps) auto

lemma run_parsers_one:
  assumes "map_of ps name = Some fn" and "distinct (map fst ps)" and "list_all (parses fn) scs"
  shows "run_parsers ok row mode ps scs iterations connect_only scenario_filter (Some (ascii name)) g =
           (let chosen = filter (selected connect_only scenario_filter) scs
            in Some (Ran (print_all ok (map (row mode name) chosen)
                 (added ((1000 + iterations) * sum_list (map ts_len chosen)) g))))"
  using assms(1,2)
proof (induction ps)
  case (Cons p ps)
  show ?case
  proof (cases "fst p = name")
    case True
    with Cons.prems bench_parser_all [OF assms(3)] run_parsers_none [of name ps] show ?thesis by (auto simp: Let_def)
  next
    case False
    then have "ascii (fst p) \<noteq> ascii name" using injD [OF inj_ascii] by blast
    with False Cons show ?thesis by (cases p) auto
  qed
qed simp

text \<open>The lines before the measurements.\<close>

definition filter_lines :: "byte list \<Rightarrow> byte list option \<Rightarrow> byte list list" where
  "filter_lines label f = (case f of None \<Rightarrow> [] | Some s \<Rightarrow> [label @ s @ [LF]])"

definition preamble_lines :: "options_t \<Rightarrow> byte list list" where
  "preamble_lines opts =
     (let iterations = fmt_zu (unat (op_iterations opts));
          connect_only = ascii (if op_connect_only opts then ''true'' else ''false'')
      in if op_mode opts = OUTPUT_TSV
         then [ascii ''format'' @ [HTAB] @ ascii ''tsv'' @ [HTAB] @ ascii ''v1'' @ [LF],
               ascii ''meta'' @ [HTAB] @ ascii ''iterations'' @ [HTAB] @ iterations @ [LF],
               ascii ''meta'' @ [HTAB] @ ascii ''connect_only'' @ [HTAB] @ connect_only @ [LF]] @
              filter_lines (ascii ''meta'' @ [HTAB] @ ascii ''scenario_filter'' @ [HTAB]) (op_scenario opts) @
              filter_lines (ascii ''meta'' @ [HTAB] @ ascii ''parser_filter'' @ [HTAB]) (op_parser opts) @
              [concat (map (\<lambda>s. ascii s @ [HTAB]) [''columns'', ''parser'', ''scenario'', ''kind'', ''len'', ''elapsed_ns'',
                 ''req_per_s'', ''mib_per_s'']) @ ascii ''ns_per_req'' @ [LF]]
         else [ascii ''Standalone throughput comparison benchmark'' @ [LF],
               ascii ''iterations: '' @ iterations @ [LF], ascii ''connect_only: '' @ connect_only @ [LF, LF]] @
              filter_lines (ascii ''scenario_filter: '') (op_scenario opts) @
              filter_lines (ascii ''parser_filter: '') (op_parser opts) @
              (if op_scenario opts = None \<and> op_parser opts = None then [] else [[LF]]) @
              [ascii ''parser               scenario     kind     len  elapsed_ns   req/s        MiB/s        ns/req    '' @
               [LF]])"

lemma print_filter_lines: "print_filter ok label f g = print_all ok (filter_lines label f) g"
  by (simp add: print_filter_def filter_lines_def split: option.split)

lemma heading_text:
  "fmt_left 20 (ascii ''parser'') @ SP # fmt_left 12 (ascii ''scenario'') @ SP # fmt_left 8 (ascii ''kind'') @
     SP # fmt_left 4 (ascii ''len'') @ SP # fmt_left 12 (ascii ''elapsed_ns'') @
     SP # fmt_left 12 (ascii ''req/s'') @ SP # fmt_left 12 (ascii ''MiB/s'') @
     SP # fmt_left 10 (ascii ''ns/req'') @ [LF] =
   ascii ''parser               scenario     kind     len  elapsed_ns   req/s        MiB/s        ns/req    '' @ [LF]"
  by code_simp

lemma preamble_printed:
  "(if op_mode opts = OUTPUT_TSV
    then tsv_preamble ok opts (print_out ok (ascii ''format'' @ TAB @ ascii ''tsv'' @ TAB @ ascii ''v1'' @ [LF]) g)
    else human_preamble ok opts g) = print_all ok (preamble_lines opts) g"
  by (simp add: preamble_lines_def tsv_preamble_def human_preamble_def Let_def print_filter_lines TAB_def endl_def
      labelled_def true_false_def heading_text)

text \<open>Arguments that are not accepted, and those for which a parser of this library runs.\<close>

definition traces :: "options_t \<Rightarrow> bool" where
  "traces opts \<longleftrightarrow> op_trace_parser opts \<noteq> None \<or> op_trace_scenario opts \<noteq> None"

lemma throughput_main_rejects:
  assumes "11 < length args \<or> (\<forall>opts. read_options args default_options = Inr opts \<longrightarrow> traces opts)"
  shows "\<exists>msg. throughput_main ok row ps prog args g = Some (2, print_err ok msg g)"
  using assms by (cases "read_options args default_options") (auto simp: throughput_main_def traces_def)

lemma throughput_main_runs:
  fixes g :: bench_globals
  assumes "length args \<le> 11" and "read_options args default_options = Inr opts" and "\<not> traces opts"
    and "op_parser opts = Some (ascii name)" and "name \<in> set library_entries"
  defines "chosen \<equiv> filter (selected (op_connect_only opts) (op_scenario opts)) compare_scenarios"
  defines "g' \<equiv> added ((1000 + unat (op_iterations opts)) * sum_list (map ts_len chosen)) g"
  shows "throughput_main ok row (parsers undef req resp pico llhttp) prog args g =
           (if op_mode opts = OUTPUT_TSV \<and> \<not> ok (bg_con g) then Some (2, g)
            else Some (0, print_all ok (preamble_lines opts @ map (row (op_mode opts) name) chosen @
                   [sink_line (op_mode opts) (bg_sink g')]) g'))"
proof -
  let ?ps = "parsers undef req resp pico llhttp"
  from assms(5) obtain fn where fn: "map_of ?ps name = Some fn"
    by (auto simp: library_entries_def parsers_def)
  have "distinct (map fst ?ps)" by (simp add: parsers_def)
  moreover have "list_all (parses fn) compare_scenarios"
    using library_entry_parses [OF map_of_SomeD [OF fn] assms(5)] by (simp add: list_all_iff)
  note run = run_parsers_one [OF fn \<open>distinct (map fst ?ps)\<close> this]
  show ?thesis
    using assms(1-4) by (simp add: throughput_main_def traces_def preamble_printed run chosen_def g'_def Let_def)
qed

end
