(* ===== verification/Ihtp_Limits.thy ===== *)
theory Ihtp_Limits
  imports Ihtp_Messages
begin

text \<open>
  How much input the request parser can ask for.  Where the policy rejects folded lines, every line
  and the number of fields are limited, and so is what a caller has to buffer; where it accepts
  them, a field can be continued without end.
\<close>

definition buffer_limit :: nat where
  "buffer_limit = (IHTP_MAX_REQUEST_LINE + 2) + IHTP_MAX_HEADERS * (IHTP_MAX_HEADER_LINE + 2) + IHTP_MAX_HEADER_LINE"

lemma eol_length: "eol_ok policy line eol \<Longrightarrow> length eol \<le> 2"
  by (auto simp: eol_ok_def)

section \<open>Without folded lines\<close>

lemma header_lines_length:
  assumes "header_lines policy mx p st ls st'" and "policy_flag reject_obs_fold policy" and "snd st \<le> mx"
  shows "snd st \<le> snd st' \<and> snd st' \<le> mx \<and> length ls \<le> (snd st' - snd st) * (IHTP_MAX_HEADER_LINE + 2)"
  using assms(1,3)
proof (induction rule: header_lines.induct)
  case (a_field line eol name raw c p hs ls st')
  then have ih: "Suc c \<le> snd st'" "snd st' \<le> mx"
    "length ls \<le> (snd st' - Suc c) * (IHTP_MAX_HEADER_LINE + 2)" by auto
  from a_field.hyps(1) have "length line + length eol \<le> IHTP_MAX_HEADER_LINE + 2"
    using eol_length [of policy line eol] by (auto simp: header_line_ok_def)
  moreover have "snd st' - c = Suc (snd st' - Suc c)" using ih(1) by simp
  ultimately show ?case using ih by simp
next
  case (a_fold line eol c p hs ls st')
  with assms(2) show ?case by (simp add: fold_line_def)
qed simp

lemma block_incomplete_length:
  assumes "p + n \<le> length mem" and "policy_flag reject_obs_fold policy"
    and "parse_header_block mem p n no_headers 0 0 IHTP_MAX_HEADERS policy = Some (IHTP_INCOMPLETE, hs', c', e)"
  shows "n \<le> IHTP_MAX_HEADERS * (IHTP_MAX_HEADER_LINE + 2) + IHTP_MAX_HEADER_LINE"
proof -
  have "headers_ok p p IHTP_MAX_HEADERS no_headers 0" by simp
  from header_block_incomplete_iff [OF assms(1) this order_refl, of 0 policy hs' c' e] assms(3)
  obtain ls rest where s: "span mem p n = ls @ rest"
    and lines: "header_lines policy IHTP_MAX_HEADERS p (no_headers, 0) ls (hs', c')"
    and rest: "rest = [] \<or> classify policy rest = Unfinished" by blast
  from header_lines_length [OF lines assms(2)] have "c' \<le> IHTP_MAX_HEADERS"
    and "length ls \<le> c' * (IHTP_MAX_HEADER_LINE + 2)" by auto
  then have "length ls \<le> IHTP_MAX_HEADERS * (IHTP_MAX_HEADER_LINE + 2)"
    by (meson le_trans mult_le_mono1)
  moreover have "length rest \<le> IHTP_MAX_HEADER_LINE" using rest by (auto simp: classify_Unfinished_iff)
  moreover have "n = length ls + length rest" using arg_cong [OF s, of length] assms(1) by simp
  ultimately show ?thesis by linarith
qed

lemma request_incomplete_length:
  assumes "p + n \<le> length mem" and "policy_flag reject_obs_fold (resolve_policy policy)"
    and "request_stateful mem p n policy (fresh_state IHTP_PARSER_MODE_REQUEST) zero_request =
           Some (IHTP_INCOMPLETE, st, req, k)"
  shows "n \<le> buffer_limit"
proof -
  let ?pol = "resolve_policy policy"
  from parse_request_line_in [OF assms(1), of zero_request ?pol] obtain r1 e where
    line: "parse_request_line mem p n zero_request ?pol = Some (request_line_status ?pol (span mem p n), r1, e)"
    and keep: "same_header_part zero_request r1" by blast
  show ?thesis
  proof (cases "request_line_status ?pol (span mem p n) = IHTP_OK")
    case False
    with line assms(3) have "request_line_status ?pol (span mem p n) = IHTP_INCOMPLETE"
      by (auto simp: request_stateful_def request_start_line_def fresh_state_def initial_phase_def Let_def)
    then have "length (span mem p n) \<le> IHTP_MAX_REQUEST_LINE"
      by (auto simp: request_line_status_def split: sum.splits ihtp_status_t.splits prod.splits if_splits)
    with assms(1) show ?thesis by (simp add: buffer_limit_def)
  next
    case True
    with line request_line_OK_iff [OF assms(1), of zero_request ?pol r1 e] obtain l eol rest m t v where
      s: "span mem p n = l @ eol @ rest" "eol_ok ?pol l eol" "length l \<le> IHTP_MAX_REQUEST_LINE"
      and e: "e = length l + length eol" by auto
    have "e \<le> n" using arg_cong [OF s(1), of length] assms(1) e by simp
    have small: "e \<le> IHTP_MAX_REQUEST_LINE + 2" using s(3) eol_length [OF s(2)] e by simp
    have "req_headers r1 = no_headers" "req_num_headers r1 = 0" using keep by (simp_all add: same_header_part_def)
    with line True assms(3) \<open>e \<le> n\<close> obtain hs c e2 where
      "parse_header_block mem (p + e) (n - e) no_headers 0 0 IHTP_MAX_HEADERS ?pol = Some (IHTP_INCOMPLETE, hs, c, e2)"
      by (auto simp: request_stateful_def request_start_line_def request_headers_def fresh_state_def initial_phase_def
          Let_def bind_eq_Some_conv split: if_splits prod.splits)
    from block_incomplete_length [OF _ assms(2) this] \<open>e \<le> n\<close> assms(1) small show ?thesis
      by (simp add: buffer_limit_def)
  qed
qed

section \<open>With folded lines\<close>

definition folded_start :: "nat \<Rightarrow> byte list" where
  "folded_start k = ascii ''GET / HTTP/1.1'' @ [CR, LF] @ ascii ''A:'' @ [CR, LF] @ concat (replicate k [SP, CR, LF])"

lemma header_lines_folds:
  assumes "\<not> policy_flag reject_obs_fold policy" and "c \<noteq> 0"
  shows "\<exists>hs'. header_lines policy mx p (hs, c) (concat (replicate k [SP, CR, LF])) (hs', c)"
proof (induction k arbitrary: p hs)
  case 0
  show ?case by (rule exI) (simp, rule header_lines.no_line)
next
  case (Suc k)
  have "header_line_ok policy [SP] [CR, LF]" by (simp add: header_line_ok_def eol_ok_def IHTP_MAX_HEADER_LINE_def)
  moreover have "fold_line policy [SP]" using assms(1) by (simp add: fold_line_def ihtp_is_lws_def text_byte_def)
  ultimately show ?case
    using Suc.IH header_lines.a_fold [OF _ _ assms(2), of policy "[SP]" "[CR, LF]"] by fastforce
qed

lemma folds_incomplete:
  assumes "\<not> policy_flag reject_obs_fold (resolve_policy policy)"
  shows "\<exists>st req k'. request_stateful (folded_start k) 0 (length (folded_start k)) policy
           (fresh_state IHTP_PARSER_MODE_REQUEST) zero_request = Some (IHTP_INCOMPLETE, st, req, k')"
proof -
  let ?pol = "resolve_policy policy" and ?mem = "folded_start k" and ?line = "ascii ''GET / HTTP/1.1''"
  let ?n = "length ?mem" and ?folds = "concat (replicate k [SP, CR, LF])"
  have b: "0 + ?n \<le> length ?mem" by simp
  have s: "span ?mem 0 ?n = ?line @ [CR, LF] @ (ascii ''A:'' @ [CR, LF] @ ?folds)"
    by (simp add: span_def folded_start_def)
  have "request_line_of ?pol ?line (ascii ''GET'') (ascii ''/'') IHTP_HTTP_11"
    by (simp add: request_line_of_def ascii_def tchar_def is_alpha_def target_byte_def)
  moreover have "eol_ok ?pol ?line [CR, LF]" "length ?line \<le> IHTP_MAX_REQUEST_LINE"
    by (simp_all add: eol_ok_def ascii_def IHTP_MAX_REQUEST_LINE_def)
  moreover have "16 = length ?line + length [CR, LF]" by (simp add: ascii_def)
  moreover define r1 where "r1 = zero_request\<lparr> req_method_str := Some 0, req_method_len := length (ascii ''GET''),
      req_method := method_of_bytes (ascii ''GET''), req_path := Some (0 + length (ascii ''GET'') + 1),
      req_path_len := length (ascii ''/''), req_version := IHTP_HTTP_11 \<rparr>"
  ultimately have line: "parse_request_line ?mem 0 ?n zero_request ?pol = Some (IHTP_OK, r1, 16)"
    using request_line_OK_iff [OF b, of zero_request ?pol r1 16] s by blast
  have r1: "req_headers r1 = no_headers" "req_num_headers r1 = 0" by (simp_all add: r1_def)
  have s2: "span ?mem 16 (?n - 16) = (ascii ''A:'' @ [CR, LF]) @ ?folds"
    by (simp add: span_def folded_start_def ascii_def)
  have f: "field_line (ascii ''A:'') (ascii ''A'') []"
    by (simp add: field_line_def ascii_def tchar_def is_alpha_def trim_ows_def ltrim_def rtrim_def)
  have l: "header_line_ok ?pol (ascii ''A:'') [CR, LF]"
    by (simp add: header_line_ok_def eol_ok_def IHTP_MAX_HEADER_LINE_def ascii_def)
  have "Suc 0 \<noteq> 0" by simp
  from header_lines_folds [OF assms this, of IHTP_MAX_HEADERS "16 + length (ascii ''A:'') + length [CR, LF]"
      "no_headers[0 := field_header 16 (length (ascii ''A'')) []]" k] obtain hs' where
    "header_lines ?pol IHTP_MAX_HEADERS (16 + length (ascii ''A:'') + length [CR, LF])
       (no_headers[0 := field_header 16 (length (ascii ''A'')) []], Suc 0) ?folds (hs', 1)" by auto
  from header_lines.a_field [OF l f _ this] have lines:
    "header_lines ?pol IHTP_MAX_HEADERS 16 (no_headers, 0) (ascii ''A:'' @ [CR, LF] @ ?folds) (hs', Suc 0)"
    by (simp add: IHTP_MAX_HEADERS_def)
  have "16 + (?n - 16) \<le> length ?mem" "headers_ok 16 16 IHTP_MAX_HEADERS no_headers 0"
    by (simp_all add: folded_start_def ascii_def)
  note iff = header_block_incomplete_iff [OF this order_refl, of 0 ?pol hs' "Suc 0" "?n - 16"]
  have "?n - 16 = length (ascii ''A:'' @ [CR, LF] @ ?folds)" by (simp add: folded_start_def ascii_def)
  with lines s2 have "parse_header_block ?mem 16 (?n - 16) no_headers 0 0 IHTP_MAX_HEADERS ?pol =
      Some (IHTP_INCOMPLETE, hs', Suc 0, ?n - 16)"
    by (intro iffD2 [OF iff] exI [where x = "ascii ''A:'' @ [CR, LF] @ ?folds"] exI [where x = "[]"] conjI) simp_all
  moreover have "size_sub ?n 16 = ?n - 16" by (simp add: folded_start_def ascii_def)
  ultimately show ?thesis
    using line r1 by (simp add: request_stateful_def request_start_line_def request_headers_def fresh_state_def initial_phase_def
        Let_def)
qed

lemma folded_start_length: "k \<le> length (folded_start k)"
proof -
  have "k \<le> length (concat (replicate k [SP, CR, LF]))" by (induction k) auto
  then show ?thesis by (simp add: folded_start_def)
qed

end
