(* ===== verification/Spec2Isabelle.thy ===== *)
theory Spec2Isabelle
  imports Ihtp_Semantics Ihtp_Stream Ihtp_Mains Ihtp_Throughput Ihtp_Limits
begin

text \<open>
  A verification development for iohttpparser, a zero-copy HTTP/1.1 wire parser in C.

  The program.  A caller owns a buffer of received bytes.  The parser (src/ihtp_parser.c) reads a
  request, a response or a header block from it and records positions in the buffer; it is
  incremental, through an explicit parser state, or stateless.  The semantics layer
  (src/ihtp_semantics.c) reads the recorded headers and decides how the body is framed, whether the
  connection persists, whether the protocol changes.  The body decoders (src/ihtp_body_decoder.c)
  then remove the framing.  Below all of them are character tables and the scanner backends with
  their run-time dispatch (src/ihtp_scanner_scalar.c, _avx2.c, _sse42.c).

  Conventions.  Memory is a byte list, a pointer into it an offset, a pointer that may be null an
  option; a C function is a function into \<open>'a ub\<close> whose \<open>None\<close> is undefined behaviour (a read or
  write outside the buffer, a null dereference).  Bytes and 64-bit counters are words; \<open>size_t\<close>
  values are natural numbers, with the wrap-around of a subtraction written out (\<open>size_sub\<close>).  A C
  loop is a recursive function with a termination proof, a struct a record, an enum a datatype; an
  object behind a pointer is passed in and returned updated.

  Theories.
  Ihtp_Prelude: memory, checked reads, the C library routines, list positions, and the two
  collections of rules (evaluation of leaf routines, monotonicity in the readable memory).
  Ihtp_Types: include/iohttpparser/ihtp_types.h.
  Ihtp_Chars: the token table and the inline predicates; the table is the tchar set of RFC 9110.
  Ihtp_Scanner, Ihtp_Dispatch: the backends, the dispatch table and the public scanner API; the
  locales \<open>token_scanner\<close>, \<open>delim_scanner\<close>, \<open>scanner_backend\<close> state what clients may rely on, and
  every table the dispatcher can select is shown to provide it.
  Ihtp_Bench: the scanner benchmark bench/bench_parser.c, its cases, loops and sums.
  Ihtp_Text: request-target and field-text validation, with the eight-byte (SWAR) loops.
  Ihtp_Lines: line ends, names, trimming, methods.
  Ihtp_Startline: request line and status line, against a reference definition and a grammar.
  Ihtp_Headers: the header block; its lines as an inductive grammar; resuming an incomplete block.
  Ihtp_Parser: parser state and entry points.
  Ihtp_Incremental: the locale \<open>incremental_parser\<close> is the contract of a stateful entry point
  (safe, monotone, framed, resumable, stable), from which feeding in chunks equals one call;
  \<open>message_parser\<close> is the common structure from which the three parsers of the code get it.
  Ihtp_Messages: what the stateless entry points accept, as a grammar of whole messages; printing.
  Ihtp_Limits: how much input an incomplete request can hold, without and with folded lines.
  Ihtp_Fields: Content-Length, and the lists of Transfer-Encoding, Connection, Trailer, and Expect.
  Ihtp_Semantics: the two functions of the semantics layer, evaluated to a decision on field texts.
  Ihtp_Body: the body decoders; the chunked one, which moves payload inside the caller's buffer, is
  refined to an automaton on bytes, and returns exactly for the states that have a case.
  Ihtp_Chunked: the chunked grammar as inductive relations; the automaton is sound (a relation with
  one rule per state says what was read), complete (runs over whole chunks) and never rejects a
  prefix that can be continued.  The locale \<open>stream_decoder\<close> is the contract of a decoder that is
  called on successive fragments.
  Ihtp_Stream: calls of the decoders on buffers and fragments; encoding a body.
  Ihtp_Printing: printed messages at any position of a buffer, requests and responses.
  Ihtp_Consumers: programs on top of the library, from bench/bench_extended_contract.c (server and
  proxy scenarios: keep-alive, pipelining, trailers, upgrade, CONNECT) and the parser entries of
  bench/bench_throughput_compare.c, evaluated on printed messages.
  Ihtp_Scenarios: the wires and the scenario table of bench_extended_contract.c.
  Ihtp_Examples: the programs of examples/ with what they print, and the version functions.
  Ihtp_Programs: what the benchmark programs share: output, \<open>strtoull\<close>, formats.
  Ihtp_Wires: the wires and the table of bench/bench_throughput_compare.c; each wire is one message,
  shown from conditions on its texts that are quick to evaluate.
  Ihtp_Throughput: that program: parser table, loops, options, output; what it adds up.
  Ihtp_Mains: the programs of bench_parser.c and bench_extended_contract.c around their loops.
  This theory states the properties and their witnesses on concrete inputs.

  Bounds.  No fuel is used: every loop terminates by a measure, except the loop of the chunked
  decoder, a partial function, because the code itself does not return for some decoders.  The
  size limits are the default values of the macros (64 headers, 8192 bytes per line).  Lengths and
  offsets are natural numbers; a property assumes only that the range it passes lies inside the
  memory, and, where it reads the number of bytes behind a chunked body off the status, that the
  range has fewer than 2^31 bytes.

  Programs.  A \<open>main\<close> of examples/ is a function from what has been written to the exit code and
  what has been written; which writes succeed is a parameter, and a transcript is what a program that
  only prints would do.  Uninitialised objects (parser states, decoders, buffers on the stack) are
  arguments, so a property holds whatever they contain.

  Parameters.  The PCMPESTRI instruction, with its documented behaviour as the hypothesis
  \<open>cmpestri_documented\<close>; the build flags and the processor's feature bits, unconstrained; llhttp and
  picohttpparser (third-party code under tests/third_party), of which nothing is assumed; the printed
  lines with measured times.

  Not modelled.  The performance counters and the tracing mode that prints them (off by default, no
  effect on results); the clock and the rates computed from it in floating point; tests and fuzzers.
\<close>

section \<open>Sample inputs for the witnesses\<close>

definition sample_fields :: "(byte list \<times> byte list) list" where
  "sample_fields = [(ascii ''Host'', ascii ''a'')]"

definition sample_request :: mem where
  "sample_request = render_request (ascii ''GET'') (ascii ''/'') IHTP_HTTP_11 sample_fields"

definition sample_response :: mem where
  "sample_response = ascii ''HTTP/1.1 200 OK'' @ [CR, LF, CR, LF]"

definition sample_state :: ihtp_parser_state_t where
  "sample_state = \<lparr> ps_mode = IHTP_PARSER_MODE_HEADERS, ps_phase = IHTP_PARSER_PHASE_ERROR, ps_cursor = 7 \<rparr>"

lemma sample_lengths [simp]: "length sample_request = 27" "length sample_response = 19"
  by code_simp+

lemma sample_parts: "request_parts_ok (resolve_policy policy) (ascii ''GET'') (ascii ''/'') sample_fields"
  unfolding request_parts_ok_def by (intro conjI; code_simp?)

text \<open>
  C1. A stateless request parse returns IHTP_OK exactly on the buffers that start with a request of
  the grammar (request line within its limit, header lines, empty line), and the request and the
  byte count it returns are the ones the grammar gives: method, target, version and every header by
  position.
\<close>

theorem request_accepts:
  assumes "p + n \<le> length mem"
  shows "ihtp_parse_request undef mem (Some p) n (Some r) policy (Some b) =
             Some (IHTP_OK, Some req, Some k) \<longleftrightarrow>
           request_message (resolve_policy policy) p (span mem p n) req k"
  using assms by (rule request_grammar)

lemma request_accepts_witness:
  "ihtp_parse_request sample_state sample_request (Some 0) 27 (Some zero_request) None (Some 0) =
     Some (IHTP_OK, Some (printed_request 0 (ascii ''GET'') (ascii ''/'') IHTP_HTTP_11 sample_fields), Some 27)"
  using request_accepts [of 0 27 sample_request] printed_request_message [OF sample_parts [of None], of 0 IHTP_HTTP_11 "[]"]
  by (simp flip: sample_request_def)

text \<open>
  C8. A stateless response parse returns IHTP_OK exactly on the buffers that start with a response
  of the grammar, with the response and byte count the grammar gives.
\<close>

theorem response_accepts:
  assumes "p + n \<le> length mem"
  shows "ihtp_parse_response undef mem (Some p) n (Some r) policy (Some b) =
             Some (IHTP_OK, Some resp, Some k) \<longleftrightarrow>
           response_message (resolve_policy policy) p (span mem p n) resp k"
  using assms by (rule response_grammar)

lemma response_accepts_witness:
  "\<exists>resp. response_message (Some IHTP_POLICY_STRICT) 0 sample_response resp 19"
proof -
  have "map_option (\<lambda>(st, r, k). (st, r \<noteq> None, k))
      (ihtp_parse_response sample_state sample_response (Some 0) 19 (Some zero_response) None (Some 0)) =
      Some (IHTP_OK, True, Some 19)" by code_simp
  then obtain resp where "ihtp_parse_response sample_state sample_response (Some 0) 19 (Some zero_response)
      None (Some 0) = Some (IHTP_OK, Some resp, Some 19)" by auto
  then show ?thesis
    using response_accepts [of 0 19 sample_response sample_state zero_response None 0 resp 19]
    by (auto simp: resolve_policy_def)
qed

text \<open>
  C7. Printing a request from its method, target, version and fields and parsing it gives back the
  same method, target, version and fields, in order, whatever bytes follow.
\<close>

theorem request_roundtrip:
  fixes v :: ihtp_http_version_t
  assumes "request_parts_ok (resolve_policy policy) m t fs"
  defines "wire \<equiv> render_request m t v fs"
  shows "ihtp_parse_request undef (wire @ rest) (Some 0) (length (wire @ rest)) (Some r) policy (Some b) =
           Some (IHTP_OK, Some (printed_request 0 m t v fs), Some (length wire)) \<and>
         reads_back (wire @ rest) (printed_request 0 m t v fs) m t v fs"
  using printed_request_message [OF assms(1), of 0 v rest] printed_request_reads_back [OF assms(1), of v rest]
  by (simp add: request_grammar wire_def)

lemma request_roundtrip_witness:
  "reads_back (sample_request @ [0x41]) (printed_request 0 (ascii ''GET'') (ascii ''/'') IHTP_HTTP_11 sample_fields)
     (ascii ''GET'') (ascii ''/'') IHTP_HTTP_11 sample_fields"
  using request_roundtrip [OF sample_parts [of None], of sample_state IHTP_HTTP_11 "[0x41]" zero_request 0]
  by (simp flip: sample_request_def)

text \<open>
  C2. Feeding a request to the stateful parser in any chunks, each call on everything received so
  far, ends with the status and byte count of one stateless call on the whole input, and with its
  request when that is complete or incomplete (a rejected input delivers no request), unless a
  prefix of it is rejected as too long; no call reads outside the received bytes.
\<close>

theorem request_chunking:
  assumes "chunks \<noteq> []"
  shows "\<exists>st s req k. feed (request_parse policy) [] chunks
             (the (ihtp_parser_state_init (Some undef) IHTP_PARSER_MODE_REQUEST), zero_request) =
               Some (st, (s, req), k) \<and>
           (st \<noteq> IHTP_ERROR_TOO_LONG \<longrightarrow>
              (\<exists>req1. ihtp_parse_request undef' (concat chunks) (Some 0) (length (concat chunks)) (Some r)
                        policy (Some b) = Some (st, Some req1, Some k) \<and>
                      (st = IHTP_OK \<or> st = IHTP_INCOMPLETE \<longrightarrow> req1 = req)))"
proof -
  let ?c = "(fresh_state IHTP_PARSER_MODE_REQUEST, zero_request)"
  from request_inc.feed_chunks [of ?c chunks policy] assms
  obtain st s req k where f: "feed (request_parse policy) [] chunks ?c = Some (st, (s, req), k)"
    and one: "st \<noteq> IHTP_ERROR_TOO_LONG \<longrightarrow> (\<exists>r. request_parse policy (concat chunks) (length (concat chunks)) ?c
      = Some r \<and> same_outcome config_phase r (st, (s, req), k))" by fastforce
  from one f show ?thesis
    by (auto simp: state_init_fresh parse_request_nonnull request_parse_def same_outcome_def regroup_def
        split: prod.splits)
qed

lemma request_chunking_witness:
  "\<exists>st s req k. feed (request_parse None) [] [take 5 sample_request, drop 5 sample_request]
       (the (ihtp_parser_state_init (Some sample_state) IHTP_PARSER_MODE_REQUEST), zero_request) =
         Some (st, (s, req), k)"
  using request_chunking [of "[take 5 sample_request, drop 5 sample_request]" None sample_state sample_state zero_request 0]
  by blast

text \<open>
  C9. Feeding a response in any chunks ends with the status and byte count of one stateless call on
  the whole, and with its response when that is complete or incomplete, unless a prefix is rejected
  as too long.
\<close>

theorem response_chunking:
  assumes "chunks \<noteq> []"
  shows "\<exists>st s resp k. feed (response_parse policy) [] chunks
             (the (ihtp_parser_state_init (Some undef) IHTP_PARSER_MODE_RESPONSE), zero_response) =
               Some (st, (s, resp), k) \<and>
           (st \<noteq> IHTP_ERROR_TOO_LONG \<longrightarrow>
              (\<exists>resp1. ihtp_parse_response undef' (concat chunks) (Some 0) (length (concat chunks)) (Some r)
                         policy (Some b) = Some (st, Some resp1, Some k) \<and>
                       (st = IHTP_OK \<or> st = IHTP_INCOMPLETE \<longrightarrow> resp1 = resp)))"
proof -
  let ?c = "(fresh_state IHTP_PARSER_MODE_RESPONSE, zero_response)"
  from response_inc.feed_chunks [of ?c chunks policy] assms
  obtain st s req k where f: "feed (response_parse policy) [] chunks ?c = Some (st, (s, req), k)"
    and one: "st \<noteq> IHTP_ERROR_TOO_LONG \<longrightarrow> (\<exists>r. response_parse policy (concat chunks) (length (concat chunks)) ?c
      = Some r \<and> same_outcome config_phase r (st, (s, req), k))" by fastforce
  from one f show ?thesis
    by (auto simp: state_init_fresh parse_response_nonnull response_parse_def same_outcome_def regroup_def
        split: prod.splits)
qed

lemma response_chunking_witness:
  "\<exists>st s resp k. feed (response_parse None) [] [take 5 sample_response, drop 5 sample_response]
       (the (ihtp_parser_state_init (Some sample_state) IHTP_PARSER_MODE_RESPONSE), zero_response) =
         Some (st, (s, resp), k)"
  using response_chunking [of "[take 5 sample_response, drop 5 sample_response]" None sample_state sample_state zero_response 0]
  by blast

text \<open>
  C10. Feeding a header block (a trailer section) in any chunks into an array of any capacity ends
  with the status and byte count of one stateless call on the whole, and with its headers and their
  number when the block is complete or incomplete, unless a prefix is rejected as too long.
\<close>

theorem headers_chunking:
  assumes "chunks \<noteq> []" and "length hs = mx"
  shows "\<exists>st s hs' c k. feed (headers_parse mx policy) [] chunks
             (the (ihtp_parser_state_init (Some undef) IHTP_PARSER_MODE_HEADERS), (hs, 0)) =
               Some (st, (s, (hs', c)), k) \<and>
           (st \<noteq> IHTP_ERROR_TOO_LONG \<longrightarrow>
              (\<exists>hs1 c1. ihtp_parse_headers undef' (concat chunks) (Some 0) (length (concat chunks)) (Some hs)
                          (Some mx) policy (Some b) = Some (st, Some hs1, Some c1, Some k) \<and>
                        (st = IHTP_OK \<or> st = IHTP_INCOMPLETE \<longrightarrow> (hs1, c1) = (hs', c))))"
proof -
  let ?c = "(fresh_state IHTP_PARSER_MODE_HEADERS, (hs, 0))"
  have "config_ready id mx 0 ?c" using assms(2) by simp
  from headers_inc.feed_chunks [OF this assms(1), of policy]
  obtain st s hs' c k where f: "feed (headers_parse mx policy) [] chunks ?c = Some (st, (s, (hs', c)), k)"
    and one: "st \<noteq> IHTP_ERROR_TOO_LONG \<longrightarrow> (\<exists>r. headers_parse mx policy (concat chunks) (length (concat chunks)) ?c
      = Some r \<and> same_outcome config_phase r (st, (s, (hs', c)), k))" by fastforce
  have entry: "ihtp_parse_headers undef' mem (Some 0) n (Some hs) (Some mx) policy (Some b) =
      do { (st, s, (hs', c'), k) \<leftarrow> headers_stateful mem 0 n mx policy (fresh_state IHTP_PARSER_MODE_HEADERS) (hs, 0);
           Some (st, Some hs', Some c', Some k) }" for mem n
    by (cases "headers_stateful mem 0 n mx policy (fresh_state IHTP_PARSER_MODE_HEADERS) (hs, 0)")
      (auto simp: ihtp_parse_headers_def state_init_fresh ihtp_parse_headers_stateful_def fresh_state_def)
  from one f show ?thesis
    by (auto simp: state_init_fresh entry headers_parse_def same_outcome_def regroup_def split: prod.splits)
qed

lemma headers_chunking_witness:
  "\<exists>st s hs' c k. feed (headers_parse 1 None) [] [[CR], [LF]]
       (the (ihtp_parser_state_init (Some sample_state) IHTP_PARSER_MODE_HEADERS), ([zero_header], 0)) =
         Some (st, (s, (hs', c)), k)"
  using headers_chunking [of "[[CR], [LF]]" "[zero_header]" 1 None sample_state sample_state 0]
  by auto

text \<open>
  C11. A stateful request call on a ready parser never has undefined behaviour and leaves a ready
  parser, with every recorded header inside the parsed bytes; the phase only advances, the status
  tells the phase, and bytes are consumed only on IHTP_OK.
\<close>

theorem request_call_safe:
  assumes "ps_mode s = IHTP_PARSER_MODE_REQUEST"
    and "config_ready req_hdrs IHTP_MAX_HEADERS n (s, req)" and "n \<le> length mem"
  shows "\<exists>st s' req' k.
           ihtp_parse_request_stateful mem (Some s) (Some 0) n (Some req) policy (Some b) =
             Some (st, Some s', Some req', Some k) \<and>
           config_ready req_hdrs IHTP_MAX_HEADERS n (s', req') \<and> ps_phase s \<le> ps_phase s' \<and>
           (if st = IHTP_OK then ps_phase s' = IHTP_PARSER_PHASE_DONE \<and> k \<le> n
            else k = 0 \<and> (if st = IHTP_INCOMPLETE then ps_phase s' < IHTP_PARSER_PHASE_DONE
                          else ps_phase s' = IHTP_PARSER_PHASE_ERROR))"
proof -
  from request_inc.parse_safe [OF assms(2,3), of policy] obtain st s' req' k
    where "request_parse policy mem n (s, req) = Some (st, (s', req'), k)"
      and shape: "outcome_shape config_phase (config_ready req_hdrs IHTP_MAX_HEADERS) n (s, req) (st, (s', req'), k)"
    by fastforce
  then have "request_stateful mem 0 n policy s req = Some (st, s', req', k)"
    by (auto simp: request_parse_def regroup_def split: prod.splits)
  with assms(1) shape show ?thesis
    by (auto simp: ihtp_parse_request_stateful_def outcome_shape_def config_phase_def split: if_splits)
qed

lemma request_call_safe_witness:
  "\<exists>st s' req' k.
     ihtp_parse_request_stateful sample_request (Some (fresh_state IHTP_PARSER_MODE_REQUEST)) (Some 0) 9
       (Some zero_request) None (Some 0) = Some (st, Some s', Some req', Some k)"
  using request_call_safe [of "fresh_state IHTP_PARSER_MODE_REQUEST" 9 zero_request sample_request None 0]
    config_ready_mono [OF fresh_ready(1), of 9 IHTP_PARSER_MODE_REQUEST]
  by (auto simp: fresh_state_def)

lemma response_call_safe:
  assumes "ps_mode s = IHTP_PARSER_MODE_RESPONSE"
    and "config_ready resp_hdrs IHTP_MAX_HEADERS n (s, resp)" and "n \<le> length mem"
  shows "\<exists>st s' resp' k.
           ihtp_parse_response_stateful mem (Some s) (Some 0) n (Some resp) policy (Some b) =
             Some (st, Some s', Some resp', Some k) \<and>
           config_ready resp_hdrs IHTP_MAX_HEADERS n (s', resp') \<and> ps_phase s \<le> ps_phase s' \<and>
           (if st = IHTP_OK then ps_phase s' = IHTP_PARSER_PHASE_DONE \<and> k \<le> n
            else k = 0 \<and> (if st = IHTP_INCOMPLETE then ps_phase s' < IHTP_PARSER_PHASE_DONE
                          else ps_phase s' = IHTP_PARSER_PHASE_ERROR))"
proof -
  from response_inc.parse_safe [OF assms(2,3), of policy] obtain st s' resp' k
    where "response_parse policy mem n (s, resp) = Some (st, (s', resp'), k)"
      and shape: "outcome_shape config_phase (config_ready resp_hdrs IHTP_MAX_HEADERS) n (s, resp) (st, (s', resp'), k)"
    by fastforce
  then have "response_stateful mem 0 n policy s resp = Some (st, s', resp', k)"
    by (auto simp: response_parse_def regroup_def split: prod.splits)
  with assms(1) shape show ?thesis
    by (auto simp: ihtp_parse_response_stateful_def outcome_shape_def config_phase_def split: if_splits)
qed

lemma response_call_safe_witness:
  "\<exists>st s' resp' k.
     ihtp_parse_response_stateful sample_response (Some (fresh_state IHTP_PARSER_MODE_RESPONSE)) (Some 0) 9
       (Some zero_response) None (Some 0) = Some (st, Some s', Some resp', Some k)"
  using response_call_safe [of "fresh_state IHTP_PARSER_MODE_RESPONSE" 9 zero_response sample_response None 0]
    config_ready_mono [OF fresh_ready(2), of 9 IHTP_PARSER_MODE_RESPONSE]
  by (auto simp: fresh_state_def)

text \<open>
  C13. The same for a stateful header-block call, for an array of any capacity: the count never
  exceeds the capacity and every recorded header lies inside the parsed bytes.
\<close>

theorem headers_call_safe:
  assumes "ps_mode s = IHTP_PARSER_MODE_HEADERS"
    and "config_ready id mx n (s, (hs, c))" and "n \<le> length mem"
  shows "\<exists>st s' hs' c' k.
           ihtp_parse_headers_stateful mem (Some s) (Some 0) n (Some hs) (Some c) mx policy (Some b) =
             Some (st, Some s', Some hs', Some c', Some k) \<and>
           config_ready id mx n (s', (hs', c')) \<and> ps_phase s \<le> ps_phase s' \<and>
           (if st = IHTP_OK then ps_phase s' = IHTP_PARSER_PHASE_DONE \<and> k \<le> n
            else k = 0 \<and> (if st = IHTP_INCOMPLETE then ps_phase s' < IHTP_PARSER_PHASE_DONE
                          else ps_phase s' = IHTP_PARSER_PHASE_ERROR))"
proof -
  from headers_inc.parse_safe [OF assms(2,3), of policy] obtain st s' hs' c' k
    where "headers_parse mx policy mem n (s, (hs, c)) = Some (st, (s', (hs', c')), k)"
      and shape: "outcome_shape config_phase (config_ready id mx) n (s, (hs, c)) (st, (s', (hs', c')), k)"
    by fastforce
  then have "headers_stateful mem 0 n mx policy s (hs, c) = Some (st, s', (hs', c'), k)"
    by (auto simp: headers_parse_def regroup_def split: prod.splits)
  with assms(1) shape show ?thesis
    by (auto simp: ihtp_parse_headers_stateful_def outcome_shape_def config_phase_def split: if_splits)
qed

lemma headers_call_safe_witness:
  "\<exists>st s' hs' c' k.
     ihtp_parse_headers_stateful [0x41, CR, LF] (Some (fresh_state IHTP_PARSER_MODE_HEADERS)) (Some 0) 3
       (Some [zero_header]) (Some 0) 1 None (Some 0) = Some (st, Some s', Some hs', Some c', Some k)"
  using headers_call_safe [of "fresh_state IHTP_PARSER_MODE_HEADERS" 1 3 "[zero_header]" 0 "[0x41, CR, LF]" None 0]
    config_ready_mono [OF fresh_ready(3) [of "[zero_header]" 1 IHTP_PARSER_MODE_HEADERS], of 3]
  by (auto simp: fresh_state_def)

text \<open>
  C15. A parser in phase ERROR answers every further chunk with IHTP_ERROR and changes nothing, for
  all three parsers; a reset makes it as good as freshly initialised in its mode.
\<close>

theorem failed_parser_stays_failed:
  assumes "ps_phase s = IHTP_PARSER_PHASE_ERROR" and "chunks \<noteq> []"
  shows "feed (request_parse policy) buf chunks (s, req) = Some (IHTP_ERROR, (s, req), 0) \<and>
    feed (response_parse policy) buf chunks (s, resp) = Some (IHTP_ERROR, (s, resp), 0) \<and>
    feed (headers_parse mx policy) buf chunks (s, hs) = Some (IHTP_ERROR, (s, hs), 0) \<and>
    ihtp_parser_state_reset (Some s) = Some (fresh_state (ps_mode s))"
proof (cases chunks)
  case (Cons x xs)
  with assms request_inc.feed_error [of "(s, req)" policy buf x xs] response_inc.feed_error [of "(s, resp)" policy buf x xs]
    headers_inc.feed_error [of "(s, hs)" mx policy buf x xs]
  show ?thesis by (cases s) (simp add: config_phase_def ihtp_parser_state_reset_def fresh_state_def)
qed (use assms in simp)

lemma failed_parser_stays_failed_witness:
  "feed (request_parse None) [] [sample_request] (sample_state, zero_request) =
     Some (IHTP_ERROR, (sample_state, zero_request), 0)"
proof -
  have "ps_phase sample_state = IHTP_PARSER_PHASE_ERROR" by (simp add: sample_state_def)
  from failed_parser_stays_failed [OF this, of "[sample_request]"] show ?thesis by blast
qed

text \<open>
  C16. parse_header_block returns IHTP_OK exactly when the buffer starts with header lines of the
  grammar (fields and, if the policy allows, folded continuations) and an empty line; the array, the
  count and the block length are the ones the lines define.
\<close>

theorem header_block_accepts:
  assumes "p + n \<le> length mem" and "headers_ok lo p mx hs c" and "lo \<le> p"
  shows "parse_header_block mem p n hs c num mx policy = Some (IHTP_OK, hs', c', e) \<longleftrightarrow>
           (\<exists>ls eol rest. span mem p n = ls @ eol @ rest \<and> header_lines policy mx p (hs, c) ls (hs', c') \<and>
              eol_ok policy [] eol \<and> e = length ls + length eol)"
  using assms by (rule header_block_ok_iff)

lemma header_block_accepts_witness:
  "parse_header_block [CR, LF] 0 2 [zero_header] 0 0 1 None = Some (IHTP_OK, [zero_header], 0, 2)"
proof -
  have "span [CR, LF] 0 2 = [] @ [CR, LF] @ []" by (simp add: span_def)
  moreover have "header_lines None 1 0 ([zero_header], 0) [] ([zero_header], 0)" by (rule no_line)
  moreover have "eol_ok None [] [CR, LF]" by (simp add: eol_ok_def)
  ultimately have "\<exists>ls eol rest. span [CR, LF] 0 2 = ls @ eol @ rest \<and>
      header_lines None 1 0 ([zero_header], 0) ls ([zero_header], 0) \<and>
      eol_ok None [] eol \<and> 2 = length ls + length eol"
    by (intro exI [of _ "[]"] exI [of _ "[CR, LF]"]) simp
  then show ?thesis
    using header_block_accepts [of 0 2 "[CR, LF]" 0 1 "[zero_header]" 0 0 None "[zero_header]" 0 2] by simp
qed

text \<open>
  C17. An INCOMPLETE header block commits whole lines: continuing behind them on a longer buffer
  gives the status and headers of parsing the longer buffer from its start, and, when that is
  complete or incomplete, the same number of headers and block lengths that add up.
\<close>

theorem header_block_resumes:
  assumes "parse_header_block mem p n1 hs c num mx policy = Some (IHTP_INCOMPLETE, hs1, c1, e1)"
    and "n1 \<le> n2" and "p + n2 \<le> length mem" and "headers_ok lo p mx hs c" and "lo \<le> p"
  shows "\<exists>st hs2 hs3 c2 c3 e2 e3.
           parse_header_block mem p n2 hs c num mx policy = Some (st, hs2, c2, e2) \<and>
           parse_header_block mem (p + e1) (n2 - e1) hs1 c1 c1 mx policy = Some (st, hs3, c3, e3) \<and>
           hs3 = hs2 \<and> (st = IHTP_OK \<or> st = IHTP_INCOMPLETE \<longrightarrow> c3 = c2 \<and> e2 = e1 + e3)"
  using header_block_resume [OF assms, of c1] by (auto simp: block_shifted_def)

lemma header_block_resumes_witness:
  "\<exists>st hs2 c2 e2. parse_header_block [0x41, COLON, CR, LF, CR, LF] 0 6 [zero_header] 0 0 1 None =
     Some (st, hs2, c2, e2)"
proof -
  have "parse_header_block [0x41, COLON, CR, LF, CR, LF] 0 5 [zero_header] 0 0 1 None =
      Some (IHTP_INCOMPLETE, [field_header 0 1 []], 1, 4)" by code_simp
  from header_block_resumes [OF this, of 6 0] show ?thesis by auto
qed

lemma request_line_verdict:
  assumes "p + n \<le> length mem"
  shows "\<exists>req' e. parse_request_line mem p n req policy =
           Some (request_line_status policy (span mem p n), req', e) \<and> same_header_part req req' \<and>
           (request_line_status policy (span mem p n) \<noteq> IHTP_OK \<longrightarrow> e = 0)"
  using parse_request_line_in [OF assms, of req policy]
  by (fastforce split: sum.splits prod.splits if_splits)

lemma status_line_verdict:
  assumes "p + n \<le> length mem"
  shows "\<exists>resp' e. parse_status_line mem p n resp policy =
           Some (status_line_status policy (span mem p n), resp', e) \<and> same_resp_header_part resp resp' \<and>
           (status_line_status policy (span mem p n) \<noteq> IHTP_OK \<longrightarrow> e = 0)"
  using parse_status_line_in [OF assms, of resp policy]
  by (fastforce split: sum.splits prod.splits if_splits)

text \<open>
  C18. On every input the two start-line parsers return the status that request_line_status and
  status_line_status give for its bytes (incomplete, too long, malformed or accepted), write nothing
  but the start-line fields, and report a line length only when they accept.
\<close>

theorem start_line_verdicts:
  assumes "p + n \<le> length mem"
  shows "(\<exists>req' e. parse_request_line mem p n req policy =
             Some (request_line_status policy (span mem p n), req', e) \<and> same_header_part req req' \<and>
             (request_line_status policy (span mem p n) \<noteq> IHTP_OK \<longrightarrow> e = 0)) \<and>
         (\<exists>resp' e. parse_status_line mem p n resp policy =
             Some (status_line_status policy (span mem p n), resp', e) \<and> same_resp_header_part resp resp' \<and>
             (status_line_status policy (span mem p n) \<noteq> IHTP_OK \<longrightarrow> e = 0))"
  using request_line_verdict [OF assms] status_line_verdict [OF assms] by (rule conjI)

lemma start_line_verdicts_witness:
  "(\<exists>req' e. parse_request_line [LF] 0 1 zero_request (Some IHTP_POLICY_STRICT) = Some (IHTP_ERROR, req', e)) \<and>
   (\<exists>resp' e. parse_status_line [LF] 0 1 zero_response (Some IHTP_POLICY_STRICT) = Some (IHTP_ERROR, resp', e))"
proof -
  have "request_line_status (Some IHTP_POLICY_STRICT) (span [LF] 0 1) = IHTP_ERROR"
    "status_line_status (Some IHTP_POLICY_STRICT) (span [LF] 0 1) = IHTP_ERROR" by code_simp+
  with start_line_verdicts [of 0 1 "[LF]" zero_request "Some IHTP_POLICY_STRICT" zero_response] show ?thesis by auto
qed

text \<open>
  C19. The limit boundary: a valid request whose request line has exactly IHTP_MAX_REQUEST_LINE
  bytes is accepted in one call, and rejected as too long when its first chunk ends between the CR
  and the LF of that line.
\<close>

theorem line_limit_depends_on_chunks:
  fixes v :: ihtp_http_version_t
  assumes "request_parts_ok (resolve_policy policy) m t []" and "length m + length t + 10 = IHTP_MAX_REQUEST_LINE"
  defines "wire \<equiv> render_request m t v []"
  shows "\<exists>c. ihtp_parse_request undef wire (Some 0) (length wire) (Some r) policy (Some b) =
             Some (IHTP_OK, Some (printed_request 0 m t v []), Some (length wire)) \<and>
           feed (request_parse policy) [] [take 8193 wire, drop 8193 wire]
             (fresh_state IHTP_PARSER_MODE_REQUEST, zero_request) = Some (IHTP_ERROR_TOO_LONG, c, 0)"
proof -
  let ?line = "m @ SP # t @ SP # ascii ''HTTP/1.'' @ [version_byte v]"
  have one: "ihtp_parse_request undef wire (Some 0) (length wire) (Some r) policy (Some b) =
      Some (IHTP_OK, Some (printed_request 0 m t v []), Some (length wire))"
    using printed_request_message [OF assms(1), of 0 v "[]"] by (simp add: request_grammar wire_def)
  have "length (?line @ [CR]) = 8193" using assms(2) by (simp add: IHTP_MAX_REQUEST_LINE_def)
  moreover have "wire = (?line @ [CR]) @ [LF, CR, LF]" by (simp add: wire_def render_request_def)
  ultimately have tk: "take 8193 wire = ?line @ [CR]" by (metis append_eq_conv_conj)
  have "LF \<notin> set m" using assms(1) tchar_not_special by (fastforce simp: request_parts_ok_def list_all_iff)
  moreover have "LF \<notin> set t"
    using assms(1) by (fastforce simp: request_parts_ok_def list_all_iff target_byte_def)
  moreover have "LF \<notin> set (ascii ''HTTP/1.'' @ [version_byte v])" by (cases v) (simp_all add: ascii_def)
  ultimately have "line_end_ref (resolve_policy policy) (?line @ [CR]) = Inl IHTP_INCOMPLETE"
    using index_of_None_iff [of "\<lambda>b. b = LF" "?line @ [CR]"] by (auto simp: line_end_ref_def)
  then have st: "request_line_status (resolve_policy policy) (take 8193 wire) = IHTP_ERROR_TOO_LONG"
    using assms(2) unfolding tk by (simp add: request_line_status_def IHTP_MAX_REQUEST_LINE_def)
  have len: "length (take 8193 wire) = 8193"
    using assms(2) unfolding tk by (simp add: IHTP_MAX_REQUEST_LINE_def)
  from parse_request_line_in [of 0 8193 "take 8193 wire" zero_request "resolve_policy policy"] len st
  obtain req' e where "parse_request_line (take 8193 wire) 0 8193 zero_request (resolve_policy policy) =
      Some (IHTP_ERROR_TOO_LONG, req', e)" by fastforce
  then have "request_parse policy (take 8193 wire) 8193 (fresh_state IHTP_PARSER_MODE_REQUEST, zero_request) =
      Some (IHTP_ERROR_TOO_LONG, ((fresh_state IHTP_PARSER_MODE_REQUEST)\<lparr> ps_phase := IHTP_PARSER_PHASE_ERROR \<rparr>, req'), 0)"
    by (simp add: request_parse_def request_stateful_def request_start_line_def fresh_state_def
        initial_phase_def regroup_def)
  with one len show ?thesis by simp
qed

lemma line_limit_depends_on_chunks_witness:
  "request_parts_ok (resolve_policy None) (ascii ''GET'') (replicate 8179 0x2F) [] \<and>
   (\<exists>c. feed (request_parse None) []
          [take 8193 (render_request (ascii ''GET'') (replicate 8179 0x2F) IHTP_HTTP_11 []),
           drop 8193 (render_request (ascii ''GET'') (replicate 8179 0x2F) IHTP_HTTP_11 [])]
          (fresh_state IHTP_PARSER_MODE_REQUEST, zero_request) = Some (IHTP_ERROR_TOO_LONG, c, 0))"
proof -
  have g: "list_all tchar (ascii ''GET'')" "ascii ''GET'' \<noteq> []" by code_simp+
  have "request_parts_ok (resolve_policy None) (ascii ''GET'') (replicate 8179 0x2F) []"
    using g by (simp add: request_parts_ok_def list_all_iff resolve_policy_def target_byte_def
        IHTP_MAX_REQUEST_LINE_def IHTP_MAX_HEADERS_def)
  moreover from line_limit_depends_on_chunks [OF this, of sample_state IHTP_HTTP_11 zero_request 0]
  have "\<exists>c. feed (request_parse None) []
          [take 8193 (render_request (ascii ''GET'') (replicate 8179 0x2F) IHTP_HTTP_11 []),
           drop 8193 (render_request (ascii ''GET'') (replicate 8179 0x2F) IHTP_HTTP_11 [])]
          (fresh_state IHTP_PARSER_MODE_REQUEST, zero_request) = Some (IHTP_ERROR_TOO_LONG, c, 0)"
    by (simp only: length_ascii length_replicate IHTP_MAX_REQUEST_LINE_def) simp
  ultimately show ?thesis by blast
qed

lemma token_table_is_tchar: "ihtp_is_token_char c \<longleftrightarrow> tchar c"
  by (rule token_char_tchar)

text \<open>
  C25. The eight-bytes-at-a-time validators of the request target and of field text accept exactly
  what the byte-by-byte definitions accept.
\<close>

theorem swar_validators_exact:
  assumes "p + n \<le> length mem"
  shows "request_target_is_valid mem p n allow_spaces =
           Some (list_all (\<lambda>c. if c = SP then allow_spaces else 0x20 < c \<and> c \<noteq> 0x7F) (span mem p n)) \<and>
         field_text_is_valid mem p n =
           Some (list_all (\<lambda>c. c = HTAB \<or> (0x20 \<le> c \<and> c \<noteq> 0x7F)) (span mem p n))"
proof -
  have "target_byte allow_spaces = (\<lambda>c. if c = SP then allow_spaces else 0x20 < c \<and> c \<noteq> 0x7F)"
    by (rule ext) (auto simp: target_byte_def)
  moreover have "text_byte = (\<lambda>c. c = HTAB \<or> (0x20 \<le> c \<and> c \<noteq> 0x7F))"
    by (rule ext) (auto simp: text_byte_def)
  ultimately show ?thesis
    using request_target_is_valid_in [OF assms, of allow_spaces] field_text_is_valid_in [OF assms] by simp
qed

lemma swar_validators_exact_witness:
  "request_target_is_valid (replicate 40 0x2F) 0 40 False =
     Some (list_all (\<lambda>c. if c = SP then False else 0x20 < c \<and> c \<noteq> 0x7F) (span (replicate 40 0x2F) 0 40))"
  using swar_validators_exact [of 0 40 "replicate 40 0x2F" False] by simp

lemma method_names:
  assumes "p + n \<le> length mem"
  shows "\<exists>m. ihtp_method_from_str mem p n = Some m \<and>
           (\<forall>m'. m' \<noteq> IHTP_METHOD_UNKNOWN \<longrightarrow>
              (m = m' \<longleftrightarrow> span mem p n = ascii (ihtp_method_to_str m')))"
  using method_from_str_in [OF assms] method_of_bytes_iff by auto

lemma method_names_witness: "\<exists>m. ihtp_method_from_str (ascii ''GET'') 0 3 = Some m"
  using method_names [of 0 3 "ascii ''GET''"] by auto

text \<open>
  C24. For every build, processor and state of the dispatcher, and with the documented PCMPESTRI,
  the public scanner functions return the first delimiter (or the end of the range) and whether all
  bytes are tchar, and leave the dispatcher initialised with the selected table.
\<close>

theorem scanner_dispatch_exact:
  assumes "cmpestri_documented cmpestri" and "scanner_ok flags cmpestri cpu g"
    and "p + n \<le> length mem" and "0 \<notin> set ds"
  shows "\<exists>g'. ihtp_scan_find_char flags cmpestri cpu g mem p n (ds @ 0 # rest) =
             Some (scan_from (\<lambda>b. b \<in> set ds) mem p n, g') \<and>
           ihtp_scan_is_token flags cmpestri cpu g mem p n = Some (list_all tchar (span mem p n), g') \<and>
           scanner_ok flags cmpestri cpu g' \<and> scanner_initialized g'"
proof -
  let ?vt = "ihtp_scanner_select_vtable flags cmpestri (ihtp_scanner_simd_level flags cpu)"
  have vt: "scanner_backend (vt_is_token ?vt) (vt_find_char ?vt)"
    by (rule select_vtable_backend [OF assms(1)])
  from scanner_get_ok [OF assms(2)]
    token_scanner.is_token_spec [OF scanner_backend.axioms(1) [OF vt] assms(3)]
    delim_scanner.find_char_spec [OF scanner_backend.axioms(2) [OF vt] assms(3,4), of rest]
  show ?thesis by (auto simp: ihtp_scan_find_char_def ihtp_scan_is_token_def)
qed

definition sample_cmpestri :: cmpestri_t where
  "sample_cmpestri needle k hay =
     (case index_of (\<lambda>b. b \<in> set (take k needle)) hay of Some i \<Rightarrow> i | None \<Rightarrow> 16)"

definition sample_flags :: build_flags where
  "sample_flags = \<lparr> have_avx2 = False, have_sse42 = True \<rparr>"

lemma sample_cmpestri_documented: "cmpestri_documented sample_cmpestri"
  by (simp add: cmpestri_documented_def sample_cmpestri_def)

lemma scanner_dispatch_exact_witness:
  "\<exists>g'. ihtp_scan_find_char sample_flags sample_cmpestri (\<lambda>_. True) scanner_start sample_request 0 27 [SP, 0] =
     Some (scan_from (\<lambda>b. b \<in> set [SP]) sample_request 0 27, g')"
  using scanner_dispatch_exact [OF sample_cmpestri_documented scanner_ok_start, of 0 27 sample_request "[SP]" sample_flags "\<lambda>_. True" "[]"]
  by auto

text \<open>
  C21. parse_content_length returns v exactly when the value is a nonempty string of digits whose
  decimal value is v: the overflow check of the 64-bit accumulation rejects exactly the values from
  2^64 on.
\<close>

theorem content_length_exact:
  assumes "p + n \<le> length mem"
  shows "parse_content_length mem p n = Some (Some v) \<longleftrightarrow>
           span mem p n \<noteq> [] \<and> list_all ihtp_is_digit (span mem p n) \<and> decimal_value (span mem p n) = uint v"
proof -
  have pos: "list_all ihtp_is_digit s \<Longrightarrow> 0 \<le> decimal_value s" for s
    using decimal_from_mono [of 0 s] by (simp add: decimal_from_def decimal_value_def)
  have "uint v < 2 ^ 64" using uint_lt2p [of v] by simp
  moreover have "uint (word_of_int k :: 64 word) = k" if "0 \<le> k" "k < 2 ^ 64" for k
    using that by (simp add: uint_word_of_int)
  ultimately show ?thesis
    using parse_content_length_in [OF assms] pos [of "span mem p n"]
    by (auto simp: content_length_ref_def)
qed

lemma content_length_exact_witness:
  "parse_content_length (ascii ''42'') 0 2 = Some (Some 42) \<and> parse_content_length (ascii ''18446744073709551616'') 0 20 \<noteq> Some (Some 0)"
proof
  have "decimal_value (span (ascii ''42'') 0 2) = uint (42 :: 64 word) \<and> span (ascii ''42'') 0 2 \<noteq> [] \<and>
      list_all ihtp_is_digit (span (ascii ''42'') 0 2)" by code_simp
  with content_length_exact [of 0 2 "ascii ''42''" 42] show "parse_content_length (ascii ''42'') 0 2 = Some (Some 42)"
    by simp
  have "decimal_value (span (ascii ''18446744073709551616'') 0 20) \<noteq> uint (0 :: 64 word)" by code_simp
  with content_length_exact [of 0 20 "ascii ''18446744073709551616''" 0]
  show "parse_content_length (ascii ''18446744073709551616'') 0 20 \<noteq> Some (Some 0)" by simp
qed

text \<open>
  C20. parse_transfer_encoding accepts exactly the comma-separated lists of codings with a token
  name and parameters only on codings other than chunked, and reports whether the last coding is
  chunked and how many are.
\<close>

theorem transfer_encoding_exact:
  assumes "token_scanner is_token" and "p + n \<le> length mem"
  shows "parse_transfer_encoding is_token mem p n =
           Some (if list_all coding_ok (list_elements (span mem p n))
                 then Some (is_chunked (List.last (list_elements (span mem p n))),
                            length (filter is_chunked (list_elements (span mem p n))))
                 else None)"
  using token_scanner.parse_transfer_encoding_in [OF assms] by (simp add: transfer_encoding_ref_def)

lemma transfer_encoding_exact_witness:
  "parse_transfer_encoding ihtp_scan_is_token_scalar (ascii ''gzip , Chunked'') 0 14 = Some (Some (True, 1))"
proof -
  have "span (ascii ''gzip , Chunked'') 0 14 = ascii ''gzip , Chunked''" by code_simp
  moreover have "list_all coding_ok (list_elements (ascii ''gzip , Chunked'')) \<and>
      is_chunked (List.last (list_elements (ascii ''gzip , Chunked''))) \<and>
      length (filter is_chunked (list_elements (ascii ''gzip , Chunked''))) = 1" by code_simp
  ultimately show ?thesis
    using transfer_encoding_exact [OF scalar.token_scanner_axioms, of 0 14 "ascii ''gzip , Chunked''"] by simp
qed

lemma connection_exact:
  assumes "token_scanner is_token" and "p + n \<le> length mem"
  shows "parse_connection_header is_token mem p n (close, keep_alive, upgrade) =
           Some (if list_all token_ok (list_elements (span mem p n))
                 then Some (close \<or> (\<exists>e\<in>set (list_elements (span mem p n)). ci_eq e (ascii ''close'')),
                            keep_alive \<or> (\<exists>e\<in>set (list_elements (span mem p n)). ci_eq e (ascii ''keep-alive'')),
                            upgrade \<or> (\<exists>e\<in>set (list_elements (span mem p n)). ci_eq e (ascii ''upgrade'')))
                 else None)"
  using token_scanner.parse_connection_header_in [OF assms] by (simp add: connection_ref_def)

lemma connection_exact_witness:
  "parse_connection_header ihtp_scan_is_token_avx2 (ascii ''Close,x'') 0 7 (False, True, False) =
     Some (Some (True, True, False))"
proof -
  have "span (ascii ''Close,x'') 0 7 = ascii ''Close,x''" by code_simp
  moreover have "list_all token_ok (list_elements (ascii ''Close,x'')) \<and>
      (\<exists>e\<in>set (list_elements (ascii ''Close,x'')). ci_eq e (ascii ''close'')) \<and>
      \<not> (\<exists>e\<in>set (list_elements (ascii ''Close,x'')). ci_eq e (ascii ''upgrade''))" by code_simp
  ultimately show ?thesis
    using connection_exact [OF avx2.token_scanner_axioms, of 0 7 "ascii ''Close,x''" False True False] by simp
qed

text \<open>
  C3. For every scanner the dispatcher can select and every request whose headers lie in memory, the
  semantics layer never has undefined behaviour, accepts exactly the requests of request_accepted
  (field values well formed, equal Content-Lengths, one Host, chunked once and last, Trailer only
  with chunked, the TE/CL rule of the policy) and then decides body mode, length, keep-alive,
  upgrade, expectation and trailers as request_decision says.
\<close>

theorem request_semantics_exact:
  assumes "cmpestri_documented cmpestri" and "headers_in mem (req_headers req) (req_num_headers req)"
  shows "\<exists>req'. ihtp_request_apply_semantics (vt_is_token (ihtp_scanner_select_vtable flags cmpestri level))
             mem (Some req) policy =
           Some (if request_accepted (policy_or_strict policy) (req_version req)
                      (header_fields mem (req_headers req) (req_num_headers req))
                 then IHTP_OK else IHTP_ERROR, Some req') \<and>
         (request_accepted (policy_or_strict policy) (req_version req)
            (header_fields mem (req_headers req) (req_num_headers req)) \<longrightarrow>
          req' = request_decision (header_fields mem (req_headers req) (req_num_headers req)) req)"
  using token_scanner.request_semantics [OF dispatched_token_scanner [OF assms(1)] assms(2)] .

lemma request_semantics_exact_witness:
  "\<exists>req'. ihtp_request_apply_semantics (vt_is_token (ihtp_scanner_select_vtable sample_flags sample_cmpestri 1)) []
     (Some zero_request) None = Some (IHTP_OK, Some req')"
proof -
  have h: "headers_in [] (req_headers zero_request) (req_num_headers zero_request)"
    by (simp add: headers_in_def)
  have "request_accepted (policy_or_strict None) (req_version zero_request)
      (header_fields [] (req_headers zero_request) (req_num_headers zero_request))" by code_simp
  with request_semantics_exact [OF sample_cmpestri_documented h, of sample_flags 1 None] show ?thesis by auto
qed

text \<open>
  C4. The same for responses: acceptance is response_accepted, and the body mode (none for 1xx, 204
  and 304, then chunked, fixed, until close), length, keep-alive, upgrade and trailers are those of
  response_decision.
\<close>

theorem response_semantics_exact:
  assumes "cmpestri_documented cmpestri" and "headers_in mem (resp_headers resp) (resp_num_headers resp)"
  shows "\<exists>resp'. ihtp_response_apply_semantics (vt_is_token (ihtp_scanner_select_vtable flags cmpestri level))
             mem (Some resp) policy =
           Some (if response_accepted (policy_or_strict policy) (resp_status_code resp)
                      (header_fields mem (resp_headers resp) (resp_num_headers resp))
                 then IHTP_OK else IHTP_ERROR, Some resp') \<and>
         (response_accepted (policy_or_strict policy) (resp_status_code resp)
            (header_fields mem (resp_headers resp) (resp_num_headers resp)) \<longrightarrow>
          resp' = response_decision (header_fields mem (resp_headers resp) (resp_num_headers resp)) resp)"
  using token_scanner.response_semantics [OF dispatched_token_scanner [OF assms(1)] assms(2)] .

lemma response_semantics_exact_witness:
  "\<exists>resp'. ihtp_response_apply_semantics (vt_is_token (ihtp_scanner_select_vtable sample_flags sample_cmpestri 1)) []
     (Some zero_response) None = Some (IHTP_OK, Some resp')"
proof -
  have h: "headers_in [] (resp_headers zero_response) (resp_num_headers zero_response)"
    by (simp add: headers_in_def)
  have "response_accepted (policy_or_strict None) (resp_status_code zero_response)
      (header_fields [] (resp_headers zero_response) (resp_num_headers zero_response))" by code_simp
  with response_semantics_exact [OF sample_cmpestri_documented h, of sample_flags 1 None] show ?thesis by auto
qed

text \<open>
  C5. No request smuggling through framing: a request accepted under a policy that rejects TE with
  CL never carries both fields; it is framed chunked exactly when Transfer-Encoding is present, and
  then chunked is applied once, as the last coding; it is framed by length exactly when Content-
  Length is present, every Content-Length field has the decided value; an HTTP/1.1 request has
  exactly one, nonempty, Host.
\<close>

theorem request_framing_unambiguous:
  assumes "cmpestri_documented cmpestri" and "headers_in mem (req_headers req) (req_num_headers req)"
    and "reject_te_cl (policy_or_strict policy)"
    and "ihtp_request_apply_semantics (vt_is_token (ihtp_scanner_select_vtable flags cmpestri level))
           mem (Some req) policy = Some (IHTP_OK, Some req')"
  defines "fs \<equiv> header_fields mem (req_headers req) (req_num_headers req)"
  shows "(values_of ''transfer-encoding'' fs = [] \<or> values_of ''content-length'' fs = []) \<and>
         (req_body_mode req' = IHTP_BODY_CHUNKED \<longleftrightarrow> values_of ''transfer-encoding'' fs \<noteq> []) \<and>
         (req_body_mode req' = IHTP_BODY_CHUNKED \<longrightarrow> chunked_last (codings fs)) \<and>
         (req_body_mode req' = IHTP_BODY_FIXED \<longleftrightarrow> values_of ''content-length'' fs \<noteq> []) \<and>
         (\<forall>v\<in>set (values_of ''content-length'' fs). content_length_ref v = Some (req_content_length req')) \<and>
         req_body_mode req' \<noteq> IHTP_BODY_EOF \<and>
         (req_version req = IHTP_HTTP_11 \<longrightarrow> (\<exists>h. h \<noteq> [] \<and> values_of ''host'' fs = [h]))"
proof -
  from token_scanner.request_semantics [OF dispatched_token_scanner [OF assms(1)] assms(2), of flags level policy] assms(4)
  have acc: "request_accepted (policy_or_strict policy) (req_version req) fs" and r: "req' = request_decision fs req"
    by (auto simp: fs_def split: if_splits)
  from acc have v: "fields_valid fs" and h: "length (values_of ''host'' fs) \<le> 1" "[] \<notin> set (values_of ''host'' fs)"
    by (simp_all add: request_accepted_def request_valid_def)
  have one: "values_of ''transfer-encoding'' fs = [] \<or> values_of ''content-length'' fs = []"
    using acc assms(3) by (auto simp: request_accepted_def)
  have "values_of ''transfer-encoding'' fs \<noteq> [] \<longrightarrow> chunked_last (codings fs)"
    using acc chunked_last_iff [OF v] by (simp add: request_accepted_def)
  moreover have "\<exists>h. h \<noteq> [] \<and> values_of ''host'' fs = [h]" if "req_version req = IHTP_HTTP_11"
    using acc h that by (cases "values_of ''host'' fs") (auto simp: request_accepted_def)
  moreover have "\<forall>v\<in>set (values_of ''content-length'' fs). content_length_ref v = Some (cl_value fs)"
    using cl_value_valid [OF v] by blast
  ultimately show ?thesis
    using one unfolding r request_decision_def by (cases "values_of ''transfer-encoding'' fs") auto
qed

definition sample_post_fields :: "(byte list \<times> byte list) list" where
  "sample_post_fields = [(ascii ''Host'', ascii ''a''), (ascii ''Transfer-Encoding'', ascii ''gzip, chunked'')]"

lemma sample_post:
  defines "mem \<equiv> render_request (ascii ''POST'') (ascii ''/'') IHTP_HTTP_11 sample_post_fields"
    and "req \<equiv> printed_request 0 (ascii ''POST'') (ascii ''/'') IHTP_HTTP_11 sample_post_fields"
  shows "headers_in mem (req_headers req) (req_num_headers req)"
    and "header_fields mem (req_headers req) (req_num_headers req) = sample_post_fields"
    and "\<exists>req'. ihtp_request_apply_semantics (vt_is_token (ihtp_scanner_select_vtable sample_flags sample_cmpestri 1))
           mem (Some req) None = Some (IHTP_OK, Some req')"
proof -
  have parts: "request_parts_ok (resolve_policy None) (ascii ''POST'') (ascii ''/'') sample_post_fields"
    unfolding request_parts_ok_def by (intro conjI; code_simp?)
  have "ihtp_parse_request sample_state mem (Some 0) (length mem) (Some zero_request) None (Some 0) =
      Some (IHTP_OK, Some req, Some (length mem))"
    using printed_request_message [OF parts, of 0 IHTP_HTTP_11 "[]"] by (simp add: request_grammar mem_def req_def)
  from parsed_request_headers [OF this] show h: "headers_in mem (req_headers req) (req_num_headers req)" by simp
  have rb: "reads_back mem req (ascii ''POST'') (ascii ''/'') IHTP_HTTP_11 sample_post_fields"
    using printed_request_reads_back [OF parts, of IHTP_HTTP_11 "[]"] by (simp add: mem_def req_def)
  then show f: "header_fields mem (req_headers req) (req_num_headers req) = sample_post_fields"
    by (rule printed_fields)
  have "request_accepted (policy_or_strict None) IHTP_HTTP_11 sample_post_fields" by code_simp
  with token_scanner.request_semantics [OF dispatched_token_scanner [OF sample_cmpestri_documented] h, of sample_flags 1 None]
    f rb show "\<exists>req'. ihtp_request_apply_semantics (vt_is_token (ihtp_scanner_select_vtable sample_flags sample_cmpestri 1))
           mem (Some req) None = Some (IHTP_OK, Some req')"
    by (auto simp: reads_back_def)
qed

lemma request_framing_unambiguous_witness: "chunked_last (codings sample_post_fields)"
proof -
  from sample_post(3) obtain req' where ok: "ihtp_request_apply_semantics
      (vt_is_token (ihtp_scanner_select_vtable sample_flags sample_cmpestri 1))
      (render_request (ascii ''POST'') (ascii ''/'') IHTP_HTTP_11 sample_post_fields)
      (Some (printed_request 0 (ascii ''POST'') (ascii ''/'') IHTP_HTTP_11 sample_post_fields)) None =
        Some (IHTP_OK, Some req')" by blast
  have "reject_te_cl (policy_or_strict None)" by code_simp
  moreover have "values_of ''transfer-encoding'' sample_post_fields \<noteq> []" by code_simp
  ultimately show ?thesis
    using request_framing_unambiguous [OF sample_cmpestri_documented sample_post(1) _ ok] sample_post(2) by simp
qed

text \<open>
  C22. A response accepted under a policy that rejects TE with CL never carries both; it has no body
  exactly for the no-body statuses; chunked framing means chunked once and last, fixed framing means
  all Content-Length fields have the decided value; a switch of protocols is a 101 that ends keep-
  alive.
\<close>

theorem response_framing_unambiguous:
  assumes "cmpestri_documented cmpestri" and "headers_in mem (resp_headers resp) (resp_num_headers resp)"
    and "reject_te_cl (policy_or_strict policy)"
    and "ihtp_response_apply_semantics (vt_is_token (ihtp_scanner_select_vtable flags cmpestri level))
           mem (Some resp) policy = Some (IHTP_OK, Some resp')"
  defines "fs \<equiv> header_fields mem (resp_headers resp) (resp_num_headers resp)"
  shows "(values_of ''transfer-encoding'' fs = [] \<or> values_of ''content-length'' fs = []) \<and>
         (resp_body_mode resp' = IHTP_BODY_NONE \<longleftrightarrow> no_body_status (resp_status_code resp)) \<and>
         (resp_body_mode resp' = IHTP_BODY_CHUNKED \<longrightarrow> chunked_last (codings fs)) \<and>
         (resp_body_mode resp' = IHTP_BODY_FIXED \<longrightarrow> values_of ''content-length'' fs \<noteq> [] \<and>
            (\<forall>v\<in>set (values_of ''content-length'' fs). content_length_ref v = Some (resp_content_length resp'))) \<and>
         (resp_protocol_upgrade resp' \<longrightarrow> resp_status_code resp = 101 \<and> \<not> resp_keep_alive resp')"
proof -
  from token_scanner.response_semantics [OF dispatched_token_scanner [OF assms(1)] assms(2), of flags level policy] assms(4)
  have acc: "response_accepted (policy_or_strict policy) (resp_status_code resp) fs" and r: "resp' = response_decision fs resp"
    by (auto simp: fs_def split: if_splits)
  from acc have v: "fields_valid fs" by (simp add: response_accepted_def)
  have "values_of ''transfer-encoding'' fs = [] \<or> values_of ''content-length'' fs = []"
    using acc assms(3) by (auto simp: response_accepted_def)
  moreover have "te_chunked fs \<longrightarrow> chunked_last (codings fs)"
    using acc chunked_last_iff [OF v] by (simp add: response_accepted_def)
  moreover have "\<forall>v\<in>set (values_of ''content-length'' fs). content_length_ref v = Some (cl_value fs)"
    using cl_value_valid [OF v] by blast
  ultimately show ?thesis
    unfolding r response_decision_def Let_def by (auto simp: response_mode_def switches_protocol_def)
qed

lemma response_framing_unambiguous_witness:
  "\<exists>resp'. ihtp_response_apply_semantics (vt_is_token (ihtp_scanner_select_vtable sample_flags sample_cmpestri 1))
      [] (Some (zero_response\<lparr> resp_status_code := 204 \<rparr>)) None = Some (IHTP_OK, Some resp') \<and>
     resp_body_mode resp' = IHTP_BODY_NONE"
proof -
  let ?r = "zero_response\<lparr> resp_status_code := 204 \<rparr>"
  have h: "headers_in [] (resp_headers ?r) (resp_num_headers ?r)" by (simp add: headers_in_def)
  have "response_accepted (policy_or_strict None) (resp_status_code ?r)
      (header_fields [] (resp_headers ?r) (resp_num_headers ?r))" by code_simp
  with token_scanner.response_semantics [OF dispatched_token_scanner [OF sample_cmpestri_documented] h, of sample_flags 1 None]
  obtain resp' where ok: "ihtp_response_apply_semantics (vt_is_token (ihtp_scanner_select_vtable sample_flags sample_cmpestri 1))
      [] (Some ?r) None = Some (IHTP_OK, Some resp')" by auto
  have "reject_te_cl (policy_or_strict None)" by code_simp
  moreover have "no_body_status (resp_status_code ?r)" by (simp add: no_body_status_def)
  ultimately show ?thesis
    using response_framing_unambiguous [OF sample_cmpestri_documented h _ ok] ok by blast
qed

text \<open>
  C23. The layers compose: whatever request the parser accepts, under any policies and any selected
  scanner, the semantics layer runs on it without undefined behaviour and answers IHTP_OK or
  IHTP_ERROR.
\<close>

theorem parsed_request_semantics_safe:
  assumes "cmpestri_documented cmpestri" and "p + n \<le> length mem"
    and "ihtp_parse_request undef mem (Some p) n (Some r) policy (Some b) = Some (IHTP_OK, Some req, Some k)"
  shows "\<exists>st req'. (st = IHTP_OK \<or> st = IHTP_ERROR) \<and>
           ihtp_request_apply_semantics (vt_is_token (ihtp_scanner_select_vtable flags cmpestri level))
             mem (Some req) policy' = Some (st, Some req')"
  using token_scanner.request_semantics [OF dispatched_token_scanner [OF assms(1)]
      parsed_request_headers [OF assms(3,2)], of flags level policy']
  by auto

lemma parsed_request_semantics_safe_witness:
  "\<exists>st req'. ihtp_request_apply_semantics (vt_is_token (ihtp_scanner_select_vtable sample_flags sample_cmpestri 3))
     sample_request (Some (printed_request 0 (ascii ''GET'') (ascii ''/'') IHTP_HTTP_11 sample_fields)) None =
       Some (st, Some req')"
proof -
  have "ihtp_parse_request sample_state sample_request (Some 0) 27 (Some zero_request) None (Some 0) =
     Some (IHTP_OK, Some (printed_request 0 (ascii ''GET'') (ascii ''/'') IHTP_HTTP_11 sample_fields), Some 27)"
    using request_grammar [of 0 27 sample_request] printed_request_message [OF sample_parts [of None], of 0 IHTP_HTTP_11 "[]"]
    by (simp flip: sample_request_def)
  from parsed_request_semantics_safe [OF sample_cmpestri_documented _ this, of sample_flags 3 None]
  show ?thesis by auto
qed

text \<open>
  C6. End to end: a printed request, followed by any bytes, is parsed with exactly its own bytes
  consumed, and the semantics layer then decides about it by the fields that were printed.
\<close>

theorem printed_request_semantics:
  fixes v :: ihtp_http_version_t
  assumes "cmpestri_documented cmpestri" and "request_parts_ok (resolve_policy policy) m t fs"
  defines "wire \<equiv> render_request m t v fs"
  shows "\<exists>req req'. ihtp_parse_request undef (wire @ rest) (Some 0) (length (wire @ rest)) (Some r) policy (Some b) =
             Some (IHTP_OK, Some req, Some (length wire)) \<and>
           ihtp_request_apply_semantics (vt_is_token (ihtp_scanner_select_vtable flags cmpestri level))
             (wire @ rest) (Some req) policy =
               Some (if request_accepted (policy_or_strict policy) v fs then IHTP_OK else IHTP_ERROR, Some req') \<and>
           (request_accepted (policy_or_strict policy) v fs \<longrightarrow> req' = request_decision fs req)"
  using printed_request_decided [OF assms(1,2), of undef v rest r b flags level] by (simp add: wire_def)

lemma printed_request_semantics_witness:
  "\<exists>req req'. ihtp_parse_request sample_state sample_request (Some 0) 27 (Some zero_request) None (Some 0) =
       Some (IHTP_OK, Some req, Some 27) \<and>
     ihtp_request_apply_semantics (vt_is_token (ihtp_scanner_select_vtable sample_flags sample_cmpestri 2))
       sample_request (Some req) None = Some (IHTP_OK, Some req') \<and>
     req_body_mode req' = IHTP_BODY_NONE"
proof -
  have acc: "request_accepted (policy_or_strict None) IHTP_HTTP_11 sample_fields" by code_simp
  have none: "values_of ''transfer-encoding'' sample_fields = []" "values_of ''content-length'' sample_fields = []"
    by code_simp+
  from acc printed_request_semantics [OF sample_cmpestri_documented sample_parts [of None], of sample_state IHTP_HTTP_11 "[]"
      zero_request 0 sample_flags 2]
  obtain req req' where
    "ihtp_parse_request sample_state sample_request (Some 0) 27 (Some zero_request) None (Some 0) =
       Some (IHTP_OK, Some req, Some 27)"
    "ihtp_request_apply_semantics (vt_is_token (ihtp_scanner_select_vtable sample_flags sample_cmpestri 2))
       sample_request (Some req) None = Some (IHTP_OK, Some req')"
    and "req' = request_decision sample_fields req"
    by (auto simp flip: sample_request_def)
  moreover from this none have "req_body_mode req' = IHTP_BODY_NONE" by (simp add: request_decision_def)
  ultimately show ?thesis by blast
qed

lemma semantics_backend_independent:
  assumes "cmpestri_documented cmpestri" and "cmpestri_documented cmpestri'"
    and "headers_in mem (req_headers req) (req_num_headers req)"
    and "headers_in mem (resp_headers resp) (resp_num_headers resp)"
  shows "ihtp_request_apply_semantics (vt_is_token (ihtp_scanner_select_vtable flags cmpestri level))
             mem (Some req) policy =
           ihtp_request_apply_semantics (vt_is_token (ihtp_scanner_select_vtable flags' cmpestri' level'))
             mem (Some req) policy \<and>
         ihtp_response_apply_semantics (vt_is_token (ihtp_scanner_select_vtable flags cmpestri level))
             mem (Some resp) policy =
           ihtp_response_apply_semantics (vt_is_token (ihtp_scanner_select_vtable flags' cmpestri' level'))
             mem (Some resp) policy"
  using token_scanner.request_semantics_run [OF dispatched_token_scanner [OF assms(1)] assms(3)]
    token_scanner.request_semantics_run [OF dispatched_token_scanner [OF assms(2)] assms(3)]
    token_scanner.response_semantics_run [OF dispatched_token_scanner [OF assms(1)] assms(4)]
    token_scanner.response_semantics_run [OF dispatched_token_scanner [OF assms(2)] assms(4)]
  by simp

lemma semantics_backend_independent_witness:
  "ihtp_request_apply_semantics (vt_is_token (ihtp_scanner_select_vtable sample_flags sample_cmpestri 1)) []
     (Some zero_request) None =
   ihtp_request_apply_semantics (vt_is_token (ihtp_scanner_select_vtable sample_flags sample_cmpestri 0)) []
     (Some zero_request) None"
proof -
  have "headers_in [] (req_headers zero_request) (req_num_headers zero_request)"
    "headers_in [] (resp_headers zero_response) (resp_num_headers zero_response)"
    by (simp_all add: headers_in_def)
  from semantics_backend_independent [OF sample_cmpestri_documented sample_cmpestri_documented this,
      of sample_flags 1 None sample_flags 0] show ?thesis by blast
qed

section \<open>The body decoders\<close>

text \<open>
  C26. The chunked decoder, called on a body in any fragments, ends with the verdict of the chunked
  grammar: complete exactly when the bytes start with a chunked body, with its payload; failed
  exactly when they neither start with one nor can be continued to one; else incomplete, with a
  prefix of every possible payload. total_decoded counts the payload bytes.
\<close>

theorem chunked_fed:
  assumes "fragments xs"
  shows "case feed_decoder chunked_call (zero_decoder ct) xs of
           Done d p rest \<Rightarrow> \<exists>later. chunk_verdict ct (concat xs) (Done d p (rest @ later))
         | r \<Rightarrow> chunk_verdict ct (concat xs) r"
  using assms by (rule feed_verdict)

definition sample_body :: "byte list list" where
  "sample_body = [ascii ''4;x=y'' @ [CR], LF # ascii ''Wi'', ascii ''ki'' @ [CR, LF] @ ascii ''0'', [CR, LF, 0x41]]"

lemma chunked_fed_witness:
  "\<exists>w. concat sample_body = w @ [0x41] \<and> chunked_body False w (ascii ''Wiki'')"
proof -
  have f: "fragments sample_body" by (simp add: sample_body_def ascii_def)
  have "case feed_decoder chunk_bytes (zero_decoder False) sample_body of
      Done d p rest \<Rightarrow> p = ascii ''Wiki'' \<and> rest = [0x41] | _ \<Rightarrow> False" by code_simp
  then obtain d where d: "feed_decoder chunked_call (zero_decoder False) sample_body = Done d (ascii ''Wiki'') [0x41]"
    using feed_chunked_call [OF zero_decoder_ok f, of False] by (auto split: outcome.splits)
  from chunked_fed [OF f, of False] obtain later w where
    w: "concat sample_body = w @ [0x41] @ later" "chunked_body False w (ascii ''Wiki'')"
    unfolding d by (auto simp: chunk_verdict_def)
  have "List.last (concat sample_body) = 0x41" "0x41 \<notin> set (butlast (concat sample_body))" by code_simp+
  with w(1) have "later = []" by (cases later rule: rev_cases) (auto simp: butlast_append)
  with w show ?thesis by auto
qed

text \<open>
  C27. A call on a decoder in a reachable state, on a range inside memory, returns; it writes only
  inside the range, leaves a decoder that can be called again, and the payload and the unread bytes
  behind it stand in the range as the byte automaton says, with the status and size that belong to
  its outcome.
\<close>

theorem chunked_decoder_safe:
  assumes "decoder_ok d" and "b + avail \<le> length mem"
  shows "\<exists>st d' mem' n. ihtp_decode_chunked (Some d) mem (Some b) (Some avail) = Some (st, Some d', mem', Some n) \<and>
           length mem' = length mem \<and> take b mem' = take b mem \<and> drop (b + avail) mem' = drop (b + avail) mem \<and>
           n \<le> avail \<and>
           (case chunk_bytes d (span mem b avail) of
              Failed \<Rightarrow> st = status_code IHTP_ERROR \<and> n = avail \<and> decoder_ok d'
            | Incomplete d1 out \<Rightarrow> st = status_code IHTP_INCOMPLETE \<and> d' = d1 \<and> decoder_ok d' \<and>
                n = length out \<and> span mem' b n = out
            | Done d1 out rest \<Rightarrow> st = size_as_status (length rest) \<and> d' = d1 \<and>
                n = length out \<and> span mem' b (n + length rest) = out @ rest)"
proof -
  from decode_chunked_refines [OF assms] obtain st d' mem' n where
    call: "ihtp_decode_chunked (Some d) mem (Some b) (Some avail) = Some (st, Some d', mem', Some n)" and
    post: "chunk_post b avail mem 0 (chunk_bytes d (span mem b avail)) (st, d', mem', n)" by blast
  have "n \<le> avail \<and> (\<forall>d1 out. chunk_bytes d (span mem b avail) = Incomplete d1 out \<longrightarrow> decoder_ok d1)"
    using post outcome_length [where d = d and s = "span mem b avail"] assms
    by (cases "chunk_bytes d (span mem b avail)") (auto simp: chunk_post_def chunk_bytes_ok)
  with call post show ?thesis
    by (intro exI [of _ st] exI [of _ d'] exI [of _ mem'] exI [of _ n])
      (auto simp: chunk_post_def split: outcome.splits)
qed

lemma chunked_decoder_safe_witness:
  "\<exists>d' mem' n. ihtp_decode_chunked (Some (zero_decoder False)) (0x41 # concat sample_body) (Some 1) (Some 17) =
     Some (1, Some d', mem', Some 4) \<and> span mem' 1 5 = ascii ''WikiA''"
proof -
  have r: "case chunk_bytes (zero_decoder False) (span (0x41 # concat sample_body) 1 17) of
      Done d p rest \<Rightarrow> p = ascii ''Wiki'' \<and> rest = [0x41] | _ \<Rightarrow> False" by code_simp
  have "1 + 17 \<le> length (0x41 # concat sample_body)" by code_simp
  note safe = chunked_decoder_safe [OF zero_decoder_ok this, of False]
  from r obtain d where d: "chunk_bytes (zero_decoder False) (span (0x41 # concat sample_body) 1 17) =
      Done d (ascii ''Wiki'') [0x41]" by (auto split: outcome.splits)
  have "length (ascii ''Wiki'') = 4" "length ([0x41] :: byte list) = 1" "ascii ''Wiki'' @ [0x41] = ascii ''WikiA''"
    "size_as_status 1 = 1" by code_simp+
  with safe show ?thesis unfolding d outcome.case by (metis numeral_plus_one semiring_norm(5) numeral_eq_iff)
qed

text \<open>
  C37. A call of the chunked decoder on a nonempty range inside memory returns if and only if the
  decoder's state is one of the eight states; on any other value of the field the loop never ends.
\<close>

theorem chunked_returns_iff:
  assumes "b + avail \<le> length mem"
  shows "(\<exists>r. ihtp_decode_chunked (Some d) mem (Some b) (Some avail) = Some r) \<longleftrightarrow>
           0 \<le> chunk_state d \<and> chunk_state d \<le> 7 \<or> avail = 0"
  using decode_chunked_returns_iff [OF assms, of d] by (simp add: has_case_def)

lemma chunked_returns_iff_witness:
  "ihtp_decode_chunked (Some ((zero_decoder False)\<lparr> chunk_state := 8 \<rparr>)) [0x30] (Some 0) (Some 1) = None"
  using chunked_returns_iff [of 0 1 "[0x30]" "(zero_decoder False)\<lparr> chunk_state := 8 \<rparr>"]
  by (cases "ihtp_decode_chunked (Some ((zero_decoder False)\<lparr> chunk_state := 8 \<rparr>)) [0x30] (Some 0) (Some 1)") auto

text \<open>
  C38. The decoder never waits in vain: when it reports an incomplete body, there are further
  fragments after which it reports the body complete.
\<close>

theorem incomplete_body_can_finish:
  assumes "fragments xs" and "feed_decoder chunked_call (zero_decoder ct) xs = Incomplete d out"
  shows "\<exists>ys d' more. fragments ys \<and>
           feed_decoder chunked_call (zero_decoder ct) (xs @ ys) = Done d' (out @ more) []"
  using feed_completes [OF assms] .

lemma incomplete_body_can_finish_witness:
  "\<exists>ys d' more. feed_decoder chunked_call (zero_decoder True) ([ascii ''5'', [CR, LF, 0x41]] @ ys) =
     Done d' (0x41 # more) []"
proof -
  have f: "fragments [ascii ''5'', [CR, LF, 0x41]]" by (simp add: ascii_def)
  have "case feed_decoder chunk_bytes (zero_decoder True) [ascii ''5'', [CR, LF, 0x41]] of
      Incomplete d p \<Rightarrow> p = [0x41] | _ \<Rightarrow> False" by code_simp
  then obtain d where
    "feed_decoder chunked_call (zero_decoder True) [ascii ''5'', [CR, LF, 0x41]] = Incomplete d [0x41]"
    using feed_chunked_call [OF zero_decoder_ok f, of True] by (auto split: outcome.splits)
  from incomplete_body_can_finish [OF f this] show ?thesis by auto
qed

text \<open>
  C36. Encoding a payload in any nonempty chunks, with a trailer section if the decoder consumes
  one, and decoding it gives the payload, its length and the bytes that follow.
\<close>

theorem chunked_roundtrip:
  assumes "list_all (\<lambda>xs. xs \<noteq> []) xss" and "list_all (\<lambda>l. line_text l \<and> l \<noteq> []) ls"
    and "length (encode_body ct xss ls @ rest) < 2 ^ 31"
  shows "\<exists>d. chunked_call (zero_decoder ct) (encode_body ct xss ls @ rest) = Done d (concat xss) rest \<and>
           chunk_total_decoded d = word_of_nat (length (concat xss))"
  using encode_body_decodes [OF assms] .

lemma chunked_roundtrip_witness:
  "\<exists>d. chunked_call (zero_decoder True) (encode_body True [ascii ''ab'', ascii ''c''] [ascii ''T: x''] @ [0x41]) =
     Done d (ascii ''abc'') [0x41]"
proof -
  have "length (encode_body True [ascii ''ab'', ascii ''c''] [ascii ''T: x''] @ [0x41]) < 2 ^ 31"
    by (simp add: encode_body_def encode_chunk_def hex_string.simps ascii_def)
  from chunked_roundtrip [OF _ _ this] show ?thesis by (auto simp: ascii_def)
qed

text \<open>
  C39. The number of bytes behind a complete body is returned as the status; below 2^31 it is that
  number, and it reads as IHTP_INCOMPLETE or IHTP_ERROR exactly when it is 2^32 - 2 or 2^32 - 1
  modulo 2^32.
\<close>

theorem rest_as_status:
  assumes "decoder_ok d" and "b + avail \<le> length mem"
    and "chunk_bytes d (span mem b avail) = Done d' out rest"
  shows "\<exists>st mem' n. ihtp_decode_chunked (Some d) mem (Some b) (Some avail) = Some (st, Some d', mem', Some n) \<and>
           (length rest < 2 ^ 31 \<longrightarrow> st = int (length rest)) \<and>
           (st = status_code IHTP_INCOMPLETE \<longleftrightarrow> length rest mod 2 ^ 32 = 2 ^ 32 - 2) \<and>
           (st = status_code IHTP_ERROR \<longleftrightarrow> length rest mod 2 ^ 32 = 2 ^ 32 - 1)"
proof -
  from decode_chunked_refines [OF assms(1,2)] assms(3) obtain mem' n where
    "ihtp_decode_chunked (Some d) mem (Some b) (Some avail) =
       Some (size_as_status (length rest), Some d', mem', Some n)"
    by (auto simp: chunk_post_def)
  then show ?thesis using size_as_status_small [of "length rest"] size_as_status_errors [of "length rest"] by auto
qed

lemma rest_as_status_witness:
  "\<exists>mem' n d'. ihtp_decode_chunked (Some (zero_decoder False)) (ascii ''0'' @ [CR, LF, 0x41]) (Some 0) (Some 4) =
     Some (1, Some d', mem', Some n)"
proof -
  have "case chunk_bytes (zero_decoder False) (span (ascii ''0'' @ [CR, LF, 0x41]) 0 4) of
      Done d p rest \<Rightarrow> rest = [0x41] | _ \<Rightarrow> False" by code_simp
  then obtain d p where
    d: "chunk_bytes (zero_decoder False) (span (ascii ''0'' @ [CR, LF, 0x41]) 0 4) = Done d p [0x41]"
    by (auto split: outcome.splits)
  have "0 + 4 \<le> length (ascii ''0'' @ [CR, LF, 0x41])" by code_simp
  from rest_as_status [OF zero_decoder_ok this d] show ?thesis by auto
qed

text \<open>
  C40. A chunk size without a digit is an error before CR, but accepted, as the last chunk, before
  an extension.
\<close>

theorem empty_chunk_size:
  assumes "line_text e" and "length (SEMI # e @ [CR, LF] @ rest) < 2 ^ 31" and "length (CR # s) < 2 ^ 31"
  shows "(\<exists>d. chunked_call (zero_decoder False) (SEMI # e @ [CR, LF] @ rest) = Done d [] rest) \<and>
         chunked_call (zero_decoder False) (CR # s) = Failed"
  using empty_size_with_extension [OF assms(1,2)] empty_size_alone [of s False] assms(3) by simp

lemma empty_chunk_size_witness:
  "\<exists>d. chunked_call (zero_decoder False) (ascii '';x'' @ [CR, LF]) = Done d [] []"
  using empty_chunk_size [of "ascii ''x''" "[]" "[]"] by (simp add: ascii_def)

lemma fixed_body_fed:
  assumes "xs \<noteq> []"
  shows "fixed_verdict cl xs (feed_decoder fixed_bytes (the (ihtp_fixed_decoder_init (Some d) cl)) xs)"
  using fixed_feed_verdict [OF assms, of cl] by (simp add: fixed_init)

lemma fixed_body_fed_witness:
  "length (ascii ''Wi'' @ ascii ''ki'') = unat (4 :: 64 word)"
proof -
  have "case feed_decoder fixed_bytes (the (ihtp_fixed_decoder_init (Some \<lparr> remaining = 9, fixed_total_decoded = 9 \<rparr>) 4))
      [ascii ''Wi'', ascii ''ki''] of Done d p rest \<Rightarrow> p = ascii ''Wi'' @ ascii ''ki'' | _ \<Rightarrow> False" by code_simp
  with fixed_body_fed [of "[ascii ''Wi'', ascii ''ki'']" 4 "\<lparr> remaining = 9, fixed_total_decoded = 9 \<rparr>"]
  show ?thesis by (auto simp: fixed_verdict_def split: outcome.splits)
qed

section \<open>From the head to the body\<close>

text \<open>
  C28. All layers end to end: a printed request that the policy accepts with a chunked transfer
  coding, its encoded body and any bytes behind it, in one buffer: the parser consumes the head, the
  semantics layer decides chunked framing, and the decoder leaves the head untouched, the payload
  behind it, then the following bytes, and returns their number.
\<close>

theorem chunked_request_received:
  fixes v :: ihtp_http_version_t
  assumes "cmpestri_documented cmpestri" and "request_parts_ok (resolve_policy policy) m t fs"
    and "request_accepted (policy_or_strict policy) v fs" and "values_of ''transfer-encoding'' fs \<noteq> []"
    and "list_all (\<lambda>xs. xs \<noteq> []) xss" and "list_all (\<lambda>l. line_text l \<and> l \<noteq> []) ls"
    and "length (encode_body ct xss ls @ rest) < 2 ^ 31"
  defines "head \<equiv> render_request m t v fs" and "body \<equiv> encode_body ct xss ls"
  defines "mem \<equiv> head @ body @ rest"
  shows "\<exists>req req' d mem'.
           ihtp_parse_request undef mem (Some 0) (length mem) (Some r) policy (Some b) =
             Some (IHTP_OK, Some req, Some (length head)) \<and>
           ihtp_request_apply_semantics (vt_is_token (ihtp_scanner_select_vtable flags cmpestri level))
             mem (Some req) policy = Some (IHTP_OK, Some req') \<and>
           req_body_mode req' = IHTP_BODY_CHUNKED \<and>
           ihtp_decode_chunked (Some (zero_decoder ct)) mem (Some (length head)) (Some (length mem - length head)) =
             Some (int (length rest), Some d, mem', Some (length (concat xss))) \<and>
           take (length head) mem' = head \<and>
           span mem' (length head) (length (concat xss) + length rest) = concat xss @ rest"
proof -
  from printed_request_decided [OF assms(1,2), of undef v "body @ rest" r b flags level] assms(3,4)
  obtain req req' where head:
    "ihtp_parse_request undef mem (Some 0) (length mem) (Some r) policy (Some b) =
       Some (IHTP_OK, Some req, Some (length head))"
    "ihtp_request_apply_semantics (vt_is_token (ihtp_scanner_select_vtable flags cmpestri level))
       mem (Some req) policy = Some (IHTP_OK, Some req')"
    "req_body_mode req' = IHTP_BODY_CHUNKED"
    by (auto simp: mem_def head_def request_decision_def)
  from encoded_body_in_memory [OF assms(5-7), of head] obtain d mem' where
    "ihtp_decode_chunked (Some (zero_decoder ct)) mem (Some (length head)) (Some (length mem - length head)) =
       Some (int (length rest), Some d, mem', Some (length (concat xss)))"
    "take (length head) mem' = head"
    "span mem' (length head) (length (concat xss) + length rest) = concat xss @ rest"
    by (auto simp: mem_def body_def)
  with head show ?thesis by blast
qed

lemma chunked_request_received_witness:
  "\<exists>mem req req' d mem'.
     ihtp_request_apply_semantics (vt_is_token (ihtp_scanner_select_vtable sample_flags sample_cmpestri 2))
       mem (Some req) None = Some (IHTP_OK, Some req') \<and>
     req_body_mode req' = IHTP_BODY_CHUNKED \<and>
     ihtp_decode_chunked (Some (zero_decoder False)) mem (Some 62) (Some (length mem - 62)) =
       Some (1, Some d, mem', Some 4) \<and> span mem' 62 5 = ascii ''WikiA''"
proof -
  have parts: "request_parts_ok (resolve_policy None) (ascii ''POST'') (ascii ''/'') sample_post_fields"
    unfolding request_parts_ok_def by (intro conjI; code_simp?)
  have acc: "request_accepted (policy_or_strict None) IHTP_HTTP_11 sample_post_fields"
    and te: "values_of ''transfer-encoding'' sample_post_fields \<noteq> []" by code_simp+
  have len: "length (encode_body False [ascii ''Wi'', ascii ''ki''] [] @ [0x41]) < 2 ^ 31"
    by (simp add: encode_body_def encode_chunk_def hex_string.simps ascii_def)
  have n: "length (render_request (ascii ''POST'') (ascii ''/'') IHTP_HTTP_11 sample_post_fields) = 62"
    by code_simp
  have "concat [ascii ''Wi'', ascii ''ki''] @ [0x41] = ascii ''WikiA''" by code_simp
  with chunked_request_received [OF sample_cmpestri_documented parts acc te _ _ len, where undef = sample_state and r = zero_request and b = 0
      and flags = sample_flags and level = 2] show ?thesis
    unfolding n by (fastforce simp: ascii_def eval_nat_numeral)
qed

text \<open>
  C29. The same for a printed request that the policy accepts with a Content-Length and no transfer
  coding: the length decided is the decimal value of every such field, and the fixed decoder started
  with it takes exactly that many bytes, in any fragments.
\<close>

theorem fixed_request_received:
  fixes v :: ihtp_http_version_t
  assumes "cmpestri_documented cmpestri" and "request_parts_ok (resolve_policy policy) m t fs"
    and "request_accepted (policy_or_strict policy) v fs" and "values_of ''transfer-encoding'' fs = []"
    and "h \<in> set (values_of ''content-length'' fs)" and "xs \<noteq> []"
  defines "head \<equiv> render_request m t v fs"
  shows "\<exists>req req' cl. ihtp_parse_request undef (head @ rest) (Some 0) (length (head @ rest)) (Some r) policy (Some b) =
             Some (IHTP_OK, Some req, Some (length head)) \<and>
           ihtp_request_apply_semantics (vt_is_token (ihtp_scanner_select_vtable flags cmpestri level))
             (head @ rest) (Some req) policy = Some (IHTP_OK, Some req') \<and>
           req_body_mode req' = IHTP_BODY_FIXED \<and> req_content_length req' = cl \<and> content_length_ref h = Some cl \<and>
           fixed_verdict cl xs (feed_decoder fixed_bytes (the (ihtp_fixed_decoder_init (Some d) cl)) xs)"
proof -
  have cl: "values_of ''content-length'' fs \<noteq> []" using assms(5) by auto
  from printed_request_decided [OF assms(1,2), of undef v rest r b flags level] assms(3,4) cl
  obtain req req' where head:
    "ihtp_parse_request undef (head @ rest) (Some 0) (length (head @ rest)) (Some r) policy (Some b) =
       Some (IHTP_OK, Some req, Some (length head))"
    "ihtp_request_apply_semantics (vt_is_token (ihtp_scanner_select_vtable flags cmpestri level))
       (head @ rest) (Some req) policy = Some (IHTP_OK, Some req')"
    "req_body_mode req' = IHTP_BODY_FIXED" "req_content_length req' = cl_value fs"
    by (auto simp: head_def request_decision_def)
  have "content_length_ref h = Some (cl_value fs)"
    using cl_value_valid [of fs] assms(3,5) by (simp add: request_accepted_def request_valid_def)
  with head fixed_feed_verdict [OF assms(6), of "cl_value fs"] show ?thesis
    by (auto simp: fixed_init)
qed

definition sample_put_fields :: "(byte list \<times> byte list) list" where
  "sample_put_fields = [(ascii ''Host'', ascii ''a''), (ascii ''Content-Length'', ascii ''4'')]"

lemma fixed_request_received_witness:
  "fixed_verdict 4 [ascii ''Wi'', ascii ''ki'']
     (feed_decoder fixed_bytes (the (ihtp_fixed_decoder_init (Some \<lparr> remaining = 9, fixed_total_decoded = 9 \<rparr>) 4))
        [ascii ''Wi'', ascii ''ki''])"
proof -
  have parts: "request_parts_ok (resolve_policy None) (ascii ''PUT'') (ascii ''/'') sample_put_fields"
    unfolding request_parts_ok_def by (intro conjI; code_simp?)
  have acc: "request_accepted (policy_or_strict None) IHTP_HTTP_11 sample_put_fields"
    and te: "values_of ''transfer-encoding'' sample_put_fields = []"
    and cl: "ascii ''4'' \<in> set (values_of ''content-length'' sample_put_fields)"
    and v: "content_length_ref (ascii ''4'') = Some 4" by code_simp+
  from fixed_request_received [OF sample_cmpestri_documented parts acc te cl, where xs = "[ascii ''Wi'', ascii ''ki'']"
      and undef = sample_state and rest = "[]" and r = zero_request and b = 0 and flags = sample_flags and level = 2
      and d = "\<lparr> remaining = 9, fixed_total_decoded = 9 \<rparr>"] v
  show ?thesis by auto
qed

section \<open>Programs on top of the library\<close>

text \<open>
  C12. The request object of a successful parse is well formed: nonempty method and target lie one
  behind the other inside the consumed bytes, the method code belongs to the method bytes, the
  header count respects the array, every header has a nonempty name and a value inside the received
  bytes, so that a consumer may read through every recorded pointer.
\<close>

theorem parsed_request_well_formed:
  assumes "n \<le> length mem"
    and "ihtp_parse_request undef mem (Some 0) n (Some r) policy (Some b) = Some (IHTP_OK, Some req, Some k)"
  shows "k \<le> n \<and> req_method_str req = Some 0 \<and> 0 < req_method_len req \<and>
         req_path req = Some (req_method_len req + 1) \<and> 0 < req_path_len req \<and>
         req_method_len req + 1 + req_path_len req < k \<and>
         req_method req = method_of_bytes (span mem 0 (req_method_len req)) \<and>
         headers_ok 0 n IHTP_MAX_HEADERS (req_headers req) (req_num_headers req) \<and>
         (\<exists>sink. observe_headers mem (req_headers req) (req_num_headers req) 0 g_sink = Some sink)"
proof -
  have n: "0 + n \<le> length mem" using assms(1) by simp
  from assms(2) request_grammar [OF n] have "request_message (resolve_policy policy) 0 (span mem 0 n) req k" by blast
  then obtain line eol rest m t v j where s: "span mem 0 n = line @ eol @ rest"
    and line: "request_line_of (resolve_policy policy) line m t v"
    and k: "k = length line + length eol + j"
    and req: "req_method_str req = Some 0" "req_method_len req = length m" "req_method req = method_of_bytes m"
      "req_path req = Some (length m + 1)" "req_path_len req = length t"
    by (auto simp: request_message_def)
  have "take (length m) (span mem 0 n) = m" using s line by (simp add: request_line_of_def)
  moreover have "length m \<le> n" using arg_cong [OF s, of length] line n by (simp add: request_line_of_def)
  ultimately have m: "span mem 0 (length m) = m" by (simp add: span_def min_absorb1)
  from request_result_ready [OF n assms(2)] have ok: "headers_ok 0 n IHTP_MAX_HEADERS (req_headers req) (req_num_headers req)"
    and "k \<le> n" by auto
  moreover have "length m + 1 + length t < k" "0 < length m" "0 < length t"
    using line k by (auto simp: request_line_of_def ascii_def)
  moreover have "\<exists>sink. observe_headers mem (req_headers req) (req_num_headers req) 0 g_sink = Some sink"
    by (rule observe_headers_in [OF parsed_request_headers [OF assms(2) n]])
  ultimately show ?thesis unfolding req m by simp
qed

lemma parsed_request_well_formed_witness:
  "\<exists>req k. ihtp_parse_request sample_state sample_request (Some 0) (length sample_request) (Some zero_request) None (Some 0) =
             Some (IHTP_OK, Some req, Some k) \<and> k \<le> length sample_request \<and> req_method req = IHTP_METHOD_GET"
proof -
  have "request_parts_ok (resolve_policy None) (ascii ''GET'') (ascii ''/'') sample_fields"
    unfolding request_parts_ok_def by (intro conjI; code_simp?)
  from printed_request_parsed [OF this, of 0 "[]" _ IHTP_HTTP_11 "[]" sample_state "[]" zero_request 0] obtain k where
    p: "ihtp_parse_request sample_state sample_request (Some 0) (length sample_request) (Some zero_request) None (Some 0) =
       Some (IHTP_OK, Some (printed_request 0 (ascii ''GET'') (ascii ''/'') IHTP_HTTP_11 sample_fields), Some k)"
    by (auto simp: sample_request_def)
  have "method_of_bytes (ascii ''GET'') = IHTP_METHOD_GET" by code_simp
  then have "req_method (printed_request 0 (ascii ''GET'') (ascii ''/'') IHTP_HTTP_11 sample_fields) = IHTP_METHOD_GET"
    by (simp add: printed_request_def)
  with parsed_request_well_formed [OF _ p, of 0] p show ?thesis by auto
qed



text \<open>
  C31. The consumer that keeps the trailer section searches its buffer with strstr and strlen
  without having terminated it: take a printed request that is accepted, its encoded body, a
  nonempty trailer section and a second printed request that is accepted. If body, trailer section
  and second request together are not shorter than the 320-byte buffer, or a trailer line contains a
  NUL, the consumer returns false. Otherwise let the unread bytes be what decoding left behind the
  moved bytes, then the uninitialised rest of the buffer: without a NUL among them it has undefined
  behaviour, and with one it succeeds with a work count too high by exactly the number of unread
  bytes before the first NUL.
\<close>

theorem expect_trailers_unterminated:
  fixes v v' :: ihtp_http_version_t
  assumes "cmpestri_documented cmpestri"
    and "request_parts_ok (Some IHTP_POLICY_STRICT) m t fs" and "request_accepted IHTP_POLICY_STRICT v fs"
    and "request_parts_ok (Some IHTP_POLICY_STRICT) m' t' fs'" and "request_accepted IHTP_POLICY_STRICT v' fs'"
    and "list_all (\<lambda>xs. xs \<noteq> []) xss" and "list_all (\<lambda>l. line_text l \<and> l \<noteq> []) ls" and "ls \<noteq> []"
    and "length tail = 320"
  defines "body \<equiv> encode_body False xss []" and "nxt \<equiv> render_request m' t' v' fs'"
  defines "q \<equiv> trailer_text ls @ [CR, LF] @ nxt"
  defines "wire \<equiv> render_request m t v fs @ body @ q"
  defines "unread \<equiv> drop (length (concat xss @ q)) (body @ q) @ drop (length (body @ q)) tail"
  shows "scenario_consumer_iohttp_expect_trailers
             (vt_is_token (ihtp_scanner_select_vtable flags cmpestri level)) undef tail (wire @ post) 0 (length wire) =
           (if 320 \<le> length (body @ q) \<or> 0 \<in> set (trailer_text ls) then Some None
            else if 0 \<in> set unread
            then Some (Some (length wire + length nxt + length (takeWhile (\<lambda>b. b \<noteq> 0) unread)))
            else None)"
  unfolding wire_def q_def body_def nxt_def unread_def
  by (rule token_scanner.expect_trailers_run [OF dispatched_token_scanner [OF assms(1)] assms(2-9)])

lemma expect_trailers_unterminated_witness:
  "scenario_consumer_iohttp_expect_trailers (vt_is_token (ihtp_scanner_select_vtable sample_flags sample_cmpestri 1))
     sample_state (replicate 320 7) (consumer_iohttp_expect_wire @ [0]) 0 (length consumer_iohttp_expect_wire) = None \<and>
   scenario_consumer_iohttp_expect_trailers (vt_is_token (ihtp_scanner_select_vtable sample_flags sample_cmpestri 1))
     sample_state (replicate 100 7 @ replicate 220 0) (consumer_iohttp_expect_wire @ [0]) 0
     (length consumer_iohttp_expect_wire) =
   Some (Some (length consumer_iohttp_expect_wire + length (req11 ''GET'' ''/final'' [host]) + 25))"
proof -
  have ls: "[ascii ''Digest: sha-256=demo''] \<noteq> []" by simp
  let ?q = "trailer_text [ascii ''Digest: sha-256=demo''] @ [CR, LF] @ req11 ''GET'' ''/final'' [host]"
  have sizes: "length (concat wiki @ ?q) = 75" "0 \<notin> set (trailer_text [ascii ''Digest: sha-256=demo''])"
    "drop 75 (encode_body False wiki [] @ ?q) = ascii ''ample.com'' @ [CR, LF, CR, LF]"
    by (simp_all add: printed_defs)
  have tail: "takeWhile (\<lambda>b. b \<noteq> 0) (replicate 12 (7 :: byte) @ replicate 220 0) = replicate 12 7"
    by (subst takeWhile_append2) auto
  note run = expect_trailers_unterminated [OF sample_cmpestri_documented wire_parts_7 wires_accepted(5) wire_parts_9
      wires_accepted(6) body_parts(1,3) ls, where undef = sample_state and post = "[0]" and flags = sample_flags
      and level = 1, unfolded body_sizes(3) sizes(1,3), folded wires_printed_8]
  show ?thesis
    using run [of "replicate 320 7"] run [of "replicate 100 7 @ replicate 220 0"] sizes(2) tail by (simp add: ascii_def)
qed

lemma scenario_table_passes:
  assumes "cmpestri_documented cmpestri" and "length tail = 256" and "length tail' = 320" and "0 \<in> set (drop 88 tail')"
  shows "\<forall>sc\<in>set (scenarios (vt_is_token (ihtp_scanner_select_vtable flags cmpestri level)) undef dec tail tail').
           sc_len sc = length (sc_wire sc) \<and>
           (\<exists>work sink'. sc_fn sc sink (sc_wire sc @ [0]) 0 (sc_len sc) = Some (Some work, sink'))"
  using token_scanner.scenarios_pass [OF dispatched_token_scanner [OF assms(1)] assms(2-4)]
  unfolding list_all_iff succeeds_def by fast

text \<open>
  C32. The contract benchmark, with any accepted arguments, for every scanner and whatever its
  uninitialised locals hold (a NUL in the unused part of the one buffer that is read as a string):
  every call of every chosen scenario succeeds on its wire, so the program never takes its exit with
  code 2, writes nothing to stderr, and prints one line per chosen scenario; it returns 1 exactly
  when the sum it keeps is 0.
\<close>

theorem contract_bench_runs:
  assumes "cmpestri_documented cmpestri" and "length tail = 256" and "length tail' = 320" and "0 \<in> set (drop 88 tail')"
    and "read_contract_options args default_contract_options = Inr opts"
  shows "let scs = scenarios (vt_is_token (ihtp_scanner_select_vtable flags cmpestri level)) undef dec tail tail'
         in \<exists>works sink'. length works = length (chosen_scenarios opts scs) \<and>
           contract_bench_main row scs args sink =
           Some (of_bool (sink' = 0), \<lparr> con_out = contract_columns (co_mode opts) @
             concat (map2 (row (co_mode opts)) (chosen_scenarios opts scs) works), con_err = [] \<rparr>, sink')"
proof -
  let ?scs = "scenarios (vt_is_token (ihtp_scanner_select_vtable flags cmpestri level)) undef dec tail tail'"
  have "list_all succeeds ?scs"
    by (rule token_scanner.scenarios_pass [OF dispatched_token_scanner [OF assms(1)] assms(2-4)])
  from run_scenarios_succeed [OF this, of opts row "contract_columns (co_mode opts)" sink] show ?thesis
    by (simp add: contract_bench_main_def assms(5) Let_def)
qed

lemma contract_bench_runs_witness:
  "contract_bench_main (\<lambda>_ _ _. []) (scenarios (vt_is_token (ihtp_scanner_select_vtable sample_flags sample_cmpestri 1))
     sample_state \<lparr> remaining = 9, fixed_total_decoded = 9 \<rparr> (replicate 256 0) (replicate 320 0))
     [ascii ''--iterations=5'', ascii ''--scenario=none''] 0 = Some (1, \<lparr> con_out = [], con_err = [] \<rparr>, 0) \<and>
   (\<exists>code con sink'. contract_bench_main (\<lambda>_ _ _. []) (scenarios (vt_is_token (ihtp_scanner_select_vtable sample_flags
     sample_cmpestri 1)) sample_state \<lparr> remaining = 9, fixed_total_decoded = 9 \<rparr> (replicate 256 0) (replicate 320 0))
     [ascii ''--iterations=5''] 0 = Some (code, con, sink') \<and> code \<noteq> 2 \<and> con_err con = [])"
proof
  have nul: "0 \<in> set (drop 88 (replicate 320 (0 :: byte)))" by simp
  note runs = contract_bench_runs [OF sample_cmpestri_documented length_replicate [of 256 "0 :: byte"] length_replicate nul]
  let ?none = "[ascii ''--iterations=5'', ascii ''--scenario=none'']"
  let ?opts = "default_contract_options\<lparr> co_iterations := 5 \<rparr>"
  have opts: "read_contract_options [ascii ''--iterations=5''] default_contract_options = Inr ?opts" by code_simp
  show "\<exists>code con sink'. contract_bench_main (\<lambda>_ _ _. []) (scenarios (vt_is_token (ihtp_scanner_select_vtable sample_flags
     sample_cmpestri 1)) sample_state \<lparr> remaining = 9, fixed_total_decoded = 9 \<rparr> (replicate 256 0) (replicate 320 0))
     [ascii ''--iterations=5''] 0 = Some (code, con, sink') \<and> code \<noteq> 2 \<and> con_err con = []"
    using runs [OF opts, where flags = sample_flags and level = 1 and undef = sample_state and
        dec = "\<lparr> remaining = 9, fixed_total_decoded = 9 \<rparr>" and row = "\<lambda>_ _ _. []" and sink = 0] unfolding Let_def by fastforce
  have "read_contract_options ?none default_contract_options = Inr (?opts\<lparr> co_scenario := Some (ascii ''none'') \<rparr>)"
    by code_simp
  then show "contract_bench_main (\<lambda>_ _ _. []) (scenarios (vt_is_token (ihtp_scanner_select_vtable sample_flags sample_cmpestri 1))
     sample_state \<lparr> remaining = 9, fixed_total_decoded = 9 \<rparr> (replicate 256 0) (replicate 320 0)) ?none 0 =
     Some (1, \<lparr> con_out = [], con_err = [] \<rparr>, 0)"
    by (simp add: contract_bench_main_def scenarios_def default_contract_options_def contract_columns_def ascii_def)
qed

text \<open>
  C33. The four example programs, for every scanner, whatever their uninitialised objects hold: each
  prints exactly its transcript, line by line, with exit code 0, or stops with exit code 1 at the
  first write that fails; nothing goes to stderr and there is no undefined behaviour. basic_parse
  gets there in two parser calls, the first on half of the input.
\<close>

theorem example_programs:
  fixes flags :: build_flags and cpu :: "string \<Rightarrow> bool"
  assumes "cmpestri_documented cmpestri" and "length body_buf = 256"
  defines "level \<equiv> ihtp_scanner_simd_level flags cpu"
  defines "is_token \<equiv> vt_is_token (ihtp_scanner_select_vtable flags cmpestri level)"
  shows "basic_parse_main flags cmpestri cpu undef body_buf ok c = Some (transcript ok (basic_parse_lines level) c) \<and>
         connect_tunnel_main is_token undef ok c = Some (transcript ok connect_tunnel_lines c) \<and>
         expect_trailers_main is_token undef body_buf ok c = Some (transcript ok expect_trailers_lines c) \<and>
         response_upgrade_main is_token undef ok c = Some (transcript ok response_upgrade_lines c)"
proof -
  have t: "token_scanner is_token" unfolding is_token_def by (rule dispatched_token_scanner [OF assms(1)])
  have "is_token = vt_is_token (ihtp_scanner_select_vtable flags cmpestri (ihtp_scanner_simd_level flags cpu))"
    by (simp add: is_token_def level_def)
  from token_scanner.basic_parse_run [OF t assms(2) this, of undef ok c]
  show ?thesis
    using token_scanner.connect_tunnel_run [OF t] token_scanner.expect_trailers_main_run [OF t assms(2)]
      token_scanner.response_upgrade_run [OF t]
    by (simp add: level_def)
qed

lemma example_programs_witness:
  "connect_tunnel_main (vt_is_token (ihtp_scanner_select_vtable sample_flags sample_cmpestri
       (ihtp_scanner_simd_level sample_flags (\<lambda>_. True)))) sample_state (\<lambda>_. True) \<lparr> con_out = [], con_err = [] \<rparr> =
     Some (0, \<lparr> con_out = concat connect_tunnel_lines, con_err = [] \<rparr>)"
  using example_programs [OF sample_cmpestri_documented length_replicate [of 256 7], of sample_flags "\<lambda>_. True" sample_state
      "\<lambda>_. True" "\<lparr> con_out = [], con_err = [] \<rparr>"]
  by (simp add: transcript_all)

lemma scanner_bench_sums:
  assumes "cmpestri_documented cmpestri" and "scanner_ok flags cmpestri cpu g"
  defines "level \<equiv> ihtp_scanner_simd_level flags cpu"
  defines "groups \<equiv> 2 + of_bool (have_sse42 flags \<and> level AND 1 \<noteq> 0) + of_bool (have_avx2 flags \<and> level AND 2 \<noteq> 0)"
  shows "\<exists>g'. run_backend_groups flags cmpestri cpu iterations (g, sums) =
           Some (g', \<lparr> find_sink = find_sink sums + word_of_nat (groups * iterations * 192),
                       token_sink = token_sink sums + word_of_nat (groups * iterations * 5) \<rparr>)"
  using groups_sum [OF assms(1,2), of iterations sums]
  unfolding level_def [symmetric] groups_def [symmetric] add_sums_def by blast

text \<open>
  C34. All backends that the scanner benchmark compares, the dispatcher first, find the same
  positions and tokens in its cases: the program, with any accepted arguments, returns 0 and prints
  as sums those of the reference results, once per backend that runs and per iteration; in
  particular no backend reads outside the string whose entered length is too large.
\<close>

theorem scanner_bench_runs:
  fixes sums :: sinks
  assumes "cmpestri_documented cmpestri" and "scanner_ok flags cmpestri cpu g" and "length args \<le> 2"
    and "read_bench_args args (1000000, OUTPUT_HUMAN) = Inr (iterations, mode)"
  defines "level \<equiv> ihtp_scanner_simd_level flags cpu"
  defines "groups \<equiv> length (compared_backends flags level)"
  defines "sums' \<equiv> \<lparr> find_sink = find_sink sums + word_of_nat (groups * unat iterations * 192),
      token_sink = token_sink sums + word_of_nat (groups * unat iterations * 5) \<rparr>"
  shows "\<exists>g'. scanner_bench_main flags cmpestri cpu find_row token_row prog args (g, sums) =
           Some (0, \<lparr> con_out = print_header flags mode iterations level @
                        concat (map (group_rows find_row token_row mode) (compared_backends flags level)) @
                        sinks_line mode sums',
                      con_err = [] \<rparr>, (g', sums'))"
  using scanner_bench_main_runs [OF assms(1-4)] unfolding sums'_def groups_def level_def add_sums_def by blast

lemma scanner_bench_runs_witness:
  "\<exists>con g'. scanner_bench_main sample_flags sample_cmpestri (\<lambda>_. True) (\<lambda>_ _ _. []) (\<lambda>_ _ _. []) (ascii ''bench'')
     [ascii ''2'', ascii ''--tsv''] (scanner_start, \<lparr> find_sink = 0, token_sink = 0 \<rparr>) =
   Some (0, con, g', \<lparr> find_sink = 1152, token_sink = 30 \<rparr>)"
proof -
  have "read_bench_args [ascii ''2'', ascii ''--tsv''] (1000000, OUTPUT_HUMAN) = Inr (2, OUTPUT_TSV)" by code_simp
  moreover have "length (compared_backends sample_flags (ihtp_scanner_simd_level sample_flags (\<lambda>_. True))) = 3" by code_simp
  moreover have "length [ascii ''2'', ascii ''--tsv''] \<le> 2" by simp
  ultimately show ?thesis
    using scanner_bench_runs [OF sample_cmpestri_documented scanner_ok_start, where args = "[ascii ''2'', ascii ''--tsv'']"
      and iterations = 2 and mode = OUTPUT_TSV and flags = sample_flags and cpu = "\<lambda>_. True"
      and sums = "\<lparr> find_sink = 0, token_sink = 0 \<rparr>" and prog = "ascii ''bench''" and find_row = "\<lambda>_ _ _. []"
      and token_row = "\<lambda>_ _ _. []"] by fastforce
qed

text \<open>Stand-ins for the two other parsers, which reject everything.\<close>

definition no_pico :: pico_api where
  "no_pico = \<lparr> phr_parse_request = (\<lambda>_ _ _ _. Some (- 1)), phr_parse_response = (\<lambda>_ _ _ _. Some (- 1)) \<rparr>"

definition no_llhttp :: "(nat, unit) llhttp_api" where
  "no_llhttp = \<lparr> HPE_OK = 0, HPE_PAUSED_UPGRADE = 1, llhttp_init = (\<lambda>_ _. ()),
     llhttp_execute = (\<lambda>_ capture _ _ _. Some (2, (), capture)), llhttp_finish = (\<lambda>_ capture. Some (0, (), capture)) \<rparr>"

text \<open>
  C35. The throughput comparison, whichever writes succeed. With more than 11 arguments, an argument
  that is not accepted, or a trace option, it only writes a message to stderr and returns 2.
  Otherwise, if --parser selects one of the four entries of the library (stateless and stateful,
  strict and lenient): it returns 2 at once if the first line of the tab-separated output cannot be
  written; else it returns 0, having printed to stdout the lines about the options, one line per
  chosen scenario and the sum, as far as writes succeed, and nothing to stderr. Each entry accepts
  the whole of every chosen wire in every call, so the sum grows by 1000 warm-up calls plus the
  iterations, times the lengths of the chosen wires, modulo 2^64, the same for all four.
\<close>

theorem throughput_runs:
  assumes "name \<in> set library_entries"
  shows "if 11 < length args \<or> (\<forall>opts. read_options args default_options = Inr opts \<longrightarrow> traces opts)
         then \<exists>msg. throughput_main ok row (parsers undef req resp pico llhttp) prog args g = Some (2, print_err ok msg g)
         else \<forall>opts. read_options args default_options = Inr opts \<and> op_parser opts = Some (ascii name) \<longrightarrow>
           throughput_main ok row (parsers undef req resp pico llhttp) prog args g =
             (if op_mode opts = OUTPUT_TSV \<and> \<not> ok (bg_con g) then Some (2, g)
              else let chosen = filter (selected (op_connect_only opts) (op_scenario opts)) compare_scenarios;
                       g' = added ((1000 + unat (op_iterations opts)) * sum_list (map ts_len chosen)) g
                   in Some (0, print_all ok (preamble_lines opts @ map (row (op_mode opts) name) chosen @
                        [sink_line (op_mode opts) (bg_sink g')]) g'))"
proof (cases "11 < length args \<or> (\<forall>opts. read_options args default_options = Inr opts \<longrightarrow> traces opts)")
  case True
  with throughput_main_rejects [OF True] show ?thesis by simp
next
  case False
  show ?thesis
    unfolding if_not_P [OF False] Let_def
  proof (intro allI impI, elim conjE)
    fix opts
    assume "read_options args default_options = Inr opts" and "op_parser opts = Some (ascii name)"
    with False show "throughput_main ok row (parsers undef req resp pico llhttp) prog args g =
        (if op_mode opts = OUTPUT_TSV \<and> \<not> ok (bg_con g) then Some (2, g)
         else Some (0, print_all ok (preamble_lines opts @
           map (row (op_mode opts) name) (filter (selected (op_connect_only opts) (op_scenario opts)) compare_scenarios) @
           [sink_line (op_mode opts) (bg_sink (added ((1000 + unat (op_iterations opts)) * sum_list (map ts_len
             (filter (selected (op_connect_only opts) (op_scenario opts)) compare_scenarios))) g))])
           (added ((1000 + unat (op_iterations opts)) * sum_list (map ts_len
             (filter (selected (op_connect_only opts) (op_scenario opts)) compare_scenarios))) g)))"
      by (intro throughput_main_runs [OF _ _ _ _ assms]) auto
  qed
qed

lemma throughput_runs_witness:
  "(\<exists>con. throughput_main (\<lambda>c. con_out c = []) (\<lambda>_ _ _. [])
     (parsers sample_state zero_request zero_response no_pico no_llhttp) (ascii ''compare'')
     [ascii ''--connect-only'', ascii ''--parser'', ascii ''iohttpparser-stateful-lenient'', ascii '' -991'']
     \<lparr> bg_con = \<lparr> con_out = [], con_err = [] \<rparr>, bg_sink = 0 \<rparr> =
     Some (0, \<lparr> bg_con = con, bg_sink = 891 \<rparr>)) \<and>
   (\<exists>msg. throughput_main (\<lambda>c. con_out c = []) (\<lambda>_ _ _. [])
     (parsers sample_state zero_request zero_response no_pico no_llhttp) (ascii ''compare'') [ascii ''foo'']
     \<lparr> bg_con = \<lparr> con_out = [], con_err = [] \<rparr>, bg_sink = 0 \<rparr> =
     Some (2, \<lparr> bg_con = \<lparr> con_out = [], con_err = msg \<rparr>, bg_sink = 0 \<rparr>))"
proof -
  let ?args = "[ascii ''--connect-only'', ascii ''--parser'', ascii ''iohttpparser-stateful-lenient'', ascii '' -991'']"
  let ?name = "''iohttpparser-stateful-lenient''"
  let ?g = "\<lparr> bg_con = \<lparr> con_out = [], con_err = [] \<rparr>, bg_sink = 0 \<rparr>"
  let ?chosen = "filter (selected True None) compare_scenarios"
  define opts where "opts = default_options\<lparr> op_connect_only := True, op_parser := Some (ascii ?name), op_iterations := - 991 \<rparr>"
  have opts: "read_options ?args default_options = Inr opts" unfolding opts_def by code_simp
  have traces: "\<not> traces opts" by (simp add: traces_def opts_def default_options_def)
  have sel: "op_mode opts = OUTPUT_HUMAN" "op_connect_only opts" "op_scenario opts = None" "op_parser opts = Some (ascii ?name)"
    by (simp_all add: opts_def default_options_def)
  have chosen: "map ts_len ?chosen = [99]"
    by (simp add: compare_scenarios_def selected_def scenario_t.make_def) (simp add: req_connect_def http_lines_def)
  have sum: "word_of_nat ((1000 + unat (- 991 :: 64 word)) * 99) = (891 :: 64 word)" by simp
  have foo: "read_options [ascii ''foo''] default_options = Inl (ascii ''foo'')" by code_simp
  have name: "?name \<in> set library_entries" by (simp add: library_entries_def)
  have con: "\<exists>con. print_all ok ss (added n ?g) = \<lparr> bg_con = con, bg_sink = word_of_nat n \<rparr>" for ok ss n
    by (intro exI [of _ "bg_con (print_all ok ss (added n ?g))"] bench_globals.equality) simp_all
  note run = throughput_runs [OF name, of _ "\<lambda>c. con_out c = []" "\<lambda>_ _ _. []" sample_state zero_request zero_response
      no_pico no_llhttp "ascii ''compare''" ?g]
  let ?n = "(1000 + unat (op_iterations opts)) * sum_list (map ts_len ?chosen)"
  let ?ss = "preamble_lines opts @ map (\<lambda>_. []) ?chosen @ [sink_line OUTPUT_HUMAN (bg_sink (added ?n ?g))]"
  from run [of ?args] opts traces have main: "throughput_main (\<lambda>c. con_out c = []) (\<lambda>_ _ _. [])
      (parsers sample_state zero_request zero_response no_pico no_llhttp) (ascii ''compare'') ?args ?g =
    Some (0, print_all (\<lambda>c. con_out c = []) ?ss (added ?n ?g))"
    by (simp add: sel Let_def del: print_all_simps print_all_added added_simps)
  have "word_of_nat ?n = (891 :: 64 word)" using chosen sum by (simp only: opts_def) simp
  with con [of "\<lambda>c. con_out c = []" ?ss ?n] show ?thesis
    unfolding main using run [of "[ascii ''foo'']"] foo by (auto simp: print_err_def simp del: print_all_simps print_all_added)
qed

text \<open>
  C14. Input buffered while a request is INCOMPLETE, however it is fed: at most one request line, 64
  header lines and one unfinished line (with their line ends) when the policy rejects folded lines;
  when it accepts them, a peer can keep the parser incomplete with arbitrarily much input.
\<close>

theorem buffering_bounded:
  fixes undef :: ihtp_parser_state_t
  assumes "chunks \<noteq> []"
  defines "start \<equiv> (the (ihtp_parser_state_init (Some undef) IHTP_PARSER_MODE_REQUEST), zero_request)"
  shows "if policy_flag reject_obs_fold (resolve_policy policy)
         then (\<forall>c k. feed (request_parse policy) [] chunks start = Some (IHTP_INCOMPLETE, c, k) \<longrightarrow>
                 length (concat chunks) \<le> (IHTP_MAX_REQUEST_LINE + 2) + IHTP_MAX_HEADERS * (IHTP_MAX_HEADER_LINE + 2) +
                   IHTP_MAX_HEADER_LINE)
         else (\<exists>wire c k. N \<le> length wire \<and>
                 feed (request_parse policy) [] [wire] start = Some (IHTP_INCOMPLETE, c, k))"
proof -
  have start: "start = (fresh_state IHTP_PARSER_MODE_REQUEST, zero_request)" by (simp add: start_def state_init_fresh)
  show ?thesis
  proof (cases "policy_flag reject_obs_fold (resolve_policy policy)")
    case True
    have "length (concat chunks) \<le> buffer_limit"
      if f: "feed (request_parse policy) [] chunks start = Some (IHTP_INCOMPLETE, c, k)" for c k
    proof -
      from request_inc.feed_chunks [of start chunks policy] assms(1) f start obtain r where
        "request_parse policy (concat chunks) (length (concat chunks)) start = Some r"
        "same_outcome config_phase r (IHTP_INCOMPLETE, c, k)" by fastforce
      then obtain st req k' where "request_stateful (concat chunks) 0 (length (concat chunks)) policy
          (fresh_state IHTP_PARSER_MODE_REQUEST) zero_request = Some (IHTP_INCOMPLETE, st, req, k')"
        by (auto simp: start request_parse_def regroup_def same_outcome_def split: prod.splits)
      from request_incomplete_length [OF _ True this] show ?thesis by simp
    qed
    with True show ?thesis by (simp add: buffer_limit_def)
  next
    case False
    from folds_incomplete [OF this, of N] obtain st req k where
      "request_stateful (folded_start N) 0 (length (folded_start N)) policy (fresh_state IHTP_PARSER_MODE_REQUEST)
         zero_request = Some (IHTP_INCOMPLETE, st, req, k)" by blast
    then have "feed (request_parse policy) [] [folded_start N] start = Some (IHTP_INCOMPLETE, (st, req), 0)"
      by (simp add: start request_parse_def regroup_def)
    with False folded_start_length [of N] show ?thesis by auto
  qed
qed

lemma buffering_bounded_witness:
  "(\<exists>wire c k. 1000000 \<le> length wire \<and> feed (request_parse (Some IHTP_POLICY_LENIENT)) [] [wire]
      (the (ihtp_parser_state_init (Some sample_state) IHTP_PARSER_MODE_REQUEST), zero_request) = Some (IHTP_INCOMPLETE, c, k)) \<and>
   (case feed (request_parse (Some IHTP_POLICY_STRICT)) [] [ascii ''GET'', ascii '' /x'']
      (the (ihtp_parser_state_init (Some sample_state) IHTP_PARSER_MODE_REQUEST), zero_request) of
      Some (IHTP_INCOMPLETE, c, k) \<Rightarrow> length (ascii ''GET'' @ ascii '' /x'') \<le> 540802 | _ \<Rightarrow> False)"
proof
  show "\<exists>wire c k. 1000000 \<le> length wire \<and> feed (request_parse (Some IHTP_POLICY_LENIENT)) [] [wire]
      (the (ihtp_parser_state_init (Some sample_state) IHTP_PARSER_MODE_REQUEST), zero_request) = Some (IHTP_INCOMPLETE, c, k)"
    using buffering_bounded [of "[[]]" "Some IHTP_POLICY_LENIENT" sample_state 1000000]
    by (simp add: resolve_policy_def IHTP_POLICY_LENIENT_def)
  have ran: "case feed (request_parse (Some IHTP_POLICY_STRICT)) [] [ascii ''GET'', ascii '' /x'']
      (the (ihtp_parser_state_init (Some sample_state) IHTP_PARSER_MODE_REQUEST), zero_request) of
      Some (IHTP_INCOMPLETE, c, k) \<Rightarrow> True | _ \<Rightarrow> False"
    by code_simp
  have "policy_flag reject_obs_fold (resolve_policy (Some IHTP_POLICY_STRICT))" by code_simp
  with ran show "case feed (request_parse (Some IHTP_POLICY_STRICT)) [] [ascii ''GET'', ascii '' /x'']
      (the (ihtp_parser_state_init (Some sample_state) IHTP_PARSER_MODE_REQUEST), zero_request) of
      Some (IHTP_INCOMPLETE, c, k) \<Rightarrow> length (ascii ''GET'' @ ascii '' /x'') \<le> 540802 | _ \<Rightarrow> False"
    using buffering_bounded [of "[ascii ''GET'', ascii '' /x'']" "Some IHTP_POLICY_STRICT" sample_state 0]
    by (auto simp: IHTP_MAX_REQUEST_LINE_def IHTP_MAX_HEADER_LINE_def IHTP_MAX_HEADERS_def
        split: option.splits prod.splits ihtp_status_t.splits)
qed

end
